(* ===== verification/Prelude.thy ===== *)
theory Prelude
  imports Main "HOL-Library.Word" "HOL-Library.Char_ord"
begin

text \<open>
  What every component of the firmware model shares: the machine integer types, the
  collections of simplification rules the component theories fill, elapsed time on the
  32-bit millisecond counter, slices of byte strings, and unsigned decimal text, which the
  identifiers and the JSON writer both produce with the same loop.
\<close>

section \<open>Types and collections\<close>

type_synonym u8 = "8 word"
type_synonym u16 = "16 word"
type_synonym u32 = "32 word"
type_synonym u64 = "64 word"
type_synonym sample = "16 word"

text \<open>
  \<open>std::size_t\<close> counts of bytes are \<open>nat\<close>: every such count of the program is bounded by a
  fixed buffer. \<open>SIZE_MAX\<close>, which the code returns for "no length", is \<open>None\<close> of
  \<open>nat option\<close>. A \<open>std::string_view\<close> is a \<open>string\<close>, one \<open>char\<close> a byte.
\<close>

named_theorems invariant_rules
  "preservation lemmas: an operation of a component keeps the component's invariant"

named_theorems frame_rules
  "fields of a component's state an operation does not write"

lemma xor_zero_iff: "semiring_bit_operations_class.xor a b = 0 \<longleftrightarrow> a = b" for a b :: "'a::len word"
  by (metis xor.assoc xor.left_neutral xor.right_neutral xor_self_eq)

section \<open>The millisecond counter\<close>

text \<open>
  \<open>elapsed(from, to)\<close> of \<open>button.cpp\<close>, \<open>button_gesture.cpp\<close> and \<open>network_policy.cpp\<close>:
  unsigned 32-bit subtraction, which wraps.
\<close>

definition elapsed :: "u32 \<Rightarrow> u32 \<Rightarrow> u32" where
  "elapsed from to = to - from"

lemma elapsed_self [simp]: "elapsed t t = 0"
  by (simp add: elapsed_def)

lemma elapsed_add [simp]: "elapsed t (t + d) = d"
  by (simp add: elapsed_def)

lemma elapsed_trans: "elapsed a c = elapsed a b + elapsed b c"
  by (simp add: elapsed_def)

section \<open>Slices of a byte string\<close>

text \<open>\<open>s.substr(i, n)\<close> of a string view, for \<open>i\<close> inside the view.\<close>

definition substr :: "string \<Rightarrow> nat \<Rightarrow> nat \<Rightarrow> string" where
  "substr s i n = take n (drop i s)"

abbreviation slice :: "string \<Rightarrow> nat \<Rightarrow> nat \<Rightarrow> string" where
  "slice s i j \<equiv> substr s i (j - i)"

lemma length_substr [simp]: "length (substr s i n) = min n (length s - i)"
  by (simp add: substr_def)

lemma substr_zero [simp]: "substr s i 0 = []"
  by (simp add: substr_def)

lemma slice_split:
  assumes "i \<le> j" and "j \<le> k"
  shows "slice s i k = slice s i j @ slice s j k"
proof -
  have "k - i = (j - i) + (k - j)" using assms by simp
  then have "slice s i k = take ((j - i) + (k - j)) (drop i s)" by (simp add: substr_def)
  also have "\<dots> = take (j - i) (drop i s) @ take (k - j) (drop (j - i) (drop i s))"
    by (rule take_add)
  finally show ?thesis using assms by (simp add: substr_def)
qed

lemma slice_step:
  assumes "i < length s" and "i < j"
  shows "slice s i j = s ! i # slice s (Suc i) j"
proof -
  obtain d where j: "j = Suc (i + d)" using assms(2) less_iff_Suc_add by auto
  have "drop i s = s ! i # drop (Suc i) s" using assms(1) by (simp add: Cons_nth_drop_Suc)
  with j show ?thesis by (simp add: substr_def)
qed

lemma slice_one [simp]: "i < length s \<Longrightarrow> substr s i (Suc 0) = [s ! i]"
  by (simp add: substr_def Cons_nth_drop_Suc [symmetric] del: Cons_nth_drop_Suc)

lemma slice_append_middle [simp]:
  "slice (pre @ mid @ post) (length pre) (length pre + length mid) = mid"
  by (simp add: substr_def)

section \<open>Decimal text\<close>

definition is_digit :: "char \<Rightarrow> bool" where
  "is_digit c \<longleftrightarrow> CHR ''0'' \<le> c \<and> c \<le> CHR ''9''"

definition digit_char :: "nat \<Rightarrow> char" where
  "digit_char d = char_of (48 + d)"

definition digit_value :: "char \<Rightarrow> nat" where
  "digit_value c = of_char c - 48"

lemma is_digit_digit_char: "d < 10 \<Longrightarrow> is_digit (digit_char d)"
  by (simp add: is_digit_def digit_char_def less_eq_char_def of_char_of)

lemma digit_value_digit_char: "d < 10 \<Longrightarrow> digit_value (digit_char d) = d"
  by (simp add: digit_value_def digit_char_def of_char_of)

lemma char_code_less [simp]: "(of_char c :: nat) < 256"
  by (metis of_char_mod_256 mod_less_divisor zero_less_numeral)

text \<open>A character as the byte it is.\<close>

definition char_byte :: "char \<Rightarrow> u8" where
  "char_byte c = word_of_nat (of_char c)"

lemma unat_char_byte [simp]: "unat (char_byte c) = of_char c"
proof -
  have "(of_char c :: nat) < 2 ^ 8" by simp
  then show ?thesis by (simp add: char_byte_def unat_of_nat)
qed

lemma char_byte_inj: "char_byte a = char_byte b \<longleftrightarrow> a = b"
  by (metis unat_char_byte of_char_eq_iff)

text \<open>
  The loop that fills \<open>reversed\<close>: the least significant digit first, nothing for 0.
\<close>

fun digits_rev :: "nat \<Rightarrow> string" where
  "digits_rev n = (if n = 0 then [] else digit_char (n mod 10) # digits_rev (n div 10))"

declare digits_rev.simps [simp del]

lemma digits_rev_0 [simp]: "digits_rev 0 = []"
  by (simp add: digits_rev.simps)

lemma digits_rev_pos: "n > 0 \<Longrightarrow> digits_rev n = digit_char (n mod 10) # digits_rev (n div 10)"
  by (subst digits_rev.simps) simp

text \<open>Zero is written by a branch of its own; otherwise the reversed digits are reversed.\<close>

definition decimal :: "nat \<Rightarrow> string" where
  "decimal n = (if n = 0 then ''0'' else rev (digits_rev n))"

lemma digits_rev_length: "n < 10 ^ k \<Longrightarrow> length (digits_rev n) \<le> k"
proof (induction k arbitrary: n)
  case 0
  then show ?case by simp
next
  case (Suc k)
  show ?case
  proof (cases "n = 0")
    case False
    have "n div 10 < 10 ^ k" using Suc.prems by (simp add: less_mult_imp_div_less mult.commute)
    then have "length (digits_rev (n div 10)) \<le> k" by (rule Suc.IH)
    with False show ?thesis by (simp add: digits_rev_pos)
  qed simp
qed

text \<open>Twenty digits hold every 64-bit value: the bound of both \<open>reversed\<close> arrays.\<close>

lemma digits_rev_u64: "length (digits_rev (unat (w :: u64))) \<le> 20"
proof (rule digits_rev_length)
  have "unat w < 2 ^ 64" using unsigned_less [of w] by simp
  then show "unat w < 10 ^ 20" by simp
qed

lemma digits_rev_digits: "set (digits_rev n) \<subseteq> Collect is_digit"
proof (induction n rule: digits_rev.induct)
  case (1 n)
  then show ?case
    by (cases "n = 0") (auto simp: digits_rev_pos is_digit_digit_char)
qed

lemma decimal_digits: "set (decimal n) \<subseteq> Collect is_digit"
  using digits_rev_digits [of n] by (auto simp: decimal_def is_digit_def less_eq_char_def)

lemma decimal_nonempty [simp]: "decimal n \<noteq> []"
  by (simp add: decimal_def digits_rev_pos)

lemma decimal_length: "length (decimal (unat (w :: u64))) \<le> 20"
  using digits_rev_u64 [of w] by (simp add: decimal_def)

text \<open>Reading decimal text from the left, the way the code's reader accumulates it.\<close>

definition decimal_value :: "string \<Rightarrow> nat" where
  "decimal_value s = foldl (\<lambda>v c. v * 10 + digit_value c) 0 s"

lemma decimal_value_rev_digits: "decimal_value (rev (digits_rev n)) = n"
proof (induction n rule: digits_rev.induct)
  case (1 n)
  show ?case
  proof (cases "n = 0")
    case True
    then show ?thesis by (simp add: decimal_value_def)
  next
    case False
    with 1 have "decimal_value (rev (digits_rev (n div 10))) = n div 10" by simp
    with False show ?thesis
      by (simp add: digits_rev_pos decimal_value_def digit_value_digit_char)
  qed
qed

lemma decimal_value_decimal [simp]: "decimal_value (decimal n) = n"
  using decimal_value_rev_digits [of n]
  by (simp add: decimal_def decimal_value_def digit_value_def)

lemma decimal_inj: "decimal m = decimal n \<Longrightarrow> m = n"
  by (metis decimal_value_decimal)

section \<open>Feeding a stream in pieces\<close>

text \<open>
  The contract the two stream readers share. A piece is fed byte by byte after the output
  queue was rewound, which happens only when it is drained; \<open>read_at\<close> and \<open>write_at\<close> are the two
  ends of the queue. Then how the bytes are cut into pieces makes no difference.
\<close>

locale chunked_feed =
  fixes step :: "char \<Rightarrow> 's \<Rightarrow> 's"
    and rewind :: "'s \<Rightarrow> 's"
    and read_at :: "'s \<Rightarrow> nat"
    and write_at :: "'s \<Rightarrow> nat"
  assumes rewind_drained: "read_at s = write_at s \<Longrightarrow> read_at (rewind s) = 0 \<and> write_at (rewind s) = 0"
    and rewind_waiting: "read_at s \<noteq> write_at s \<Longrightarrow> rewind s = s"
    and rewind_empty: "read_at s = 0 \<Longrightarrow> write_at s = 0 \<Longrightarrow> rewind s = s"
    and step_read: "read_at (step c s) = read_at s"
    and step_write: "write_at s \<le> write_at (step c s)"
begin

definition feed :: "string \<Rightarrow> 's \<Rightarrow> 's" where
  "feed bytes s = fold step bytes (rewind s)"

lemma steps_read: "read_at (fold step bytes s) = read_at s"
  by (induction bytes arbitrary: s) (simp_all add: step_read)

lemma steps_write: "write_at s \<le> write_at (fold step bytes s)"
proof (induction bytes arbitrary: s)
  case (Cons c bytes)
  have "write_at s \<le> write_at (step c s)" by (rule step_write)
  also have "\<dots> \<le> write_at (fold step bytes (step c s))" by (rule Cons)
  finally show ?case by simp
qed simp

lemma rewind_after_feed:
  assumes "read_at s \<le> write_at s"
  shows "rewind (feed bytes s) = feed bytes s"
proof -
  have r: "read_at (feed bytes s) = read_at (rewind s)" by (simp add: feed_def steps_read)
  have w: "write_at (rewind s) \<le> write_at (feed bytes s)" by (simp add: feed_def steps_write)
  show ?thesis
  proof (cases "read_at s = write_at s")
    case True
    then have "read_at (feed bytes s) = 0" using rewind_drained [of s] r by simp
    then show ?thesis
      using rewind_empty [of "feed bytes s"] rewind_waiting [of "feed bytes s"] by metis
  next
    case False
    then have "read_at (feed bytes s) < write_at (feed bytes s)"
      using assms r w rewind_waiting [of s] by simp
    then show ?thesis by (simp add: rewind_waiting)
  qed
qed

lemma feed_append: "read_at s \<le> write_at s \<Longrightarrow> feed (a @ b) s = feed b (feed a s)"
  using rewind_after_feed [of s a] by (simp add: feed_def)

lemma feed_keeps_order:
  "read_at s \<le> write_at s \<Longrightarrow> read_at (feed bytes s) \<le> write_at (feed bytes s)"
proof -
  assume le: "read_at s \<le> write_at s"
  have "read_at (rewind s) \<le> write_at (rewind s)"
    using le rewind_drained [of s] rewind_waiting [of s] by (cases "read_at s = write_at s") auto
  then show ?thesis
    using steps_write [of "rewind s" bytes] by (simp add: feed_def steps_read)
qed

lemma feed_pieces:
  "read_at s \<le> write_at s \<Longrightarrow> fold feed pieces s = (if pieces = [] then s else feed (concat pieces) s)"
proof (induction pieces arbitrary: s)
  case (Cons p pieces)
  then have "fold feed pieces (feed p s) =
      (if pieces = [] then feed p s else feed (concat pieces) (feed p s))"
    using feed_keeps_order by blast
  moreover have "feed [] (feed p s) = feed p s"
    using rewind_after_feed [OF Cons.prems] by (simp add: feed_def)
  ultimately show ?case using Cons.prems by (simp add: feed_append)
qed simp

end

end
