(* ===== verification/Protocol.thy ===== *)
theory Protocol
  imports Prelude
begin

text \<open>
  The names that cross the wire: error codes and message kinds
  (\<open>stackchan_domain/src/protocol.cpp\<close>) and expressions
  (\<open>stackchan_domain/src/expression.cpp\<close>). Each is an enumeration with a table of names that
  both the emitting and the parsing side read; the locale \<open>name_table\<close> states what a client
  may rely on, and is interpreted on all three.
\<close>

section \<open>What a table of names promises\<close>

locale name_table =
  fixes to_name :: "'e \<Rightarrow> string"
    and parse :: "string \<Rightarrow> 'e option"
  assumes parse_to_name: "parse (to_name e) = Some e"
    and parse_sound: "parse s = Some e \<Longrightarrow> to_name e = s"
begin

lemma parse_iff: "parse s = Some e \<longleftrightarrow> s = to_name e"
  using parse_to_name parse_sound by blast

lemma to_name_inj: "to_name d = to_name e \<Longrightarrow> d = e"
  using parse_to_name by (metis option.inject)

lemma parse_None_iff: "parse s = None \<longleftrightarrow> s \<notin> range to_name"
  using parse_iff by (metis not_None_eq range_eqI rangeE)

end

section \<open>Error codes and message kinds\<close>

definition kProtocolVersion :: u8 where
  "kProtocolVersion = 1"

datatype MessageKind = MessageKind_command | MessageKind_result | MessageKind_event

datatype ErrorCode =
    ErrorCode_none
  | ErrorCode_bad_request
  | ErrorCode_unknown_command
  | ErrorCode_invalid_argument
  | ErrorCode_not_found
  | ErrorCode_unsupported
  | ErrorCode_estop_engaged
  | ErrorCode_busy
  | ErrorCode_unavailable
  | ErrorCode_timeout
  | ErrorCode_cancelled
  | ErrorCode_internal

definition kErrorNames :: "(ErrorCode \<times> string) list" where
  "kErrorNames =
    [(ErrorCode_none, ''none''),
     (ErrorCode_bad_request, ''bad_request''),
     (ErrorCode_unknown_command, ''unknown_command''),
     (ErrorCode_invalid_argument, ''invalid_argument''),
     (ErrorCode_not_found, ''not_found''),
     (ErrorCode_unsupported, ''unsupported''),
     (ErrorCode_estop_engaged, ''estop_engaged''),
     (ErrorCode_busy, ''busy''),
     (ErrorCode_unavailable, ''unavailable''),
     (ErrorCode_timeout, ''timeout''),
     (ErrorCode_cancelled, ''cancelled''),
     (ErrorCode_internal, ''internal'')]"

definition kKindNames :: "(MessageKind \<times> string) list" where
  "kKindNames =
    [(MessageKind_command, ''command''),
     (MessageKind_result, ''result''),
     (MessageKind_event, ''event'')]"

text \<open>The two loops over a table: the first entry with the code, the first with the text.\<close>

fun name_in :: "('e \<times> string) list \<Rightarrow> 'e \<Rightarrow> string option" where
  "name_in [] e = None"
| "name_in ((c, t) # rest) e = (if c = e then Some t else name_in rest e)"

fun code_in :: "('e \<times> string) list \<Rightarrow> string \<Rightarrow> 'e option" where
  "code_in [] s = None"
| "code_in ((c, t) # rest) s = (if t = s then Some c else code_in rest s)"

definition is_retryable :: "ErrorCode \<Rightarrow> bool" where
  "is_retryable code =
    (case code of
       ErrorCode_busy \<Rightarrow> True
     | ErrorCode_unavailable \<Rightarrow> True
     | ErrorCode_timeout \<Rightarrow> True
     | ErrorCode_none \<Rightarrow> False
     | ErrorCode_bad_request \<Rightarrow> False
     | ErrorCode_unknown_command \<Rightarrow> False
     | ErrorCode_invalid_argument \<Rightarrow> False
     | ErrorCode_not_found \<Rightarrow> False
     | ErrorCode_internal \<Rightarrow> False
     | ErrorCode_unsupported \<Rightarrow> False
     | ErrorCode_estop_engaged \<Rightarrow> False
     | ErrorCode_cancelled \<Rightarrow> False)"

definition error_to_string :: "ErrorCode \<Rightarrow> string" where
  "error_to_string code =
    (case name_in kErrorNames code of Some t \<Rightarrow> t | None \<Rightarrow> ''internal'')"

definition kind_to_string :: "MessageKind \<Rightarrow> string" where
  "kind_to_string kind =
    (case name_in kKindNames kind of Some t \<Rightarrow> t | None \<Rightarrow> ''command'')"

text \<open>\<open>None\<close> is the \<open>false\<close> of the code, which leaves the caller's variable as it was.\<close>

definition parse_error_code :: "string \<Rightarrow> ErrorCode option" where
  "parse_error_code text = code_in kErrorNames text"

definition parse_message_kind :: "string \<Rightarrow> MessageKind option" where
  "parse_message_kind text = code_in kKindNames text"

lemmas protocol_tables =
  error_to_string_def kind_to_string_def parse_error_code_def parse_message_kind_def
  kErrorNames_def kKindNames_def

lemma code_in_sound: "code_in table s = Some e \<Longrightarrow> (e, s) \<in> set table"
  by (induction table s rule: code_in.induct) (auto split: if_splits)

interpretation error_names: name_table error_to_string parse_error_code
proof unfold_locales
  show "parse_error_code (error_to_string e) = Some e" for e
    by (cases e) (simp_all add: protocol_tables)
  show "error_to_string e = s" if "parse_error_code s = Some e" for s e
    using code_in_sound [OF that [unfolded parse_error_code_def]]
    by (auto simp: error_to_string_def kErrorNames_def)
qed

interpretation kind_names: name_table kind_to_string parse_message_kind
proof unfold_locales
  show "parse_message_kind (kind_to_string e) = Some e" for e
    by (cases e) (simp_all add: protocol_tables)
  show "kind_to_string e = s" if "parse_message_kind s = Some e" for s e
    using code_in_sound [OF that [unfolded parse_message_kind_def]]
    by (auto simp: kind_to_string_def kKindNames_def)
qed

section \<open>Expressions\<close>

datatype Expression =
    Expression_neutral
  | Expression_happy
  | Expression_sad
  | Expression_doubt
  | Expression_sleepy
  | Expression_angry

definition kExpressionNames :: "string list" where
  "kExpressionNames = [''neutral'', ''happy'', ''sad'', ''doubt'', ''sleepy'', ''angry'']"

definition kExpressionCount :: nat where
  "kExpressionCount = length kExpressionNames"

text \<open>\<open>static_cast\<close> between the enumeration and its underlying value, in both directions.\<close>

fun expression_index :: "Expression \<Rightarrow> nat" where
  "expression_index Expression_neutral = 0"
| "expression_index Expression_happy = 1"
| "expression_index Expression_sad = 2"
| "expression_index Expression_doubt = 3"
| "expression_index Expression_sleepy = 4"
| "expression_index Expression_angry = 5"

definition expression_of_index :: "nat \<Rightarrow> Expression" where
  "expression_of_index i =
    (if i = 1 then Expression_happy
     else if i = 2 then Expression_sad
     else if i = 3 then Expression_doubt
     else if i = 4 then Expression_sleepy
     else if i = 5 then Expression_angry
     else Expression_neutral)"

lemma expression_of_index_index [simp]: "expression_of_index (expression_index e) = e"
  by (cases e) (simp_all add: expression_of_index_def)

definition expression_to_string :: "Expression \<Rightarrow> string" where
  "expression_to_string expression =
    (let index = expression_index expression
     in if index < kExpressionCount then kExpressionNames ! index else kExpressionNames ! 0)"

text \<open>The loop of \<open>parse_expression\<close>, from index \<open>i\<close> on.\<close>

fun parse_expression_from :: "string list \<Rightarrow> nat \<Rightarrow> string \<Rightarrow> Expression option" where
  "parse_expression_from [] i name = None"
| "parse_expression_from (n # ns) i name =
    (if n = name then Some (expression_of_index i) else parse_expression_from ns (Suc i) name)"

definition parse_expression :: "string \<Rightarrow> Expression option" where
  "parse_expression name = parse_expression_from kExpressionNames 0 name"

lemmas expression_tables =
  expression_to_string_def parse_expression_def kExpressionNames_def kExpressionCount_def
  expression_of_index_def

interpretation expression_names: name_table expression_to_string parse_expression
proof unfold_locales
  show "parse_expression (expression_to_string e) = Some e" for e
    by (cases e) (simp_all add: expression_tables)
  show "expression_to_string e = s" if "parse_expression s = Some e" for s e
    using that by (auto simp: expression_tables split: if_splits)
qed

lemma expression_name_bounds:
  "0 < length (expression_to_string e) \<and> length (expression_to_string e) \<le> 7"
  by (cases e) (simp_all add: expression_tables)

end
