(* ===== verification/Deadline.thy ===== *)
theory Deadline
  imports Prelude
begin

text \<open>
  \<open>stackchan_runtime/deadline\<close>: a bound on a wait, held as an absolute instant of the wrapping
  32-bit millisecond counter. Every decision goes through the time remaining.
\<close>

definition kUnbounded :: u32 where
  "kUnbounded = 4294967295"

definition kHalf :: u32 where
  "kHalf = 2147483647"

record deadline =
  expires_at :: u32
  bounded :: bool

definition never :: deadline where
  "never = \<lparr>expires_at = 0, bounded = False\<rparr>"

definition after :: "u32 \<Rightarrow> u32 \<Rightarrow> deadline" where
  "after now timeout = \<lparr>expires_at = now + timeout, bounded = True\<rparr>"

definition remaining :: "deadline \<Rightarrow> u32 \<Rightarrow> u32" where
  "remaining d now =
    (if \<not> bounded d then kUnbounded
     else let delta = expires_at d - now in if delta > kHalf then 0 else delta)"

definition expired :: "deadline \<Rightarrow> u32 \<Rightarrow> bool" where
  "expired d now \<longleftrightarrow> bounded d \<and> remaining d now = 0"

definition earlier_of :: "deadline \<Rightarrow> deadline \<Rightarrow> u32 \<Rightarrow> deadline" where
  "earlier_of d other now =
    (if \<not> bounded d then other
     else if \<not> bounded other then d
     else if remaining other now < remaining d now then other else d)"

lemma remaining_never [simp]: "remaining never now = kUnbounded"
  by (simp add: remaining_def never_def)

lemma expired_never [simp]: "\<not> expired never now"
  by (simp add: expired_def never_def)

lemma remaining_bounded_le: "bounded d \<Longrightarrow> remaining d now \<le> kHalf"
  by (auto simp: remaining_def Let_def)

lemma remaining_le_unbounded: "remaining d now \<le> kUnbounded"
proof -
  have "kUnbounded = - 1" by (simp add: kUnbounded_def)
  then show ?thesis using max_word_max [of "remaining d now"] by simp
qed

lemma remaining_after:
  "remaining (after now timeout) (now + e) =
    (if timeout - e > kHalf then 0 else timeout - e)"
proof -
  have "now + timeout - (now + e) = timeout - e" by simp
  then show ?thesis by (simp add: remaining_def after_def Let_def)
qed

lemma unat_kHalf [simp]: "unat kHalf = 2147483647"
  by (simp add: kHalf_def)

text \<open>Before the deadline the remaining time counts down exactly, wherever the counter wraps.\<close>

lemma remaining_counts_down:
  assumes "timeout \<le> kHalf" and "e \<le> timeout"
  shows "remaining (after now timeout) (now + e) = timeout - e"
proof -
  have "timeout - e \<le> timeout" using assms(2) by (simp add: word_sub_le)
  with assms(1) have "\<not> timeout - e > kHalf" by simp
  then show ?thesis by (simp add: remaining_after)
qed

text \<open>From the deadline on, for the half range that follows, it has expired.\<close>

lemma expired_from_deadline:
  assumes "timeout \<le> kHalf" and "timeout \<le> e" and "unat e - unat timeout \<le> 2 ^ 31"
  shows "expired (after now timeout) (now + e)"
proof (cases "e = timeout")
  case True
  then show ?thesis
    using remaining_counts_down [OF assms(1), of timeout now]
    by (simp add: expired_def after_def)
next
  case False
  let ?x = "unat e - unat timeout"
  have "unat timeout \<noteq> unat e" using False by (simp add: word_unat_eq_iff)
  then have x: "0 < ?x" using assms(2) by (simp add: word_le_nat_alt)
  have "unat (timeout - e) = 2 ^ 32 - ?x"
    using x assms(2) by (simp add: unat_sub_if_size word_size word_le_nat_alt)
  then have "timeout - e > kHalf" using assms(3) by (simp add: word_less_nat_alt)
  then show ?thesis by (simp add: expired_def remaining_after) (simp add: after_def)
qed

lemma remaining_earlier_of:
  "remaining (earlier_of d other now) now = min (remaining d now) (remaining other now)"
proof (cases "bounded d \<and> bounded other")
  case True
  then show ?thesis by (auto simp: earlier_of_def min_def)
next
  case False
  have un: "\<not> bounded x \<Longrightarrow> remaining x now = kUnbounded" for x
    by (simp add: remaining_def)
  show ?thesis
    using False un remaining_le_unbounded [of d now] remaining_le_unbounded [of other now]
    by (cases "bounded d") (auto simp: earlier_of_def min_absorb1 min_absorb2)
qed

lemma deadline_on_time:
  assumes "timeout \<le> kHalf" and "unat e \<le> unat timeout + 2 ^ 31"
  shows "expired (after now timeout) (now + e) = (timeout \<le> e) \<and>
    remaining (after now timeout) (now + e) = (if timeout \<le> e then 0 else timeout - e)"
proof (cases "timeout \<le> e")
  case True
  then have "expired (after now timeout) (now + e)"
    using expired_from_deadline [OF assms(1) True, of now] assms(2) by simp
  with True show ?thesis by (simp add: expired_def)
next
  case False
  then have le: "e \<le> timeout" and ne: "timeout - e \<noteq> 0" by auto
  with remaining_counts_down [OF assms(1) le, of now] False show ?thesis by (simp add: expired_def)
qed

section \<open>Properties\<close>

text \<open>C40: over the counter's wrap-around, a deadline at most half its range ahead expires exactly when
  its timeout has elapsed, for as long as half the range after it, and counts down until then.\<close>
theorem deadline_exact:
  assumes "timeout \<le> kHalf" and "unat e \<le> unat timeout + 2 ^ 31"
  shows "expired (after now timeout) (now + e) = (timeout \<le> e) \<and>
    remaining (after now timeout) (now + e) = (if timeout \<le> e then 0 else timeout - e)"
  using assms by (rule deadline_on_time)

lemma deadline_exact_witness:
  "\<not> expired (after 4294967290 1000) (4294967290 + 999) \<and> expired (after 4294967290 1000) (4294967290 + 1000)"
  using deadline_exact [of 1000 999 4294967290] deadline_exact [of 1000 1000 4294967290]
  by (simp add: kHalf_def word_le_nat_alt)

end
