(* ===== verification/Cancel_Source.thy ===== *)
theory Cancel_Source
  imports Prelude
begin

text \<open>
  \<open>stackchan_runtime/cancellation\<close>: one shared atomic reason, written by compare-exchange loops.
  The operations are modelled twice: as the effect each has when nothing interferes, and as the
  steps of threads that load, compare and exchange, in any interleaving and with spurious
  failures of the weak exchange. The second form carries the safety statements.
\<close>

section \<open>Reasons, ordered by gravity\<close>

datatype CancelReason =
    CancelReason_none
  | CancelReason_timeout
  | CancelReason_requested
  | CancelReason_shutdown
  | CancelReason_emergency_stop

fun gravity :: "CancelReason \<Rightarrow> nat" where
  "gravity CancelReason_none = 0"
| "gravity CancelReason_timeout = 1"
| "gravity CancelReason_requested = 2"
| "gravity CancelReason_shutdown = 3"
| "gravity CancelReason_emergency_stop = 4"

lemma gravity_inj: "gravity a = gravity b \<Longrightarrow> a = b"
  by (cases a; cases b) simp_all

instantiation CancelReason :: linorder
begin

definition less_eq_CancelReason :: "CancelReason \<Rightarrow> CancelReason \<Rightarrow> bool" where
  "less_eq_CancelReason a b \<longleftrightarrow> gravity a \<le> gravity b"

definition less_CancelReason :: "CancelReason \<Rightarrow> CancelReason \<Rightarrow> bool" where
  "less_CancelReason a b \<longleftrightarrow> gravity a < gravity b"

instance
  by standard (auto simp: less_eq_CancelReason_def less_CancelReason_def dest: gravity_inj)

end

lemmas reason_order = less_eq_CancelReason_def less_CancelReason_def

lemma emergency_top [simp]: "r \<le> CancelReason_emergency_stop"
  by (cases r) (simp_all add: reason_order)

lemma emergency_top_iff [simp]:
  "CancelReason_emergency_stop \<le> r \<longleftrightarrow> r = CancelReason_emergency_stop"
  by (cases r) (simp_all add: reason_order)

lemma not_emergency_less [simp]: "\<not> CancelReason_emergency_stop < r"
  by (simp add: not_less)

section \<open>The effect of each operation alone\<close>

definition cancelled :: "CancelReason \<Rightarrow> bool" where
  "cancelled m \<longleftrightarrow> m \<noteq> CancelReason_none"

definition emergency :: "CancelReason \<Rightarrow> bool" where
  "emergency m \<longleftrightarrow> m = CancelReason_emergency_stop"

definition cancel :: "CancelReason \<Rightarrow> CancelReason \<Rightarrow> CancelReason" where
  "cancel reason m =
    (if reason = CancelReason_none then m else if reason > m then reason else m)"

definition reset :: "CancelReason \<Rightarrow> CancelReason" where
  "reset m =
    (if m \<noteq> CancelReason_emergency_stop \<and> m \<noteq> CancelReason_shutdown \<and> m \<noteq> CancelReason_none
     then CancelReason_none else m)"

definition clear_emergency :: "CancelReason \<Rightarrow> CancelReason" where
  "clear_emergency m = (if m = CancelReason_emergency_stop then CancelReason_none else m)"

lemma cancel_max: "cancel r m = max m r"
  by (cases r; cases m) (simp_all add: cancel_def max_def reason_order)

lemma reset_emergency [simp]: "emergency (reset m) = emergency m"
  by (cases m) (simp_all add: reset_def emergency_def)

lemma emergency_cancelled: "emergency m \<Longrightarrow> cancelled m"
  by (auto simp: emergency_def cancelled_def)

section \<open>Threads of load, compare and exchange\<close>

datatype cancel_op =
    Op_cancel CancelReason
  | Op_reset
  | Op_clear_emergency

text \<open>Where a thread is: not started, holding the value it last saw, or returned.\<close>

datatype cancel_pc = Pc_start | Pc_loop CancelReason | Pc_done

inductive cas_step ::
  "cancel_op \<Rightarrow> CancelReason \<times> cancel_pc \<Rightarrow> CancelReason \<times> cancel_pc \<Rightarrow> bool" where
  cancel_nothing:
    "cas_step (Op_cancel CancelReason_none) (m, Pc_start) (m, Pc_done)"
| cancel_load:
    "r \<noteq> CancelReason_none \<Longrightarrow> cas_step (Op_cancel r) (m, Pc_start) (m, Pc_loop m)"
| cancel_lighter:
    "\<not> r > cur \<Longrightarrow> cas_step (Op_cancel r) (m, Pc_loop cur) (m, Pc_done)"
| cancel_exchange:
    "r > cur \<Longrightarrow> m = cur \<Longrightarrow> cas_step (Op_cancel r) (m, Pc_loop cur) (r, Pc_done)"
| cancel_retry:
    "r > cur \<Longrightarrow> cas_step (Op_cancel r) (m, Pc_loop cur) (m, Pc_loop m)"
| reset_load:
    "cas_step Op_reset (m, Pc_start) (m, Pc_loop m)"
| reset_kept:
    "cur = CancelReason_emergency_stop \<or> cur = CancelReason_shutdown \<or> cur = CancelReason_none \<Longrightarrow>
     cas_step Op_reset (m, Pc_loop cur) (m, Pc_done)"
| reset_exchange:
    "cur \<noteq> CancelReason_emergency_stop \<Longrightarrow> cur \<noteq> CancelReason_shutdown \<Longrightarrow>
     cur \<noteq> CancelReason_none \<Longrightarrow> m = cur \<Longrightarrow>
     cas_step Op_reset (m, Pc_loop cur) (CancelReason_none, Pc_done)"
| reset_retry:
    "cur \<noteq> CancelReason_emergency_stop \<Longrightarrow> cur \<noteq> CancelReason_shutdown \<Longrightarrow>
     cur \<noteq> CancelReason_none \<Longrightarrow> cas_step Op_reset (m, Pc_loop cur) (m, Pc_loop m)"
| clear_exchange:
    "m = CancelReason_emergency_stop \<Longrightarrow>
     cas_step Op_clear_emergency (m, Pc_start) (CancelReason_none, Pc_done)"
| clear_refused:
    "m \<noteq> CancelReason_emergency_stop \<Longrightarrow> cas_step Op_clear_emergency (m, Pc_start) (m, Pc_done)"

inductive_cases cas_step_cancelE: "cas_step (Op_cancel r) (m, pc) (m', pc')"
inductive_cases cas_step_resetE: "cas_step Op_reset (m, pc) (m', pc')"
inductive_cases cas_step_clearE: "cas_step Op_clear_emergency (m, pc) (m', pc')"

text \<open>The shared reason and every call in flight; a call may begin at any time.\<close>

type_synonym cancel_sys = "CancelReason \<times> (cancel_op \<times> cancel_pc) list"

inductive cancel_sys_step :: "cancel_sys \<Rightarrow> cancel_sys \<Rightarrow> bool" where
  call_begins: "cancel_sys_step (m, ts) (m, ts @ [(op, Pc_start)])"
| call_moves:
    "i < length ts \<Longrightarrow> ts ! i = (op, pc) \<Longrightarrow> cas_step op (m, pc) (m', pc') \<Longrightarrow>
     cancel_sys_step (m, ts) (m', ts[i := (op, pc')])"

section \<open>A call that runs alone has its effect\<close>

fun effect :: "cancel_op \<Rightarrow> CancelReason \<Rightarrow> CancelReason" where
  "effect (Op_cancel r) m = cancel r m"
| "effect Op_reset m = reset m"
| "effect Op_clear_emergency m = clear_emergency m"

definition solo_inv :: "cancel_op \<Rightarrow> CancelReason \<Rightarrow> CancelReason \<times> cancel_pc \<Rightarrow> bool" where
  "solo_inv op m0 s \<longleftrightarrow>
    (case snd s of
       Pc_start \<Rightarrow> fst s = m0
     | Pc_loop cur \<Rightarrow> fst s = m0 \<and> cur = m0 \<and> op \<noteq> Op_cancel CancelReason_none
         \<and> op \<noteq> Op_clear_emergency
     | Pc_done \<Rightarrow> fst s = effect op m0)"

lemma solo_inv_step: "cas_step op s s' \<Longrightarrow> solo_inv op m0 s \<Longrightarrow> solo_inv op m0 s'"
  by (induction rule: cas_step.induct)
    (auto simp: solo_inv_def cancel_def reset_def clear_emergency_def)

lemma solo_run:
  assumes "(cas_step op)\<^sup>*\<^sup>* (m, Pc_start) (m', Pc_done)"
  shows "m' = effect op m"
proof -
  have "solo_inv op m s" if "(cas_step op)\<^sup>*\<^sup>* (m, Pc_start) s" for s
    using that by (induction rule: rtranclp_induct) (auto simp: solo_inv_def [of op m "(m, Pc_start)"]
        intro: solo_inv_step)
  from this [OF assms] show ?thesis by (simp add: solo_inv_def)
qed

section \<open>Nothing but \<open>clear_emergency\<close> releases an emergency stop\<close>

definition no_clear :: "cancel_sys \<Rightarrow> bool" where
  "no_clear s \<longleftrightarrow> (\<forall>(op, pc) \<in> set (snd s). op \<noteq> Op_clear_emergency)"

text \<open>What every call knows of the reason: a value seen as an emergency stop still is one.\<close>

definition emergency_inv :: "cancel_sys \<Rightarrow> bool" where
  "emergency_inv s \<longleftrightarrow>
    (\<forall>(op, pc) \<in> set (snd s).
       (pc = Pc_loop CancelReason_emergency_stop \<longrightarrow> emergency (fst s)) \<and>
       (op = Op_cancel CancelReason_emergency_stop \<and> pc = Pc_done \<longrightarrow> emergency (fst s)))"

lemma cas_step_keeps_emergency:
  assumes "cas_step op (m, pc) (m', pc')" and "op \<noteq> Op_clear_emergency" and "emergency m"
  shows "emergency m'"
  using assms
  by (cases op) (auto elim!: cas_step_cancelE cas_step_resetE simp: emergency_def)

lemma cas_step_own_emergency:
  assumes "cas_step op (m, pc) (m', pc')" and "op \<noteq> Op_clear_emergency"
    and "pc = Pc_loop CancelReason_emergency_stop \<longrightarrow> emergency m"
  shows "(pc' = Pc_loop CancelReason_emergency_stop \<longrightarrow> emergency m') \<and>
    (op = Op_cancel CancelReason_emergency_stop \<and> pc' = Pc_done \<longrightarrow> emergency m')"
proof (cases op)
  case (Op_cancel r)
  with assms(1) have "cas_step (Op_cancel r) (m, pc) (m', pc')" by simp
  then show ?thesis
    using assms(3) Op_cancel
    by (cases rule: cas_step_cancelE) (auto simp: emergency_def not_less)
next
  case Op_reset
  with assms(1) have "cas_step Op_reset (m, pc) (m', pc')" by simp
  then show ?thesis
    using assms(3) Op_reset by (cases rule: cas_step_resetE) (auto simp: emergency_def)
qed (use assms(2) in simp)

lemma cancel_sys_step_emergency:
  assumes "cancel_sys_step s s'" and "no_clear s'" and "emergency_inv s"
  shows "emergency_inv s' \<and> (emergency (fst s) \<longrightarrow> emergency (fst s'))"
  using assms
proof (induction rule: cancel_sys_step.induct)
  case (call_begins m ts op)
  then show ?case by (auto simp: emergency_inv_def)
next
  case (call_moves i ts op pc m m' pc')
  have op: "op \<noteq> Op_clear_emergency"
    using call_moves.prems(1) call_moves.hyps(1)
    by (auto simp: no_clear_def dest!: bspec [where x = "(op, pc')"] intro: set_update_memI)
  have old: "(pc = Pc_loop CancelReason_emergency_stop \<longrightarrow> emergency m)"
    using call_moves.prems(2) call_moves.hyps(1,2)
    by (auto simp: emergency_inv_def dest!: bspec [where x = "(op, pc)"] intro: nth_mem) (metis nth_mem)
  have keep: "emergency m \<longrightarrow> emergency m'"
    using cas_step_keeps_emergency [OF call_moves.hyps(3) op] by blast
  have own: "(pc' = Pc_loop CancelReason_emergency_stop \<longrightarrow> emergency m') \<and>
      (op = Op_cancel CancelReason_emergency_stop \<and> pc' = Pc_done \<longrightarrow> emergency m')"
    using cas_step_own_emergency [OF call_moves.hyps(3) op old] .
  have "\<forall>x \<in> set (ts[i := (op, pc')]). x = (op, pc') \<or> x \<in> set ts"
    using set_update_subset_insert by fastforce
  then show ?case
    using keep own call_moves.prems(2) by (fastforce simp: emergency_inv_def)
qed

text \<open>Every run in which no call of \<open>clear_emergency\<close> occurs.\<close>

inductive run_without_clear :: "cancel_sys \<Rightarrow> cancel_sys \<Rightarrow> bool" where
  run_refl: "no_clear s \<Longrightarrow> run_without_clear s s"
| run_step: "run_without_clear s t \<Longrightarrow> cancel_sys_step t u \<Longrightarrow> no_clear u \<Longrightarrow> run_without_clear s u"

lemma run_without_clear_emergency:
  assumes "run_without_clear s t" and "emergency_inv s"
  shows "emergency_inv t \<and> (emergency (fst s) \<longrightarrow> emergency (fst t))"
  using assms
proof (induction rule: run_without_clear.induct)
  case (run_refl s)
  then show ?case by simp
next
  case (run_step s t u)
  then show ?case using cancel_sys_step_emergency by blast
qed

section \<open>The gravest reason wins\<close>

definition only_cancels :: "cancel_sys \<Rightarrow> bool" where
  "only_cancels s \<longleftrightarrow> (\<forall>(op, pc) \<in> set (snd s). \<exists>r. op = Op_cancel r)"

definition gravest_inv :: "CancelReason \<Rightarrow> cancel_sys \<Rightarrow> bool" where
  "gravest_inv m0 s \<longleftrightarrow>
    m0 \<le> fst s \<and>
    (fst s = m0 \<or> Op_cancel (fst s) \<in> fst ` set (snd s)) \<and>
    (\<forall>(op, pc) \<in> set (snd s).
       (\<forall>cur. pc = Pc_loop cur \<longrightarrow> cur \<le> fst s) \<and>
       (\<forall>r. op = Op_cancel r \<and> pc = Pc_done \<longrightarrow> r \<le> fst s))"

lemma none_least [simp]: "CancelReason_none \<le> r"
  by (cases r) (simp_all add: reason_order)

lemma cas_step_gravest:
  assumes "cas_step (Op_cancel r) (m, pc) (m', pc')" and "\<forall>cur. pc = Pc_loop cur \<longrightarrow> cur \<le> m"
  shows "m \<le> m' \<and> (m' = m \<or> m' = r) \<and> (\<forall>cur. pc' = Pc_loop cur \<longrightarrow> cur \<le> m') \<and>
    (pc' = Pc_done \<longrightarrow> r \<le> m')"
  using assms by (cases rule: cas_step_cancelE) (auto simp: not_less)

lemma cancel_sys_step_gravest:
  assumes "cancel_sys_step s s'" and "only_cancels s'" and "gravest_inv m0 s"
  shows "gravest_inv m0 s'"
  using assms
proof (induction rule: cancel_sys_step.induct)
  case (call_begins m ts op)
  then show ?case by (auto simp: gravest_inv_def)
next
  case (call_moves i ts op pc m m' pc')
  have mem: "(op, pc) \<in> set ts" using call_moves.hyps(1,2) by (metis nth_mem)
  have mem': "(op, pc') \<in> set (ts[i := (op, pc')])"
    using call_moves.hyps(1) by (rule set_update_memI)
  then obtain r where r: "op = Op_cancel r"
    using call_moves.prems(1) by (auto simp: only_cancels_def)
  have seen: "\<forall>cur. pc = Pc_loop cur \<longrightarrow> cur \<le> m"
    using call_moves.prems(2) mem by (auto simp: gravest_inv_def)
  have step: "m \<le> m' \<and> (m' = m \<or> m' = r) \<and> (\<forall>cur. pc' = Pc_loop cur \<longrightarrow> cur \<le> m') \<and>
      (pc' = Pc_done \<longrightarrow> r \<le> m')"
    using cas_step_gravest [OF call_moves.hyps(3) [unfolded r] seen] .
  have "map fst (ts[i := (op, pc')]) = map fst ts"
    using call_moves.hyps(1,2) by (simp add: map_update) (metis fst_conv list_update_id nth_map)
  then have ops: "fst ` set (ts[i := (op, pc')]) = fst ` set ts" by (metis set_map)
  have sub: "\<forall>x \<in> set (ts[i := (op, pc')]). x = (op, pc') \<or> x \<in> set ts"
    using set_update_subset_insert by fastforce
  have low: "m0 \<le> m'" using call_moves.prems(2) step by (auto simp: gravest_inv_def)
  have src: "m' = m0 \<or> Op_cancel m' \<in> fst ` set ts"
    using call_moves.prems(2) step mem r by (force simp: gravest_inv_def)
  have all: "\<forall>(op', pc'') \<in> set (ts[i := (op, pc')]).
      (\<forall>cur. pc'' = Pc_loop cur \<longrightarrow> cur \<le> m') \<and> (\<forall>r. op' = Op_cancel r \<and> pc'' = Pc_done \<longrightarrow> r \<le> m')"
    using sub step r call_moves.prems(2) by (fastforce simp: gravest_inv_def)
  show ?case using low src all ops by (simp add: gravest_inv_def)
qed

section \<open>Properties\<close>

text \<open>C25: however the calls of any number of threads interleave, once an emergency stop has returned
  the shared flag is an emergency stop, and stays one until somebody clears it.\<close>
theorem emergency_stop_holds:
  assumes "run_without_clear (m, []) s" and "(Op_cancel CancelReason_emergency_stop, Pc_done) \<in> set (snd s)"
    and "run_without_clear s t"
  shows "emergency (fst s) \<and> emergency (fst t)"
proof -
  have s: "emergency_inv s"
    using run_without_clear_emergency [OF assms(1)] by (simp add: emergency_inv_def)
  with assms(2) have "emergency (fst s)" by (auto simp: emergency_inv_def)
  with run_without_clear_emergency [OF assms(3) s] show ?thesis by simp
qed

lemma emergency_stop_holds_witness:
  "emergency (fst (CancelReason_emergency_stop, [(Op_cancel CancelReason_emergency_stop, Pc_done)]))"
proof -
  let ?op = "Op_cancel CancelReason_emergency_stop"
  let ?s = "(CancelReason_emergency_stop, [(?op, Pc_done)])"
  have "run_without_clear (CancelReason_timeout, []) (CancelReason_timeout, [])"
    by (rule run_refl) (simp add: no_clear_def)
  then have "run_without_clear (CancelReason_timeout, []) (CancelReason_timeout, [(?op, Pc_start)])"
    by (rule run_step) (use call_begins [of CancelReason_timeout "[]" ?op] in \<open>simp_all add: no_clear_def\<close>)
  then have "run_without_clear (CancelReason_timeout, [])
      (CancelReason_timeout, [(?op, Pc_loop CancelReason_timeout)])"
    by (rule run_step)
      (use call_moves [of 0 "[(?op, Pc_start)]" ?op Pc_start CancelReason_timeout CancelReason_timeout]
        cancel_load [of CancelReason_emergency_stop CancelReason_timeout]
        in \<open>simp_all add: no_clear_def\<close>)
  then have run: "run_without_clear (CancelReason_timeout, []) ?s"
    by (rule run_step)
      (use call_moves [of 0 "[(?op, Pc_loop CancelReason_timeout)]" ?op "Pc_loop CancelReason_timeout"
        CancelReason_timeout CancelReason_emergency_stop Pc_done]
        cancel_exchange [of CancelReason_timeout CancelReason_emergency_stop CancelReason_timeout]
        in \<open>simp_all add: no_clear_def less_CancelReason_def\<close>)
  have "run_without_clear ?s ?s" by (rule run_refl) (simp add: no_clear_def)
  with run show ?thesis using emergency_stop_holds [of CancelReason_timeout ?s ?s] by simp
qed

inductive cancel_only_run :: "cancel_sys \<Rightarrow> cancel_sys \<Rightarrow> bool" where
  cancels_begin: "only_cancels s \<Longrightarrow> cancel_only_run s s"
| cancels_step: "cancel_only_run s t \<Longrightarrow> cancel_sys_step t u \<Longrightarrow> only_cancels u \<Longrightarrow> cancel_only_run s u"

lemma cancel_only_run_gravest: "cancel_only_run s t \<Longrightarrow> gravest_inv m0 s \<Longrightarrow> gravest_inv m0 t"
  by (induction rule: cancel_only_run.induct) (blast intro: cancel_sys_step_gravest)+

text \<open>C26: when several threads cancel at once, with whatever interleaving of their loads and
  exchanges, the reason left when all have returned is the gravest of theirs and the one before.\<close>
theorem gravest_reason_wins:
  assumes "cancel_only_run (m0, []) (m, calls)" and "\<forall>c\<in>set calls. snd c = Pc_done"
  shows "m0 \<le> m \<and> (\<forall>r. Op_cancel r \<in> fst ` set calls \<longrightarrow> r \<le> m) \<and>
    (m = m0 \<or> Op_cancel m \<in> fst ` set calls)"
proof -
  have "gravest_inv m0 (m, calls)"
    by (rule cancel_only_run_gravest [OF assms(1)]) (simp add: gravest_inv_def)
  with assms(2) show ?thesis by (fastforce simp: gravest_inv_def)
qed

lemma gravest_reason_wins_witness:
  "CancelReason_timeout \<le> CancelReason_requested"
proof -
  let ?a = "Op_cancel CancelReason_requested"
  have "cancel_only_run (CancelReason_timeout, []) (CancelReason_timeout, [])"
    by (rule cancels_begin) (simp add: only_cancels_def)
  then have "cancel_only_run (CancelReason_timeout, []) (CancelReason_timeout, [(?a, Pc_start)])"
    by (rule cancels_step) (use call_begins [of CancelReason_timeout "[]" ?a] in \<open>simp_all add: only_cancels_def\<close>)
  then have "cancel_only_run (CancelReason_timeout, [])
      (CancelReason_timeout, [(?a, Pc_loop CancelReason_timeout)])"
    by (rule cancels_step)
      (use call_moves [of 0 "[(?a, Pc_start)]" ?a Pc_start CancelReason_timeout CancelReason_timeout]
        cancel_load [of CancelReason_requested CancelReason_timeout] in \<open>simp_all add: only_cancels_def\<close>)
  then have "cancel_only_run (CancelReason_timeout, []) (CancelReason_requested, [(?a, Pc_done)])"
    by (rule cancels_step)
      (use call_moves [of 0 "[(?a, Pc_loop CancelReason_timeout)]" ?a "Pc_loop CancelReason_timeout"
        CancelReason_timeout CancelReason_requested Pc_done]
        cancel_exchange [of CancelReason_timeout CancelReason_requested CancelReason_timeout]
        in \<open>simp_all add: only_cancels_def less_CancelReason_def\<close>)
  from gravest_reason_wins [OF this] show ?thesis by simp
qed

end
