(* ===== verification/Mailbox.thy ===== *)
theory Mailbox
  imports Prelude
begin

text \<open>
  \<open>stackchan_runtime/mailbox.hpp\<close>: a bounded ring buffer between tasks, with two policies for
  what happens when it is full. The locales say what a queue of bounded size promises; the ring
  is interpreted in them through the list of its contents.
\<close>

section \<open>What a bounded queue promises\<close>

text \<open>Popping until nothing is left, at most \<open>n\<close> times.\<close>

fun drain :: "('q \<Rightarrow> 'a option \<times> 'q) \<Rightarrow> nat \<Rightarrow> 'q \<Rightarrow> 'a list \<times> 'q" where
  "drain pop 0 q = ([], q)"
| "drain pop (Suc n) q =
    (case pop q of
       (None, q') \<Rightarrow> ([], q')
     | (Some x, q') \<Rightarrow> (let (xs, q'') = drain pop n q' in (x # xs, q'')))"

fun push_all :: "('a \<Rightarrow> 'q \<Rightarrow> bool \<times> 'q) \<Rightarrow> 'a list \<Rightarrow> 'q \<Rightarrow> 'q" where
  "push_all push [] q = q"
| "push_all push (x # xs) q = push_all push xs (snd (push x q))"

locale bounded_queue =
  fixes push :: "'a \<Rightarrow> 'q \<Rightarrow> bool \<times> 'q"
    and pop :: "'q \<Rightarrow> 'a option \<times> 'q"
    and contents :: "'q \<Rightarrow> 'a list"
    and room :: "'q \<Rightarrow> nat"
    and invar :: "'q \<Rightarrow> bool"
  assumes invar_push: "invar q \<Longrightarrow> invar (snd (push x q))"
    and invar_pop: "invar q \<Longrightarrow> invar (snd (pop q))"
    and push_fits: "invar q \<Longrightarrow> 0 < room q \<Longrightarrow>
      fst (push x q) \<and> contents (snd (push x q)) = contents q @ [x] \<and>
      room (snd (push x q)) = room q - 1"
    and pop_empty: "invar q \<Longrightarrow> contents q = [] \<Longrightarrow> pop q = (None, q)"
    and pop_first: "invar q \<Longrightarrow> contents q = y # ys \<Longrightarrow>
      fst (pop q) = Some y \<and> contents (snd (pop q)) = ys"
begin

lemma push_all_contents:
  "invar q \<Longrightarrow> length xs \<le> room q \<Longrightarrow>
   invar (push_all push xs q) \<and> contents (push_all push xs q) = contents q @ xs"
proof (induction xs arbitrary: q)
  case Nil
  then show ?case by simp
next
  case (Cons x xs)
  then have "fst (push x q) \<and> contents (snd (push x q)) = contents q @ [x] \<and>
      room (snd (push x q)) = room q - 1"
    by (intro push_fits) auto
  with Cons.IH [of "snd (push x q)"] Cons.prems invar_push [of q x] show ?case by simp
qed

lemma drain_contents:
  "invar q \<Longrightarrow> length (contents q) \<le> n \<Longrightarrow>
   fst (drain pop n q) = contents q \<and> contents (snd (drain pop n q)) = []"
proof (induction n arbitrary: q)
  case 0
  then show ?case by simp
next
  case (Suc n)
  show ?case
  proof (cases "contents q")
    case Nil
    with pop_empty [OF Suc.prems(1)] show ?thesis by simp
  next
    case (Cons y ys)
    obtain r where r: "pop q = (Some y, r)" and ys: "contents r = ys"
      using pop_first [OF Suc.prems(1) Cons] by (cases "pop q") auto
    have "invar r" using invar_pop [OF Suc.prems(1)] r by simp
    with Suc.IH [of r] Suc.prems(2) Cons ys
    have "fst (drain pop n r) = ys \<and> contents (snd (drain pop n r)) = []" by simp
    with r Cons show ?thesis by (simp add: split_beta)
  qed
qed

text \<open>First in, first out: what was pushed into an empty queue comes back in the same order.\<close>

lemma fifo:
  assumes "invar q" and "contents q = []" and "length xs \<le> room q"
  shows "fst (drain pop (length xs) (push_all push xs q)) = xs"
  using push_all_contents [OF assms(1,3)] drain_contents [of "push_all push xs q" "length xs"]
    assms(2) by simp

end

section \<open>The mailbox\<close>

datatype OverflowPolicy = OverflowPolicy_reject_newest | OverflowPolicy_drop_oldest

text \<open>\<open>Capacity\<close> is the length of the slot array; \<open>T{}\<close> is the parameter \<open>blank\<close> of the pop.\<close>

record 'a mailbox =
  mb_slots :: "'a list"
  mb_head :: nat
  mb_size :: nat
  mb_dropped :: nat
  mb_high_water :: nat
  mb_policy :: OverflowPolicy

abbreviation mb_capacity :: "'a mailbox \<Rightarrow> nat" where
  "mb_capacity m \<equiv> length (mb_slots m)"

definition mailbox_new :: "'a \<Rightarrow> nat \<Rightarrow> OverflowPolicy \<Rightarrow> 'a mailbox" where
  "mailbox_new blank capacity policy =
    \<lparr>mb_slots = replicate capacity blank, mb_head = 0, mb_size = 0, mb_dropped = 0,
     mb_high_water = 0, mb_policy = policy\<rparr>"

text \<open>The second half of \<open>push\<close>, after a full box has been dealt with.\<close>

definition mailbox_store :: "'a \<Rightarrow> 'a mailbox \<Rightarrow> 'a mailbox" where
  "mailbox_store v m =
    (let tail = (mb_head m + mb_size m) mod mb_capacity m;
         size' = mb_size m + 1
     in m\<lparr>mb_slots := (mb_slots m)[tail := v], mb_size := size',
          mb_high_water := max size' (mb_high_water m)\<rparr>)"

definition mailbox_push :: "'a \<Rightarrow> 'a mailbox \<Rightarrow> bool \<times> 'a mailbox" where
  "mailbox_push v m =
    (if mb_size m = mb_capacity m then
       (if mb_policy m = OverflowPolicy_reject_newest
        then (False, m\<lparr>mb_dropped := mb_dropped m + 1\<rparr>)
        else (True, mailbox_store v
               (m\<lparr>mb_head := (mb_head m + 1) mod mb_capacity m, mb_size := mb_size m - 1,
                  mb_dropped := mb_dropped m + 1\<rparr>)))
     else (True, mailbox_store v m))"

definition mailbox_pop :: "'a \<Rightarrow> 'a mailbox \<Rightarrow> 'a option \<times> 'a mailbox" where
  "mailbox_pop blank m =
    (if mb_size m = 0 then (None, m)
     else (Some (mb_slots m ! mb_head m),
           m\<lparr>mb_slots := (mb_slots m)[mb_head m := blank],
             mb_head := (mb_head m + 1) mod mb_capacity m, mb_size := mb_size m - 1\<rparr>))"

text \<open>\<open>while (pop().has_value()) {}\<close>: every iteration but the last takes one entry out.\<close>

function mailbox_clear :: "'a \<Rightarrow> 'a mailbox \<Rightarrow> 'a mailbox" where
  "mailbox_clear blank m =
    (if mb_size m = 0 then m else mailbox_clear blank (snd (mailbox_pop blank m)))"
  by pat_completeness auto
termination
  by (relation "measure (\<lambda>(blank, m). mb_size m)") (auto simp: mailbox_pop_def)

declare mailbox_clear.simps [simp del]

section \<open>The ring holds a list\<close>

definition mb_contents :: "'a mailbox \<Rightarrow> 'a list" where
  "mb_contents m = map (\<lambda>k. mb_slots m ! ((mb_head m + k) mod mb_capacity m)) [0..<mb_size m]"

definition mb_invar :: "'a mailbox \<Rightarrow> bool" where
  "mb_invar m \<longleftrightarrow> 0 < mb_capacity m \<and> mb_head m < mb_capacity m \<and> mb_size m \<le> mb_capacity m \<and>
    mb_size m \<le> mb_high_water m \<and> mb_high_water m \<le> mb_capacity m"

definition mb_room :: "'a mailbox \<Rightarrow> nat" where
  "mb_room m = mb_capacity m - mb_size m"

lemma length_mb_contents [simp]: "length (mb_contents m) = mb_size m"
  by (simp add: mb_contents_def)

lemma mb_invar_new [invariant_rules]: "0 < capacity \<Longrightarrow> mb_invar (mailbox_new blank capacity policy)"
  by (simp add: mb_invar_def mailbox_new_def)

lemma mb_contents_new [simp]: "mb_contents (mailbox_new blank capacity policy) = []"
  by (simp add: mb_contents_def mailbox_new_def)

lemma ring_distinct:
  assumes "(h + k) mod c = (h + j) mod c" and "k < c" and "j < (c :: nat)"
  shows "k = j"
proof -
  have "k mod c = j mod c" using assms(1) by (simp add: nat_mod_eq_iff) 
  then show ?thesis using assms(2,3) by simp
qed

lemma mb_contents_store:
  assumes "mb_invar m" and "mb_size m < mb_capacity m"
  shows "mb_contents (mailbox_store v m) = mb_contents m @ [v]"
proof -
  let ?c = "mb_capacity m" and ?h = "mb_head m" and ?n = "mb_size m"
  have tail: "(?h + ?n) mod ?c < ?c" using assms(1) by (simp add: mb_invar_def)
  have "(?h + ?n) mod ?c \<noteq> (?h + k) mod ?c" if "k < ?n" for k
    using ring_distinct [of ?h ?n ?c k] that assms(2) by auto
  then show ?thesis
    using tail by (simp add: mb_contents_def mailbox_store_def Let_def nth_list_update)
qed

lemma mb_contents_drop_head:
  assumes "mb_invar m" and "0 < mb_size m"
    and "mb_slots m' = mb_slots m \<or> mb_slots m' = (mb_slots m)[mb_head m := blank]"
    and "mb_head m' = (mb_head m + 1) mod mb_capacity m" and "mb_size m' = mb_size m - 1"
  shows "mb_contents m = mb_slots m ! mb_head m # mb_contents m'"
proof -
  let ?c = "mb_capacity m" and ?h = "mb_head m"
  obtain n where n: "mb_size m = Suc n" using assms(2) gr0_implies_Suc by blast
  have cap: "mb_capacity m' = ?c" using assms(3) by auto
  have slot: "mb_slots m' ! ((?h + Suc k) mod ?c) = mb_slots m ! ((?h + Suc k) mod ?c)" if "k < n" for k
  proof -
    have "(?h + Suc k) mod ?c \<noteq> ?h mod ?c"
      using ring_distinct [of ?h "Suc k" ?c 0] that n assms(1) by (auto simp: mb_invar_def)
    then have "(?h + Suc k) mod ?c \<noteq> ?h" using assms(1) by (simp add: mb_invar_def)
    then show ?thesis using assms(3) by auto
  qed
  have "mb_contents m' = map (\<lambda>k. mb_slots m ! ((?h + Suc k) mod ?c)) [0..<n]"
    using slot by (simp add: mb_contents_def assms(4,5) n cap mod_simps)
  moreover have "mb_contents m = mb_slots m ! (?h mod ?c) #
      map (\<lambda>k. mb_slots m ! ((?h + Suc k) mod ?c)) [0..<n]"
    by (simp add: mb_contents_def n upt_conv_Cons map_Suc_upt [symmetric] del: upt_Suc)
  ultimately show ?thesis using assms(1) by (simp add: mb_invar_def)
qed

lemma mailbox_pop_contents:
  assumes "mb_invar m"
  shows "mailbox_pop blank m =
      (if mb_contents m = [] then (None, m) else (Some (hd (mb_contents m)), snd (mailbox_pop blank m)))"
    and "mb_contents (snd (mailbox_pop blank m)) = tl (mb_contents m)"
proof -
  have empty: "mb_contents m = [] \<longleftrightarrow> mb_size m = 0"
    by (metis length_0_conv length_mb_contents)
  have "mb_contents m = mb_slots m ! mb_head m # mb_contents (snd (mailbox_pop blank m))"
    if "0 < mb_size m"
    by (rule mb_contents_drop_head [OF assms that, of _ blank]) (use that in \<open>auto simp: mailbox_pop_def\<close>)
  then show "mailbox_pop blank m =
      (if mb_contents m = [] then (None, m) else (Some (hd (mb_contents m)), snd (mailbox_pop blank m)))"
    and "mb_contents (snd (mailbox_pop blank m)) = tl (mb_contents m)"
    using empty by (auto simp: mailbox_pop_def)
qed

text \<open>Every branch of \<open>push\<close>: refused, evicting the oldest, or simply appended.\<close>

lemma mailbox_push_contents:
  assumes "mb_invar m"
  shows "fst (mailbox_push v m) = (mb_size m < mb_capacity m \<or> mb_policy m = OverflowPolicy_drop_oldest)"
    and "mb_contents (snd (mailbox_push v m)) =
      (if mb_size m < mb_capacity m then mb_contents m @ [v]
       else if mb_policy m = OverflowPolicy_reject_newest then mb_contents m
       else tl (mb_contents m) @ [v])"
    and "mb_dropped (snd (mailbox_push v m)) =
      mb_dropped m + (if mb_size m < mb_capacity m then 0 else 1)"
proof -
  have full: "mb_size m < mb_capacity m \<longleftrightarrow> mb_size m \<noteq> mb_capacity m"
    using assms by (auto simp: mb_invar_def)
  show "fst (mailbox_push v m) = (mb_size m < mb_capacity m \<or> mb_policy m = OverflowPolicy_drop_oldest)"
    using full by (cases "mb_policy m") (auto simp: mailbox_push_def)
  show "mb_dropped (snd (mailbox_push v m)) =
      mb_dropped m + (if mb_size m < mb_capacity m then 0 else 1)"
    using full by (auto simp: mailbox_push_def mailbox_store_def Let_def)
  let ?e = "m\<lparr>mb_head := (mb_head m + 1) mod mb_capacity m, mb_size := mb_size m - 1,
      mb_dropped := mb_dropped m + 1\<rparr>"
  show "mb_contents (snd (mailbox_push v m)) =
      (if mb_size m < mb_capacity m then mb_contents m @ [v]
       else if mb_policy m = OverflowPolicy_reject_newest then mb_contents m
       else tl (mb_contents m) @ [v])"
  proof (cases "mb_size m < mb_capacity m")
    case True
    with assms full show ?thesis by (simp add: mailbox_push_def mb_contents_store)
  next
    case False
    have pos: "0 < mb_size m" using False assms by (auto simp: mb_invar_def)
    have "mb_contents m = mb_slots m ! mb_head m # mb_contents ?e"
      by (rule mb_contents_drop_head [OF assms pos]) auto
    moreover have "mb_contents (mailbox_store v ?e) = mb_contents ?e @ [v]"
      by (rule mb_contents_store) (use assms pos in \<open>auto simp: mb_invar_def\<close>)
    moreover have "mb_contents (m\<lparr>mb_dropped := d\<rparr>) = mb_contents m" for d
      by (simp add: mb_contents_def)
    ultimately show ?thesis using False full by (simp add: mailbox_push_def)
  qed
qed

lemma mb_invar_push [invariant_rules]: "mb_invar m \<Longrightarrow> mb_invar (snd (mailbox_push v m))"
  by (auto simp: mb_invar_def mailbox_push_def mailbox_store_def Let_def max_def)

lemma mb_invar_pop [invariant_rules]: "mb_invar m \<Longrightarrow> mb_invar (snd (mailbox_pop blank m))"
  by (auto simp: mb_invar_def mailbox_pop_def)

lemma mb_capacity_push [frame_rules]: "mb_capacity (snd (mailbox_push v m)) = mb_capacity m"
  by (simp add: mailbox_push_def mailbox_store_def Let_def)

interpretation mailbox_queue:
  bounded_queue mailbox_push "mailbox_pop blank" mb_contents mb_room mb_invar
  for blank
proof unfold_locales
  fix q :: "'a mailbox" and x y and ys :: "'a list"
  assume inv: "mb_invar q"
  show "mb_invar (snd (mailbox_push x q))" by (rule mb_invar_push [OF inv])
  show "mb_invar (snd (mailbox_pop blank q))" by (rule mb_invar_pop [OF inv])
  show "fst (mailbox_push x q) \<and> mb_contents (snd (mailbox_push x q)) = mb_contents q @ [x] \<and>
      mb_room (snd (mailbox_push x q)) = mb_room q - 1" if "0 < mb_room q"
  proof -
    have lt: "mb_size q < mb_capacity q" using that by (simp add: mb_room_def)
    then have "mb_room (snd (mailbox_push x q)) = mb_room q - 1"
      by (simp add: mb_room_def mailbox_push_def mailbox_store_def Let_def)
    with lt mailbox_push_contents [OF inv] show ?thesis by simp
  qed
  show "mailbox_pop blank q = (None, q)" if "mb_contents q = []"
    using mailbox_pop_contents(1) [OF inv, of blank] that by simp
  show "fst (mailbox_pop blank q) = Some y \<and> mb_contents (snd (mailbox_pop blank q)) = ys"
    if "mb_contents q = y # ys"
    using mailbox_pop_contents [OF inv, of blank] that by (metis fst_conv list.distinct(1) list.sel(1,3))
qed

lemma mailbox_clear_empty: "mb_size (mailbox_clear blank m) = 0"
proof (induction blank m rule: mailbox_clear.induct)
  case (1 blank m)
  then show ?case by (simp add: mailbox_clear.simps [of blank m])
qed

section \<open>Nothing is lost uncounted\<close>

datatype 'a mailbox_op = Mailbox_push 'a | Mailbox_pop

text \<open>A run, with how many values were posted and how many were taken out.\<close>

fun mailbox_run :: "'a \<Rightarrow> 'a mailbox_op list \<Rightarrow> nat \<times> nat \<times> 'a mailbox \<Rightarrow> nat \<times> nat \<times> 'a mailbox" where
  "mailbox_run blank [] s = s"
| "mailbox_run blank (Mailbox_push v # ops) (posted, taken, m) =
    mailbox_run blank ops (posted + 1, taken, snd (mailbox_push v m))"
| "mailbox_run blank (Mailbox_pop # ops) (posted, taken, m) =
    (case mailbox_pop blank m of
       (None, m') \<Rightarrow> mailbox_run blank ops (posted, taken, m')
     | (Some x, m') \<Rightarrow> mailbox_run blank ops (posted, taken + 1, m'))"

definition mb_balance :: "nat \<times> nat \<times> 'a mailbox \<Rightarrow> bool" where
  "mb_balance s \<longleftrightarrow> (case s of (posted, taken, m) \<Rightarrow>
    mb_invar m \<and> posted = taken + mb_size m + mb_dropped m)"

lemma mb_balance_push: "mb_balance (posted, taken, m) \<Longrightarrow> mb_balance (posted + 1, taken, snd (mailbox_push v m))"
  using mailbox_push_contents(3) [of m v] mb_invar_push [of m v]
  by (auto simp: mb_balance_def mailbox_push_def mailbox_store_def Let_def mb_invar_def)

lemma mailbox_run_balance: "mb_balance s \<Longrightarrow> mb_balance (mailbox_run blank ops s)"
proof (induction blank ops s rule: mailbox_run.induct)
  case (2 blank v ops posted taken m)
  then show ?case using mb_balance_push [OF 2(2), of v] by simp
next
  case (3 blank ops posted taken m)
  show ?case
  proof (cases "mb_size m = 0")
    case True
    with 3 show ?thesis by (simp add: mailbox_pop_def)
  next
    case False
    have inv: "mb_invar (snd (mailbox_pop blank m))"
      using 3(3) by (simp add: mb_balance_def mb_invar_pop)
    show ?thesis
      using 3 False inv by (auto simp: mailbox_pop_def mb_balance_def)
  qed
qed simp

section \<open>Refinement of a bounded queue\<close>

text \<open>What a mailbox promises, over plain lists: the waiting values, the number dropped, and what the
  overflow policy gives up.\<close>

fun queue_step :: "nat \<Rightarrow> OverflowPolicy \<Rightarrow> 'a mailbox_op \<Rightarrow> 'a list \<times> nat \<Rightarrow> 'a option \<times> 'a list \<times> nat" where
  "queue_step capacity policy (Mailbox_push v) (xs, dropped) =
    (None, if length xs < capacity then (xs @ [v], dropped)
           else if policy = OverflowPolicy_reject_newest then (xs, dropped + 1)
           else (tl xs @ [v], dropped + 1))"
| "queue_step capacity policy Mailbox_pop (xs, dropped) =
    (if xs = [] then (None, [], dropped) else (Some (hd xs), tl xs, dropped))"

fun queue_outputs :: "nat \<Rightarrow> OverflowPolicy \<Rightarrow> 'a mailbox_op list \<Rightarrow> 'a list \<times> nat \<Rightarrow> 'a option list \<times> 'a list \<times> nat"
where
  "queue_outputs capacity policy [] s = ([], s)"
| "queue_outputs capacity policy (op # ops) s =
    (let (out, s) = queue_step capacity policy op s;
         (outs, s) = queue_outputs capacity policy ops s
     in (out # outs, s))"

fun mailbox_step :: "'a \<Rightarrow> 'a mailbox_op \<Rightarrow> 'a mailbox \<Rightarrow> 'a option \<times> 'a mailbox" where
  "mailbox_step blank (Mailbox_push v) m = (None, snd (mailbox_push v m))"
| "mailbox_step blank Mailbox_pop m = mailbox_pop blank m"

fun mailbox_outputs :: "'a \<Rightarrow> 'a mailbox_op list \<Rightarrow> 'a mailbox \<Rightarrow> 'a option list \<times> 'a mailbox" where
  "mailbox_outputs blank [] m = ([], m)"
| "mailbox_outputs blank (op # ops) m =
    (let (out, m) = mailbox_step blank op m;
         (outs, m) = mailbox_outputs blank ops m
     in (out # outs, m))"

definition mb_view :: "'a mailbox \<Rightarrow> 'a list \<times> nat" where
  "mb_view m = (mb_contents m, mb_dropped m)"

lemma mb_static_store [simp]:
  "mb_capacity (mailbox_store v m) = mb_capacity m" "mb_policy (mailbox_store v m) = mb_policy m"
  by (simp_all add: mailbox_store_def Let_def)

lemma mailbox_step_static:
  "mb_capacity (snd (mailbox_step blank op m)) = mb_capacity m"
  "mb_policy (snd (mailbox_step blank op m)) = mb_policy m"
  by (cases op; simp add: mailbox_push_def mailbox_pop_def)+

lemma mailbox_step_queue:
  assumes "mb_invar m"
  shows "queue_step (mb_capacity m) (mb_policy m) op (mb_view m) =
      (fst (mailbox_step blank op m), mb_view (snd (mailbox_step blank op m)))"
    and "mb_invar (snd (mailbox_step blank op m))"
proof -
  have dropped: "mb_dropped (snd (mailbox_pop blank m)) = mb_dropped m" by (simp add: mailbox_pop_def)
  have none: "mb_contents m = [] \<Longrightarrow> mailbox_pop blank m = (None, m)"
    and some: "mb_contents m \<noteq> [] \<Longrightarrow> fst (mailbox_pop blank m) = Some (hd (mb_contents m))"
    using mailbox_pop_contents(1) [OF assms, of blank] by (auto split: if_splits dest: arg_cong [of _ _ fst])
  show "queue_step (mb_capacity m) (mb_policy m) op (mb_view m) =
      (fst (mailbox_step blank op m), mb_view (snd (mailbox_step blank op m)))"
  proof (cases op)
    case (Mailbox_push v)
    then show ?thesis using mailbox_push_contents(2,3) [OF assms, of v] by (simp add: mb_view_def)
  next
    case Mailbox_pop
    then show ?thesis
      using mailbox_pop_contents(2) [OF assms, of blank] dropped none some
      by (cases "mb_contents m = []") (simp_all add: mb_view_def)
  qed
  show "mb_invar (snd (mailbox_step blank op m))"
    using assms by (cases op) (simp_all add: mb_invar_push mb_invar_pop)
qed

lemma mailbox_outputs_queue:
  "mb_invar m \<Longrightarrow> queue_outputs (mb_capacity m) (mb_policy m) ops (mb_view m) =
     (fst (mailbox_outputs blank ops m), mb_view (snd (mailbox_outputs blank ops m)))"
proof (induction ops arbitrary: m)
  case (Cons op ops)
  show ?case
    using mailbox_step_queue [OF Cons.prems, where op = op and blank = blank] mailbox_step_static [of blank op m]
      Cons.IH [of "snd (mailbox_step blank op m)"]
    by (simp add: split_beta Let_def)
qed simp

section \<open>Properties\<close>

text \<open>C31: a ring of slots refines the bounded queue: every sequence of posts and takes on a new
  mailbox takes the values of the list queue, in its order, and drops as many, under either policy.\<close>
theorem mailbox_refines_queue:
  assumes "0 < capacity"
  shows "queue_outputs capacity policy ops ([], 0) =
    (fst (mailbox_outputs blank ops (mailbox_new blank capacity policy)),
     mb_view (snd (mailbox_outputs blank ops (mailbox_new blank capacity policy))))"
  using mailbox_outputs_queue [OF mb_invar_new [OF assms], of blank policy ops blank]
  by (simp add: mb_view_def mailbox_new_def mb_contents_def)

lemma mailbox_refines_queue_witness:
  "fst (mailbox_outputs 0 [Mailbox_push 1, Mailbox_push 2, Mailbox_push (3 :: nat), Mailbox_pop]
     (mailbox_new 0 2 OverflowPolicy_drop_oldest)) = [None, None, None, Some 2]"
  using mailbox_refines_queue [of 2 OverflowPolicy_drop_oldest
    "[Mailbox_push 1, Mailbox_push 2, Mailbox_push (3 :: nat), Mailbox_pop]" 0]
  by simp

end
