(* ===== verification/Buffer_Pool.thy ===== *)
theory Buffer_Pool
  imports Prelude "HOL-Library.Multiset"
begin

text \<open>
  \<open>stackchan_runtime/buffer_pool.hpp\<close>: fixed blocks lent out through move-only leases. The bytes
  of the blocks are not modelled, only who holds which block; the leases alive in the program
  are a list, and a run is a sequence of the operations the class allows on them.
\<close>

section \<open>The pool and its leases\<close>

record buffer_pool =
  taken :: "bool list"
  in_use :: nat
  high_water :: nat
  exhausted :: nat

record lease =
  lease_index :: nat
  lease_valid :: bool

definition pool_new :: "nat \<Rightarrow> buffer_pool" where
  "pool_new block_count =
    \<lparr>taken = replicate block_count False, in_use = 0, high_water = 0, exhausted = 0\<rparr>"

definition lease_none :: lease where
  "lease_none = \<lparr>lease_index = 0, lease_valid = False\<rparr>"

text \<open>The scan of \<open>acquire\<close>: the first block at or after \<open>i\<close> that is not taken.\<close>

fun first_free :: "bool list \<Rightarrow> nat \<Rightarrow> nat option" where
  "first_free [] i = None"
| "first_free (b # bs) i = (if \<not> b then Some i else first_free bs (Suc i))"

definition acquire :: "buffer_pool \<Rightarrow> lease \<times> buffer_pool" where
  "acquire p =
    (case first_free (taken p) 0 of
       Some i \<Rightarrow>
         (\<lparr>lease_index = i, lease_valid = True\<rparr>,
          p\<lparr>taken := (taken p)[i := True], in_use := in_use p + 1,
            high_water := max (in_use p + 1) (high_water p)\<rparr>)
     | None \<Rightarrow> (lease_none, p\<lparr>exhausted := exhausted p + 1\<rparr>))"

definition give_back :: "nat \<Rightarrow> buffer_pool \<Rightarrow> buffer_pool" where
  "give_back index p = p\<lparr>taken := (taken p)[index := False], in_use := in_use p - 1\<rparr>"

definition lease_release :: "lease \<Rightarrow> buffer_pool \<Rightarrow> lease \<times> buffer_pool" where
  "lease_release l p =
    (if lease_valid l then (l\<lparr>lease_valid := False\<rparr>, give_back (lease_index l) p) else (l, p))"

text \<open>\<open>Lease(Lease&&)\<close>: the new lease and what is left of the old one.\<close>

definition lease_move :: "lease \<Rightarrow> lease \<times> lease" where
  "lease_move other = (other, other\<lparr>lease_valid := False\<rparr>)"

text \<open>\<open>operator=(Lease&&)\<close> between two different leases: release, then take over.\<close>

definition lease_assign :: "lease \<Rightarrow> lease \<Rightarrow> buffer_pool \<Rightarrow> lease \<times> lease \<times> buffer_pool" where
  "lease_assign this other p =
    (let (this', p') = lease_release this p
     in (other, other\<lparr>lease_valid := False\<rparr>, p'))"

section \<open>A program that holds leases\<close>

datatype pool_op =
    Pool_acquire
  | Pool_release nat
  | Pool_move nat
  | Pool_assign nat nat
  | Pool_destroy nat

text \<open>
  The operations on the lease objects alive; an operation on an object that does not exist
  changes nothing. Assigning a lease to itself is the code's early return.
\<close>

fun pool_step :: "pool_op \<Rightarrow> lease list \<times> buffer_pool \<Rightarrow> lease list \<times> buffer_pool" where
  "pool_step Pool_acquire (ls, p) = (let (l, p') = acquire p in (ls @ [l], p'))"
| "pool_step (Pool_release i) (ls, p) =
    (if i < length ls then let (l, p') = lease_release (ls ! i) p in (ls[i := l], p') else (ls, p))"
| "pool_step (Pool_move i) (ls, p) =
    (if i < length ls then let (new, old) = lease_move (ls ! i) in (ls[i := old] @ [new], p)
     else (ls, p))"
| "pool_step (Pool_assign i j) (ls, p) =
    (if i < length ls \<and> j < length ls \<and> i \<noteq> j
     then let (this, other, p') = lease_assign (ls ! i) (ls ! j) p
          in (ls[i := this, j := other], p')
     else (ls, p))"
| "pool_step (Pool_destroy i) (ls, p) =
    (if i < length ls
     then let (l, p') = lease_release (ls ! i) p in (take i ls @ drop (Suc i) ls, p')
     else (ls, p))"

fun pool_run :: "pool_op list \<Rightarrow> lease list \<times> buffer_pool \<Rightarrow> lease list \<times> buffer_pool" where
  "pool_run [] s = s"
| "pool_run (op # ops) s = pool_run ops (pool_step op s)"

section \<open>Every block has at most one holder\<close>

text \<open>The blocks held, by position: one entry per valid lease.\<close>

definition held :: "lease list \<Rightarrow> nat list" where
  "held ls = map lease_index (filter lease_valid ls)"

definition pool_invar :: "lease list \<times> buffer_pool \<Rightarrow> bool" where
  "pool_invar s \<longleftrightarrow> (case s of (ls, p) \<Rightarrow>
     distinct (held ls) \<and>
     set (held ls) = {i. i < length (taken p) \<and> taken p ! i} \<and>
     in_use p = length (held ls) \<and>
     in_use p \<le> high_water p \<and> high_water p \<le> length (taken p))"

lemma held_append [simp]: "held (ls @ ms) = held ls @ held ms"
  by (simp add: held_def)

lemma held_Nil [simp]: "held [] = []"
  by (simp add: held_def)

lemma held_one: "held [l] = (if lease_valid l then [lease_index l] else [])"
  by (simp add: held_def)

lemma held_split: "i < length ls \<Longrightarrow> held ls = held (take i ls) @ held [ls ! i] @ held (drop (Suc i) ls)"
  using id_take_nth_drop [of i ls] held_append by (metis append_Cons append_Nil)

lemma held_update:
  "i < length ls \<Longrightarrow> held (ls[i := l]) = held (take i ls) @ held [l] @ held (drop (Suc i) ls)"
  using upd_conv_take_nth_drop [of i ls l] held_append by (metis append_Cons append_Nil)

lemma first_free_Some:
  "first_free bs k = Some i \<Longrightarrow> k \<le> i \<and> i - k < length bs \<and> \<not> bs ! (i - k)"
proof (induction bs k rule: first_free.induct)
  case (2 b bs k)
  then show ?case by (cases b) (auto simp: nth_Cons' Suc_diff_Suc dest: Suc_le_lessD)
qed simp

lemma first_free_None: "first_free bs k = None \<longleftrightarrow> (\<forall>b \<in> set bs. b)"
  by (induction bs k rule: first_free.induct) auto

lemma pool_invar_new: "pool_invar ([], pool_new n)"
  by (auto simp: pool_invar_def pool_new_def)

lemma pool_invar_bound: "pool_invar (ls, p) \<Longrightarrow> in_use p \<le> length (taken p)"
  by (simp add: pool_invar_def)

text \<open>A lease list whose valid entries are the same blocks, in any order, is as good.\<close>

lemma pool_invar_mset:
  assumes "pool_invar (ls, p)" and "mset (held ls') = mset (held ls)"
  shows "pool_invar (ls', p)"
  using assms mset_eq_setD [OF assms(2)] mset_eq_imp_distinct_iff [OF assms(2)]
    mset_eq_length [OF assms(2)]
  by (simp add: pool_invar_def)

lemma pool_invar_acquire [invariant_rules]:
  assumes "pool_invar (ls, p)"
  shows "pool_invar (ls @ [fst (acquire p)], snd (acquire p))"
proof (cases "first_free (taken p) 0")
  case None
  then show ?thesis
    using assms by (simp add: acquire_def pool_invar_def held_one lease_none_def)
next
  case (Some i)
  then have i: "i < length (taken p)" "\<not> taken p ! i" using first_free_Some [OF Some] by auto
  then have new: "i \<notin> set (held ls)" using assms by (auto simp: pool_invar_def)
  have "set (held ls) \<subseteq> {..<length (taken p)} - {i}" using assms new by (auto simp: pool_invar_def)
  then have "card (set (held ls)) \<le> length (taken p) - 1"
    using card_mono [of "{..<length (taken p)} - {i}" "set (held ls)"] i by simp
  moreover have "card (set (held ls)) = in_use p"
    using assms distinct_card [of "held ls"] by (auto simp: pool_invar_def)
  ultimately have "in_use p + 1 \<le> length (taken p)" using i by linarith
  moreover have "{k. k < length (taken p) \<and> (taken p)[i := True] ! k} =
      insert i {k. k < length (taken p) \<and> taken p ! k}"
    using i by (auto simp: nth_list_update split: if_splits)
  ultimately show ?thesis
    using assms new Some by (simp add: acquire_def pool_invar_def held_one)
qed

text \<open>Giving a valid lease's block back, whatever the list says of that lease afterwards.\<close>

lemma pool_invar_give_back:
  assumes "pool_invar (ls, p)" and "i < length ls" and "lease_valid (ls ! i)"
    and "held ls' = held (take i ls) @ held (drop (Suc i) ls)"
  shows "pool_invar (ls', give_back (lease_index (ls ! i)) p)"
proof -
  let ?b = "lease_index (ls ! i)"
  have h: "held ls = held (take i ls) @ ?b # held (drop (Suc i) ls)"
    using held_split [OF assms(2)] assms(3) by (simp add: held_one)
  have b: "?b < length (taken p)" using assms(1) h by (auto simp: pool_invar_def)
  have "{k. k < length (taken p) \<and> (taken p)[?b := False] ! k} =
      {k. k < length (taken p) \<and> taken p ! k} - {?b}"
    using b by (auto simp: nth_list_update split: if_splits)
  moreover have "set (held ls) - {?b} = set (held ls')"
    using assms(1,4) h by (auto simp: pool_invar_def)
  ultimately show ?thesis
    using assms(1,4) h by (auto simp: pool_invar_def give_back_def)
qed

lemma pool_invar_release [invariant_rules]:
  assumes "pool_invar (ls, p)" and "i < length ls"
  shows "pool_invar (ls[i := fst (lease_release (ls ! i) p)], snd (lease_release (ls ! i) p))"
proof (cases "lease_valid (ls ! i)")
  case True
  with assms show ?thesis
    by (simp add: lease_release_def pool_invar_give_back held_update held_one)
next
  case False
  with assms show ?thesis by (simp add: lease_release_def)
qed

lemma pool_invar_move:
  assumes "pool_invar (ls, p)" and "i < length ls"
  shows "pool_invar (ls[i := snd (lease_move (ls ! i))] @ [fst (lease_move (ls ! i))], p)"
  by (rule pool_invar_mset [OF assms(1)])
    (use assms(2) in \<open>simp add: lease_move_def held_update held_one held_split [OF assms(2)]\<close>)

text \<open>Assignment between two leases is a release followed by an exchange of the two objects.\<close>

lemma pool_invar_exchange:
  assumes "pool_invar (ls, p)" and "i < length ls" and "j < length ls" and "i \<noteq> j"
    and "\<not> lease_valid (ls ! i)"
  shows "pool_invar (ls[i := ls ! j, j := (ls ! j)\<lparr>lease_valid := False\<rparr>], p)"
proof (rule pool_invar_mset [OF assms(1)])
  let ?dead = "(ls ! j)\<lparr>lease_valid := False\<rparr>"
  have dead: "mset (held (xs[k := l])) + mset (held [xs ! k]) = mset (held xs) + mset (held [l])"
    if "k < length xs" for xs :: "lease list" and k l
    using held_split [OF that] held_update [OF that, of l] by simp
  have "mset (held (ls[i := ls ! j])) = mset (held ls) + mset (held [ls ! j])"
    using dead [OF assms(2), of "ls ! j"] assms(5) by (simp add: held_one)
  moreover have "mset (held (ls[i := ls ! j, j := ?dead])) + mset (held [ls ! j]) =
      mset (held (ls[i := ls ! j]))"
    using dead [of j "ls[i := ls ! j]" ?dead] assms(3,4) by (simp add: held_one)
  ultimately show "mset (held (ls[i := ls ! j, j := ?dead])) = mset (held ls)" by simp
qed

lemma pool_invar_step: "pool_invar s \<Longrightarrow> pool_invar (pool_step op s)"
proof -
  assume inv: "pool_invar s"
  obtain ls p where s: "s = (ls, p)" by (cases s)
  show ?thesis
  proof (cases op)
    case Pool_acquire
    then show ?thesis using inv s pool_invar_acquire by (simp add: split_beta)
  next
    case (Pool_release i)
    then show ?thesis using inv s pool_invar_release by (simp add: split_beta)
  next
    case (Pool_move i)
    then show ?thesis using inv s pool_invar_move by (simp add: split_beta)
  next
    case (Pool_assign i j)
    show ?thesis
    proof (cases "i < length ls \<and> j < length ls \<and> i \<noteq> j")
      case True
      let ?r = "lease_release (ls ! i) p"
      have "pool_invar (ls[i := fst ?r], snd ?r)" using inv s True pool_invar_release by simp
      moreover have "\<not> lease_valid (ls[i := fst ?r] ! i)"
        using True by (simp add: lease_release_def)
      ultimately have "pool_invar (ls[i := fst ?r, i := ls ! j,
          j := (ls ! j)\<lparr>lease_valid := False\<rparr>], snd ?r)"
        using pool_invar_exchange [of "ls[i := fst ?r]" "snd ?r" i j] True by simp
      then show ?thesis
        using True Pool_assign s by (simp add: lease_assign_def split_beta)
    qed (use Pool_assign inv s in auto)
  next
    case (Pool_destroy i)
    show ?thesis
    proof (cases "i < length ls \<and> lease_valid (ls ! i)")
      case True
      then have "pool_invar (take i ls @ drop (Suc i) ls, give_back (lease_index (ls ! i)) p)"
        using inv s by (intro pool_invar_give_back) auto
      with True Pool_destroy s show ?thesis by (simp add: lease_release_def)
    next
      case False
      then have "pool_invar (take i ls @ drop (Suc i) ls, p)" if "i < length ls"
        using inv s that held_split [OF that] by (simp add: pool_invar_def held_one)
      with False Pool_destroy s inv show ?thesis by (auto simp: lease_release_def)
    qed
  qed
qed

lemma pool_invar_run: "pool_invar s \<Longrightarrow> pool_invar (pool_run ops s)"
  by (induction ops s rule: pool_run.induct) (auto intro: pool_invar_step)

section \<open>Properties\<close>

text \<open>C32: through any acquiring, releasing, moving, assigning and destroying of leases, no two hold
  the same block, the blocks marked taken are exactly the held ones, and the count is theirs.\<close>
theorem pool_never_shares:
  "case pool_run ops ([], pool_new blocks) of (leases, pool) \<Rightarrow>
    distinct (held leases) \<and> set (held leases) = {i. i < length (taken pool) \<and> taken pool ! i} \<and>
    in_use pool = length (held leases) \<and> in_use pool \<le> length (taken pool)"
  using pool_invar_run [OF pool_invar_new, of ops blocks]
  by (cases "pool_run ops ([], pool_new blocks)") (simp add: pool_invar_def)

end
