(* ===== verification/Event_Bus.thy ===== *)
theory Event_Bus
  imports Prelude
begin

text \<open>
  \<open>stackchan_runtime/event_bus.hpp\<close>: synchronous delivery in registration order. A handler is a
  plain function pointer, so a subscription holds its name (\<open>None\<close> is the null pointer) and
  what the functions do is the parameter \<open>call\<close>, which may change the bus it is called from.
\<close>

type_synonym handler = nat

record 'c subscription =
  sub_handler :: handler
  sub_context :: 'c

text \<open>\<open>subscriptions_[0..<count_]\<close> is the list; the array holds \<open>kMaxSubscribers\<close>.\<close>

record 'c event_bus =
  subscriptions :: "'c subscription list"
  published :: nat

definition kMaxSubscribers :: nat where
  "kMaxSubscribers = 8"

definition event_bus_new :: "'c event_bus" where
  "event_bus_new = \<lparr>subscriptions = [], published = 0\<rparr>"

definition subscribe :: "handler option \<Rightarrow> 'c \<Rightarrow> 'c event_bus \<Rightarrow> bool \<times> 'c event_bus" where
  "subscribe handler context bus =
    (case handler of
       None \<Rightarrow> (False, bus)
     | Some h \<Rightarrow>
         (if length (subscriptions bus) = kMaxSubscribers then (False, bus)
          else (True, bus\<lparr>subscriptions :=
                  subscriptions bus @ [\<lparr>sub_handler = h, sub_context = context\<rparr>]\<rparr>)))"

text \<open>
  The delivery loop: indices below the count taken on entry, reading the entry from the bus as
  it is at that moment.
\<close>

fun deliver ::
  "(handler \<Rightarrow> 'c \<Rightarrow> 'e \<Rightarrow> 'c event_bus \<times> 'w \<Rightarrow> 'c event_bus \<times> 'w) \<Rightarrow> 'e \<Rightarrow> nat \<Rightarrow> nat \<Rightarrow>
   'c event_bus \<times> 'w \<Rightarrow> 'c event_bus \<times> 'w" where
  "deliver call event i 0 s = s"
| "deliver call event i (Suc left) s =
    (let sub = subscriptions (fst s) ! i
     in deliver call event (Suc i) left (call (sub_handler sub) (sub_context sub) event s))"

definition publish ::
  "(handler \<Rightarrow> 'c \<Rightarrow> 'e \<Rightarrow> 'c event_bus \<times> 'w \<Rightarrow> 'c event_bus \<times> 'w) \<Rightarrow> 'e \<Rightarrow>
   'c event_bus \<times> 'w \<Rightarrow> 'c event_bus \<times> 'w" where
  "publish call event s =
    (let bus = (fst s)\<lparr>published := published (fst s) + 1\<rparr>
     in deliver call event 0 (length (subscriptions bus)) (bus, snd s))"

section \<open>Who is called, and in which order\<close>

text \<open>
  What a handler may do to the bus it is called from: subscribe more handlers, never remove or
  replace one. It is what the public interface of the class allows.
\<close>

definition only_subscribes ::
  "(handler \<Rightarrow> 'c \<Rightarrow> 'e \<Rightarrow> 'c event_bus \<times> 'w \<Rightarrow> 'c event_bus \<times> 'w) \<Rightarrow> bool" where
  "only_subscribes call \<longleftrightarrow>
    (\<forall>h c e s. \<exists>more. subscriptions (fst (call h c e s)) = subscriptions (fst s) @ more)"

text \<open>A handler wrapped so that it also writes down that it was called.\<close>

definition logged ::
  "(handler \<Rightarrow> 'c \<Rightarrow> 'e \<Rightarrow> 'c event_bus \<times> 'w \<Rightarrow> 'c event_bus \<times> 'w) \<Rightarrow>
   handler \<Rightarrow> 'c \<Rightarrow> 'e \<Rightarrow> 'c event_bus \<times> 'w \<times> (handler \<times> 'c \<times> 'e) list \<Rightarrow>
   'c event_bus \<times> 'w \<times> (handler \<times> 'c \<times> 'e) list" where
  "logged call h c e s =
    (let (bus, w, calls) = s; (bus', w') = call h c e (bus, w)
     in (bus', w', calls @ [(h, c, e)]))"

lemma deliver_logged:
  assumes "only_subscribes call" and "i + left \<le> length (subscriptions bus)"
  shows "snd (snd (deliver (logged call) event i left (bus, w, calls))) =
    calls @ map (\<lambda>s. (sub_handler s, sub_context s, event)) (take left (drop i (subscriptions bus)))"
  using assms(2)
proof (induction left arbitrary: i bus w calls)
  case 0
  then show ?case by simp
next
  case (Suc left)
  let ?sub = "subscriptions bus ! i"
  obtain bus' w' where c: "call (sub_handler ?sub) (sub_context ?sub) event (bus, w) = (bus', w')"
    by (cases "call (sub_handler ?sub) (sub_context ?sub) event (bus, w)")
  obtain more where more: "subscriptions bus' = subscriptions bus @ more"
    using assms(1) c unfolding only_subscribes_def by (metis fst_conv)
  have fits: "Suc i + left \<le> length (subscriptions bus')" using Suc.prems more by simp
  have "take (Suc left) (drop i (subscriptions bus)) =
      ?sub # take left (drop (Suc i) (subscriptions bus))"
    using Suc.prems by (simp add: Cons_nth_drop_Suc [symmetric])
  moreover have "take left (drop (Suc i) (subscriptions bus')) =
      take left (drop (Suc i) (subscriptions bus))"
    using Suc.prems more by simp
  moreover have "logged call (sub_handler ?sub) (sub_context ?sub) event (bus, w, calls) =
      (bus', w', calls @ [(sub_handler ?sub, sub_context ?sub, event)])"
    by (simp add: logged_def c)
  ultimately show ?case
    using Suc.IH [OF fits] by (simp add: Let_def)
qed

lemma publish_calls:
  assumes "only_subscribes call"
  shows "snd (snd (publish (logged call) event (bus, w, calls))) =
    calls @ map (\<lambda>s. (sub_handler s, sub_context s, event)) (subscriptions bus)"
  using deliver_logged [OF assms, of 0 "length (subscriptions bus)" "bus\<lparr>published := published bus + 1\<rparr>"]
  by (simp add: publish_def)

lemma subscribe_bounded:
  "length (subscriptions bus) \<le> kMaxSubscribers \<Longrightarrow>
   length (subscriptions (snd (subscribe handler context bus))) \<le> kMaxSubscribers"
  by (auto simp: subscribe_def split: option.splits)

end
