(* ===== verification/Receive_Exact.thy ===== *)
theory Receive_Exact
  imports Prelude
begin

text \<open>
  \<open>stackchan_runtime/receive_exact.hpp\<close>: fill a destination from a transport that may return
  less than asked. The transport is the parameter \<open>receive\<close>: from its state and the room left
  it yields its return value, the bytes it wrote at the pointer it was given and its next state.
\<close>

datatype ReceiveExactResult =
    ReceiveExactResult_complete
  | ReceiveExactResult_incomplete
  | ReceiveExactResult_error

type_synonym 's transport = "'s \<Rightarrow> nat \<Rightarrow> int \<times> string \<times> 's"

text \<open>The destination after \<open>bytes\<close> were written at offset \<open>at\<close>.\<close>

definition written_at :: "string \<Rightarrow> nat \<Rightarrow> string \<Rightarrow> string" where
  "written_at dest at bytes = take at dest @ bytes @ drop (at + length bytes) dest"

text \<open>
  The loop. A chunk counts only after it was found to be positive and within the room asked
  for, so every round comes closer to \<open>expected\<close>.
\<close>

function receive_loop ::
  "'s transport \<Rightarrow> nat \<Rightarrow> nat \<Rightarrow> string \<Rightarrow> 's \<Rightarrow> ReceiveExactResult \<times> string \<times> 's" where
  "receive_loop receive expected received dest s =
    (if received < expected then
       (let (chunk, bytes, s') = receive s (expected - received);
            dest' = written_at dest received bytes
        in if chunk < 0 then (ReceiveExactResult_error, dest', s')
           else if chunk = 0 then (ReceiveExactResult_incomplete, dest', s')
           else if nat chunk > expected - received then (ReceiveExactResult_error, dest', s')
           else receive_loop receive expected (received + nat chunk) dest' s')
     else (ReceiveExactResult_complete, dest, s))"
  by pat_completeness auto
termination
  by (relation "measure (\<lambda>(receive, expected, received, dest, s). expected - received)") auto

declare receive_loop.simps [simp del]

text \<open>\<open>None\<close> is the null destination.\<close>

definition receive_exact ::
  "'s transport \<Rightarrow> string option \<Rightarrow> nat \<Rightarrow> 's \<Rightarrow> ReceiveExactResult \<times> string option \<times> 's" where
  "receive_exact receive destination expected s =
    (case destination of
       None \<Rightarrow> (if expected \<noteq> 0 then (ReceiveExactResult_error, None, s)
                else (ReceiveExactResult_complete, None, s))
     | Some dest \<Rightarrow>
         (let (result, dest', s') = receive_loop receive expected 0 dest s
          in (result, Some dest', s')))"

section \<open>What arrives\<close>

text \<open>
  The contract of a receive call: at most the room it was given is written, and a positive
  return value within that room is the number of bytes written.
\<close>

definition honest :: "'s transport \<Rightarrow> bool" where
  "honest receive \<longleftrightarrow>
    (\<forall>s n. case receive s n of (chunk, bytes, s') \<Rightarrow>
       length bytes \<le> n \<and> (0 < chunk \<and> nat chunk \<le> n \<longrightarrow> length bytes = nat chunk))"

text \<open>A transport that also keeps everything it handed over.\<close>

definition recording :: "'s transport \<Rightarrow> ('s \<times> string) transport" where
  "recording receive s n =
    (let (chunk, bytes, s') = receive (fst s) n in (chunk, bytes, (s', snd s @ bytes)))"

lemma written_at_length:
  "at + length bytes \<le> length dest \<Longrightarrow> length (written_at dest at bytes) = length dest"
  by (simp add: written_at_def)

lemma written_at_prefix:
  "at \<le> length dest \<Longrightarrow>
   take (at + length bytes) (written_at dest at bytes) = take at dest @ bytes"
  by (simp add: written_at_def)

lemma receive_loop_recording:
  assumes "honest receive" and "received \<le> expected" and "expected \<le> length dest"
    and "take received dest = snd s"
    and "receive_loop (recording receive) expected received dest s = (result, dest', s')"
  shows "length dest' = length dest \<and>
    (result = ReceiveExactResult_complete \<longrightarrow> take expected dest' = snd s')"
  using assms(2-5)
proof (induction "expected - received" arbitrary: received dest s rule: less_induct)
  case less
  show ?case
  proof (cases "received < expected")
    case False
    with less.prems show ?thesis by (simp add: receive_loop.simps [of "recording receive"])
  next
    case True
    obtain chunk bytes t where r: "receive (fst s) (expected - received) = (chunk, bytes, t)"
      by (cases "receive (fst s) (expected - received)") auto
    then have h: "length bytes \<le> expected - received"
      "0 < chunk \<and> nat chunk \<le> expected - received \<longrightarrow> length bytes = nat chunk"
      using assms(1) unfolding honest_def by (metis (mono_tags, lifting) case_prod_conv)+
    let ?d = "written_at dest received bytes"
    have len: "length ?d = length dest"
      using h(1) True less.prems(2) by (intro written_at_length) simp
    have rec: "recording receive s (expected - received) = (chunk, bytes, (t, snd s @ bytes))"
      by (simp add: recording_def r)
    show ?thesis
    proof (cases "0 < chunk \<and> nat chunk \<le> expected - received")
      case False
      then have "result \<noteq> ReceiveExactResult_complete \<and> dest' = ?d"
        using less.prems(4) True rec
        by (auto simp: receive_loop.simps [of "recording receive"] Let_def split: if_splits)
      with len show ?thesis by simp
    next
      case ok: True
      with h have n: "length bytes = nat chunk" by blast
      have "receive_loop (recording receive) expected received dest s =
          receive_loop (recording receive) expected (received + nat chunk) ?d (t, snd s @ bytes)"
        using ok True rec
        by (simp add: receive_loop.simps [of "recording receive" expected received] Let_def)
      then have step: "receive_loop (recording receive) expected (received + nat chunk) ?d
          (t, snd s @ bytes) = (result, dest', s')"
        using less.prems(4) by (simp only:)
      have pre: "take (received + nat chunk) ?d = snd (t, snd s @ bytes)"
        using written_at_prefix [of received dest bytes] less.prems n True by simp
      have less_room: "expected - (received + nat chunk) < expected - received"
        and le: "received + nat chunk \<le> expected" and fits: "expected \<le> length ?d"
        using ok True len less.prems by auto
      from less.hyps [OF less_room le fits pre step] len show ?thesis by simp
    qed
  qed
qed

section \<open>Properties\<close>

text \<open>C35: over a transport that never delivers more than it was asked for, receiving never writes
  outside the destination, and a complete receive has put exactly the bytes delivered, in order.\<close>
theorem receive_exact_complete:
  assumes "honest receive" and "expected \<le> length dest"
    and "receive_exact (recording receive) (Some dest) expected (s, []) = (result, Some dest', s', delivered)"
  shows "length dest' = length dest \<and>
    (if result = ReceiveExactResult_complete then take expected dest' = delivered else True)"
  using receive_loop_recording [OF assms(1) _ assms(2), of 0 "(s, [])" result dest' "(s', delivered)"] assms(3)
  by (auto simp: receive_exact_def split: prod.splits)

definition two_at_a_time :: "string transport" where
  "two_at_a_time s n = (let k = min 2 (min n (length s)) in (int k, take k s, drop k s))"

lemma receive_exact_complete_witness:
  "(case receive_exact (recording two_at_a_time) (Some (replicate 4 (CHR ''x''))) 3 (''abcdef'', []) of
      (result, dest, _) \<Rightarrow> result = ReceiveExactResult_complete \<and> map_option (take 3) dest = Some ''abc'')"
proof -
  have r: "receive_exact (recording two_at_a_time) (Some (replicate 4 (CHR ''x''))) 3 (''abcdef'', []) =
      (ReceiveExactResult_complete, Some ''abcx'', ''def'', ''abc'')"
    by code_simp
  have "honest two_at_a_time" by (auto simp: honest_def two_at_a_time_def Let_def)
  from receive_exact_complete [OF this _ r] show ?thesis by (simp add: r)
qed

end
