(* ===== verification/Device_State.thy ===== *)
theory Device_State
  imports Protocol
begin

text \<open>
  The state shown to the outside and the three small decisions taken over it:
  \<open>device_state.cpp\<close> (may a conversation start, and if not why), \<open>health.cpp\<close> (how much
  memory is left) and \<open>provisioning_scope.cpp\<close> (may this request configure the device).
\<close>

section \<open>Device state\<close>

datatype ConversationPhase =
    ConversationPhase_idle
  | ConversationPhase_listening
  | ConversationPhase_thinking
  | ConversationPhase_speaking

definition phase_to_string :: "ConversationPhase \<Rightarrow> string" where
  "phase_to_string phase =
    (case phase of
       ConversationPhase_idle \<Rightarrow> ''idle''
     | ConversationPhase_listening \<Rightarrow> ''listening''
     | ConversationPhase_thinking \<Rightarrow> ''thinking''
     | ConversationPhase_speaking \<Rightarrow> ''speaking'')"

record device_state =
  estop :: bool
  conversation :: ConversationPhase
  audio_busy :: bool
  expression :: Expression
  network_connected :: bool
  gateway_configured :: bool
  last_error :: string

definition initial_device_state :: device_state where
  "initial_device_state =
    \<lparr>estop = False, conversation = ConversationPhase_idle, audio_busy = False,
     expression = Expression_neutral, network_connected = False, gateway_configured = False,
     last_error = []\<rparr>"

definition can_start_conversation :: "device_state \<Rightarrow> bool" where
  "can_start_conversation st \<longleftrightarrow>
    \<not> estop st \<and> conversation st = ConversationPhase_idle \<and> \<not> audio_busy st \<and>
    network_connected st \<and> gateway_configured st"

definition why_cannot_start :: "device_state \<Rightarrow> string" where
  "why_cannot_start st =
    (if estop st then ''emergency stop is engaged''
     else if conversation st \<noteq> ConversationPhase_idle then ''a conversation is already running''
     else if audio_busy st then ''audio is in use''
     else if \<not> network_connected st then ''not connected to a network''
     else if \<not> gateway_configured st then ''gateway url is not configured''
     else [])"

text \<open>The reason is empty exactly when a conversation may start.\<close>

lemma why_cannot_start_empty: "why_cannot_start st = [] \<longleftrightarrow> can_start_conversation st"
  by (simp add: why_cannot_start_def can_start_conversation_def)

lemma phase_to_string_inj: "phase_to_string p = phase_to_string q \<Longrightarrow> p = q"
  by (cases p; cases q) (simp_all add: phase_to_string_def)

section \<open>Health\<close>

datatype HealthLevel = HealthLevel_healthy | HealthLevel_degraded | HealthLevel_critical

fun health_index :: "HealthLevel \<Rightarrow> nat" where
  "health_index HealthLevel_healthy = 0"
| "health_index HealthLevel_degraded = 1"
| "health_index HealthLevel_critical = 2"

lemma health_index_inj: "health_index a = health_index b \<longleftrightarrow> a = b"
  by (cases a; cases b) simp_all

instantiation HealthLevel :: linorder
begin

definition less_eq_HealthLevel :: "HealthLevel \<Rightarrow> HealthLevel \<Rightarrow> bool" where
  "less_eq_HealthLevel a b \<longleftrightarrow> health_index a \<le> health_index b"

definition less_HealthLevel :: "HealthLevel \<Rightarrow> HealthLevel \<Rightarrow> bool" where
  "less_HealthLevel a b \<longleftrightarrow> health_index a < health_index b"

instance
  by standard (auto simp: less_eq_HealthLevel_def less_HealthLevel_def health_index_inj)

end

record memory_snapshot =
  internal_free :: nat
  largest_internal_block :: nat

record memory_thresholds =
  degraded_internal_free :: nat
  critical_internal_free :: nat
  critical_largest_block :: nat

definition classify_memory :: "memory_snapshot \<Rightarrow> memory_thresholds \<Rightarrow> HealthLevel" where
  "classify_memory snapshot thresholds =
    (if internal_free snapshot \<le> critical_internal_free thresholds \<or>
        largest_internal_block snapshot \<le> critical_largest_block thresholds
     then HealthLevel_critical
     else if internal_free snapshot \<le> degraded_internal_free thresholds
     then HealthLevel_degraded
     else HealthLevel_healthy)"

text \<open>Less memory never classifies as healthier.\<close>

lemma classify_memory_antimono:
  assumes "internal_free a \<le> internal_free b"
    and "largest_internal_block a \<le> largest_internal_block b"
  shows "classify_memory b t \<le> classify_memory a t"
  using assms by (auto simp: classify_memory_def less_eq_HealthLevel_def)

section \<open>Provisioning scope\<close>

type_synonym ipv4 = "u8 \<times> u8 \<times> u8 \<times> u8"

definition provisioning_allowed :: "bool \<Rightarrow> ipv4 \<Rightarrow> ipv4 option \<Rightarrow> bool" where
  "provisioning_allowed access_point_up access_point_address request_local_address =
    (if \<not> access_point_up then False
     else case request_local_address of
            None \<Rightarrow> False
          | Some address \<Rightarrow> address = access_point_address)"

lemma provisioning_allowed_iff:
  "provisioning_allowed up ap local \<longleftrightarrow> up \<and> local = Some ap"
  by (auto simp: provisioning_allowed_def split: option.splits)

end
