(* ===== verification/Access_Token.thy ===== *)
theory Access_Token
  imports Prelude
begin

unbundle bit_operations_syntax

text \<open>
  \<open>access_token.cpp\<close>: the bearer token and its comparison, which runs over all \<open>kLength\<close>
  characters whatever was presented and accumulates the differences with a bitwise or.
\<close>

definition kTokenLength :: nat where
  "kTokenLength = 32"

record access_token =
  token_text :: string
  token_set :: bool

definition token_unset :: access_token where
  "token_unset = \<lparr>token_text = replicate kTokenLength (CHR ''0''), token_set = False\<rparr>"

definition token_from_text :: "string \<Rightarrow> access_token" where
  "token_from_text text =
    (if length text \<noteq> kTokenLength then token_unset
     else \<lparr>token_text = map (\<lambda>i. text ! i) [0..<kTokenLength], token_set = True\<rparr>)"

definition presented_at :: "string \<Rightarrow> nat \<Rightarrow> char" where
  "presented_at presented i =
    (if presented = [] then CHR 0x00 else presented ! (i mod length presented))"

definition differences :: "string \<Rightarrow> string \<Rightarrow> u8 \<Rightarrow> nat list \<Rightarrow> u8" where
  "differences text presented start indices =
    foldl (\<lambda>d i. d OR (char_byte (text ! i) XOR char_byte (presented_at presented i)))
      start indices"

definition token_matches :: "access_token \<Rightarrow> string \<Rightarrow> bool" where
  "token_matches token presented =
    (if \<not> token_set token then False
     else differences (token_text token) presented
            (if length presented = kTokenLength then 0 else 1) [0..<kTokenLength] = 0)"

section \<open>The comparison is equality\<close>

lemma differences_zero:
  "differences text presented start is = 0 \<longleftrightarrow>
     start = 0 \<and> (\<forall>i\<in>set is. text ! i = presented_at presented i)"
proof (induction "is" arbitrary: start)
  case Nil
  then show ?case by (simp add: differences_def)
next
  case (Cons i "is")
  have "differences text presented start (i # is) =
      differences text presented
        (start OR (char_byte (text ! i) XOR char_byte (presented_at presented i))) is"
    by (simp add: differences_def)
  with Cons show ?case
    by (simp add: or_eq_0_iff xor_zero_iff char_byte_inj)
qed

definition token_wf :: "access_token \<Rightarrow> bool" where
  "token_wf token \<longleftrightarrow> length (token_text token) = kTokenLength"

lemma token_unset_wf [invariant_rules]: "token_wf token_unset"
  by (simp add: token_wf_def token_unset_def)

lemma token_from_text_wf [invariant_rules]: "token_wf (token_from_text text)"
  by (simp add: token_wf_def token_from_text_def token_unset_def)

lemma token_from_text_eq:
  "length text = kTokenLength \<Longrightarrow> token_from_text text = \<lparr>token_text = text, token_set = True\<rparr>"
  by (simp add: token_from_text_def) (metis map_nth)

lemma token_matches_equal:
  assumes "token_wf token"
  shows "token_matches token presented \<longleftrightarrow> token_set token \<and> presented = token_text token"
proof (cases "length presented = kTokenLength")
  case True
  have "differences (token_text token) presented 0 [0..<kTokenLength] = 0
      \<longleftrightarrow> presented = token_text token"
    using True assms
    by (auto simp: differences_zero token_wf_def presented_at_def intro!: nth_equalityI)
       (use True in \<open>force simp: kTokenLength_def\<close>)+
  then show ?thesis using True by (simp add: token_matches_def)
next
  case False
  with assms show ?thesis
    by (auto simp: token_matches_def differences_zero token_wf_def)
qed

lemma unset_matches_nothing: "\<not> token_matches token_unset presented"
  by (simp add: token_matches_def token_unset_def)

section \<open>Properties\<close>

text \<open>The comparison that looks at every byte accepts exactly the stored token, and an unset
  token accepts nothing.\<close>
theorem token_comparison_exact:
  assumes "token_wf token"
  shows "token_matches token presented \<longleftrightarrow> token_set token \<and> presented = token_text token"
  by (rule token_matches_equal [OF assms])

lemma token_comparison_exact_witness:
  "token_matches (token_from_text (replicate kTokenLength (CHR ''7''))) (replicate kTokenLength (CHR ''7''))"
  using token_comparison_exact [OF token_from_text_wf, of "replicate kTokenLength (CHR ''7'')"]
  by (simp add: token_from_text_eq)

end
