(* ===== verification/Audio_Direction.thy ===== *)
theory Audio_Direction
  imports Prelude
begin

text \<open>
  \<open>audio_direction.cpp\<close>: the half-duplex interlock. Capture and playback share one contract,
  stated as the locale \<open>audio_side\<close> and interpreted for each.
\<close>

datatype AudioDirectionState =
    AudioDirectionState_idle
  | AudioDirectionState_capturing
  | AudioDirectionState_playing

datatype AudioTransition =
    AudioTransition_proceed
  | AudioTransition_already_active
  | AudioTransition_denied

definition begin_capture :: "AudioDirectionState \<Rightarrow> AudioTransition \<times> AudioDirectionState" where
  "begin_capture s =
    (case s of
       AudioDirectionState_capturing \<Rightarrow> (AudioTransition_already_active, s)
     | AudioDirectionState_playing \<Rightarrow> (AudioTransition_denied, s)
     | AudioDirectionState_idle \<Rightarrow> (AudioTransition_proceed, AudioDirectionState_capturing))"

definition begin_playback :: "AudioDirectionState \<Rightarrow> AudioTransition \<times> AudioDirectionState" where
  "begin_playback s =
    (case s of
       AudioDirectionState_playing \<Rightarrow> (AudioTransition_already_active, s)
     | AudioDirectionState_capturing \<Rightarrow> (AudioTransition_denied, s)
     | AudioDirectionState_idle \<Rightarrow> (AudioTransition_proceed, AudioDirectionState_playing))"

definition end_capture :: "AudioDirectionState \<Rightarrow> AudioDirectionState" where
  "end_capture s =
    (if s = AudioDirectionState_capturing then AudioDirectionState_idle else s)"

definition end_playback :: "AudioDirectionState \<Rightarrow> AudioDirectionState" where
  "end_playback s =
    (if s = AudioDirectionState_playing then AudioDirectionState_idle else s)"

definition direction_to_string :: "AudioDirectionState \<Rightarrow> string" where
  "direction_to_string s =
    (case s of
       AudioDirectionState_idle \<Rightarrow> ''idle''
     | AudioDirectionState_capturing \<Rightarrow> ''capturing''
     | AudioDirectionState_playing \<Rightarrow> ''playing'')"

definition transition_to_string :: "AudioTransition \<Rightarrow> string" where
  "transition_to_string t =
    (case t of
       AudioTransition_proceed \<Rightarrow> ''proceed''
     | AudioTransition_already_active \<Rightarrow> ''already_active''
     | AudioTransition_denied \<Rightarrow> ''denied'')"

section \<open>One side of the interlock\<close>

locale audio_side =
  fixes begin_this :: "'s \<Rightarrow> AudioTransition \<times> 's"
    and end_this :: "'s \<Rightarrow> 's"
    and this_active :: "'s \<Rightarrow> bool"
    and other_active :: "'s \<Rightarrow> bool"
  assumes exclusive: "\<not> (this_active s \<and> other_active s)"
    and begin_free: "\<not> this_active s \<Longrightarrow> \<not> other_active s \<Longrightarrow>
          fst (begin_this s) = AudioTransition_proceed \<and> this_active (snd (begin_this s))"
    and begin_taken: "this_active s \<Longrightarrow> begin_this s = (AudioTransition_already_active, s)"
    and begin_refused: "other_active s \<Longrightarrow> begin_this s = (AudioTransition_denied, s)"
    and end_own: "this_active s \<Longrightarrow> \<not> this_active (end_this s) \<and> \<not> other_active (end_this s)"
    and end_foreign: "\<not> this_active s \<Longrightarrow> end_this s = s"
begin

lemma denied_iff: "fst (begin_this s) = AudioTransition_denied \<longleftrightarrow> other_active s"
  using begin_free begin_taken begin_refused
  by (metis AudioTransition.distinct fst_conv)

lemma begin_keeps_other: "other_active (snd (begin_this s)) \<longleftrightarrow> other_active s"
  using exclusive begin_free begin_taken begin_refused by (metis snd_conv)

lemma end_keeps_other: "other_active s \<Longrightarrow> end_this s = s"
  using exclusive end_foreign by blast

lemma granted_active:
  "fst (begin_this s) \<noteq> AudioTransition_denied \<Longrightarrow> this_active (snd (begin_this s))"
  using denied_iff begin_free begin_taken by (metis snd_conv)

end

interpretation capture_side: audio_side begin_capture end_capture
  "\<lambda>s. s = AudioDirectionState_capturing" "\<lambda>s. s = AudioDirectionState_playing"
  by unfold_locales
    (auto simp: begin_capture_def end_capture_def split: AudioDirectionState.splits)

interpretation playback_side: audio_side begin_playback end_playback
  "\<lambda>s. s = AudioDirectionState_playing" "\<lambda>s. s = AudioDirectionState_capturing"
  by unfold_locales
    (auto simp: begin_playback_def end_playback_def split: AudioDirectionState.splits)

section \<open>Runs of the interlock\<close>

datatype audio_call = Begin_capture | Begin_playback | End_capture | End_playback

fun audio_effect :: "audio_call \<Rightarrow> AudioDirectionState \<Rightarrow> AudioDirectionState" where
  "audio_effect Begin_capture s = snd (begin_capture s)"
| "audio_effect Begin_playback s = snd (begin_playback s)"
| "audio_effect End_capture s = end_capture s"
| "audio_effect End_playback s = end_playback s"

definition audio_run :: "audio_call list \<Rightarrow> AudioDirectionState \<Rightarrow> AudioDirectionState" where
  "audio_run calls s = fold audio_effect calls s"

text \<open>While a capture runs, only \<open>end_capture\<close> ends it, whatever the playback side does.\<close>

lemma capture_held:
  "End_capture \<notin> set calls \<Longrightarrow>
   audio_run calls AudioDirectionState_capturing = AudioDirectionState_capturing"
proof (induction calls)
  case (Cons c calls)
  then have "audio_effect c AudioDirectionState_capturing = AudioDirectionState_capturing"
    by (cases c) (auto simp: begin_capture_def begin_playback_def end_playback_def)
  with Cons show ?case by (simp add: audio_run_def)
qed (simp add: audio_run_def)

lemma playback_held:
  "End_playback \<notin> set calls \<Longrightarrow>
   audio_run calls AudioDirectionState_playing = AudioDirectionState_playing"
proof (induction calls)
  case (Cons c calls)
  then have "audio_effect c AudioDirectionState_playing = AudioDirectionState_playing"
    by (cases c) (auto simp: begin_capture_def begin_playback_def end_capture_def)
  with Cons show ?case by (simp add: audio_run_def)
qed (simp add: audio_run_def)

section \<open>Properties\<close>

text \<open>The microphone and the loudspeaker exclude each other: whichever side has been granted keeps
  the direction through all calls of the other side, which is denied, until it ends itself.\<close>
theorem audio_directions_exclude:
  assumes "End_capture \<notin> set calls" and "End_playback \<notin> set calls'"
    and "fst (begin_capture s) = AudioTransition_proceed" and "fst (begin_playback s') = AudioTransition_proceed"
  shows "fst (begin_playback (audio_run calls (snd (begin_capture s)))) = AudioTransition_denied \<and>
    fst (begin_capture (audio_run calls' (snd (begin_playback s')))) = AudioTransition_denied"
proof -
  have "snd (begin_capture s) = AudioDirectionState_capturing"
    using assms(3) by (cases s) (simp_all add: begin_capture_def)
  moreover have "snd (begin_playback s') = AudioDirectionState_playing"
    using assms(4) by (cases s') (simp_all add: begin_playback_def)
  ultimately show ?thesis using capture_held [OF assms(1)] playback_held [OF assms(2)]
    by (simp add: playback_side.denied_iff capture_side.denied_iff)
qed

lemma audio_directions_exclude_witness:
  "fst (begin_playback (audio_run [Begin_playback, End_playback, Begin_capture]
     (snd (begin_capture AudioDirectionState_idle)))) = AudioTransition_denied"
  using audio_directions_exclude [of "[Begin_playback, End_playback, Begin_capture]" "[]"
    AudioDirectionState_idle AudioDirectionState_idle]
  by (simp add: begin_capture_def begin_playback_def)

end
