(* ===== verification/Ids.thy ===== *)
theory Ids
  imports Prelude
begin

unbundle bit_operations_syntax

text \<open>
  \<open>ids.cpp\<close>: the boot identifier, 128 bits of entropy written as 26 characters of a 32-letter
  alphabet, and the identifiers \<open>boot-sequence\<close> issued from it. The fixed arrays are modelled
  by the text written into them; \<open>id_text_length\<close> shows that it fits.
\<close>

definition kTextLength :: nat where
  "kTextLength = 26"

definition kMaxTextLength :: nat where
  "kMaxTextLength = kTextLength + 1 + 20"

definition kAlphabet :: string where
  "kAlphabet = ''0123456789ABCDEFGHJKMNPQRSTVWXYZ''"

text \<open>
  The loop of \<open>encode\<close>, from position \<open>i\<close> down to 1; \<open>out\<close> holds the positions already written.
\<close>

primrec encode_loop :: "nat \<Rightarrow> u64 \<Rightarrow> u64 \<Rightarrow> string \<Rightarrow> string" where
  "encode_loop 0 high low out = out"
| "encode_loop (Suc i) high low out =
    encode_loop i (drop_bit 5 high) (drop_bit 5 low OR push_bit 59 high)
      (kAlphabet ! (unat low mod length kAlphabet) # out)"

definition encode :: "u64 \<Rightarrow> u64 \<Rightarrow> string" where
  "encode high low = encode_loop kTextLength high low []"

record boot_id =
  boot_high :: u64
  boot_low :: u64
  boot_text :: string

definition boot_unset :: boot_id where
  "boot_unset = \<lparr>boot_high = 0, boot_low = 0, boot_text = replicate kTextLength (CHR ''0'')\<rparr>"

definition from_entropy :: "u64 \<Rightarrow> u64 \<Rightarrow> boot_id" where
  "from_entropy high low = \<lparr>boot_high = high, boot_low = low, boot_text = encode high low\<rparr>"

definition boot_is_set :: "boot_id \<Rightarrow> bool" where
  "boot_is_set b \<longleftrightarrow> boot_high b \<noteq> 0 \<or> boot_low b \<noteq> 0"

definition boot_equal :: "boot_id \<Rightarrow> boot_id \<Rightarrow> bool" where
  "boot_equal a b \<longleftrightarrow> boot_high a = boot_high b \<and> boot_low a = boot_low b"

record ident =
  id_text :: string
  id_sequence :: u64

definition make_id :: "boot_id \<Rightarrow> u64 \<Rightarrow> ident" where
  "make_id boot sequence =
    \<lparr>id_text = boot_text boot @ [CHR ''-''] @ decimal (unat sequence), id_sequence = sequence\<rparr>"

record id_generator =
  gen_boot :: boot_id
  gen_sequence :: u64

definition id_generator :: "boot_id \<Rightarrow> id_generator" where
  "id_generator boot = \<lparr>gen_boot = boot, gen_sequence = 0\<rparr>"

definition next_id :: "id_generator \<Rightarrow> ident \<times> id_generator" where
  "next_id g =
    (let sequence = gen_sequence g + 1
     in (make_id (gen_boot g) sequence, g\<lparr>gen_sequence := sequence\<rparr>))"

section \<open>The boot identifier is an encoding of the entropy\<close>

text \<open>The 128 bits as one word: a round of the loop divides it by 32.\<close>

definition both :: "u64 \<Rightarrow> u64 \<Rightarrow> 128 word" where
  "both high low = word_cat high low"

lemma bit_both:
  "bit (both high low) n \<longleftrightarrow>
    (if n < 64 then bit low n else n < 128 \<and> bit high (n - 64))"
  by (auto simp: both_def bit_word_cat_iff)

lemma both_inj: "both h l = both h' l' \<longleftrightarrow> h = h' \<and> l = l'"
proof
  assume e: "both h l = both h' l'"
  have "bit l n \<longleftrightarrow> bit l' n" if "n < 64" for n
    using e bit_both [of h l n] bit_both [of h' l' n] that by simp
  moreover have "bit h n \<longleftrightarrow> bit h' n" if "n < 64" for n
    using e bit_both [of h l "n + 64"] bit_both [of h' l' "n + 64"] that by simp
  ultimately show "h = h' \<and> l = l'"
    by (auto intro!: bit_word_eqI)
qed simp

lemma both_step:
  "both (drop_bit 5 high) (drop_bit 5 low OR push_bit 59 high) = drop_bit 5 (both high low)"
  by (rule bit_word_eqI)
    (auto simp: bit_both bit_drop_bit_eq bit_or_iff bit_push_bit_iff dest: bit_imp_le_length)

lemma both_digit: "unat low mod 32 = unat (both high low) mod 32"
proof -
  have "take_bit 5 (unat low) = take_bit 5 (unat (both high low))"
    by (rule bit_eqI) (auto simp: bit_take_bit_iff bit_unsigned_iff bit_both)
  then show ?thesis by (simp add: take_bit_eq_mod)
qed

text \<open>The digits of a number in base 32, most significant first.\<close>

primrec base32 :: "nat \<Rightarrow> nat \<Rightarrow> string" where
  "base32 0 v = []"
| "base32 (Suc i) v = base32 i (v div 32) @ [kAlphabet ! (v mod 32)]"

lemma kAlphabet_length [simp]: "length kAlphabet = 32"
  by (simp add: kAlphabet_def)

lemma kAlphabet_distinct: "distinct kAlphabet"
  by (simp add: kAlphabet_def)

lemma encode_loop_base32:
  "encode_loop i high low out = base32 i (unat (both high low)) @ out"
proof (induction i arbitrary: high low out)
  case (Suc i)
  have "unat (both (drop_bit 5 high) (drop_bit 5 low OR push_bit 59 high))
      = unat (both high low) div 32"
    unfolding both_step by (simp only: unat_drop_bit_eq) (simp add: drop_bit_eq_div)
  with Suc show ?case by (simp add: both_digit [of low high])
qed simp

lemma encode_base32: "encode high low = base32 kTextLength (unat (both high low))"
  by (simp add: encode_def encode_loop_base32)

lemma base32_length [simp]: "length (base32 i v) = i"
  by (induction i arbitrary: v) simp_all

lemma base32_inj: "base32 i v = base32 i w \<Longrightarrow> v < 32 ^ i \<Longrightarrow> w < 32 ^ i \<Longrightarrow> v = w"
proof (induction i arbitrary: v w)
  case (Suc i)
  have "v div 32 = w div 32"
    using Suc by (intro Suc.IH) (auto simp: less_mult_imp_div_less mult.commute)
  moreover have "v mod 32 = w mod 32"
    using Suc.prems(1) kAlphabet_distinct by (simp add: nth_eq_iff_index_eq)
  ultimately show ?case by (metis div_mult_mod_eq)
qed simp

lemma unat_both_less: "unat (both h l) < 32 ^ kTextLength"
proof -
  have "unat (both h l) < 2 ^ 128" using unsigned_less [of "both h l"] by simp
  then show ?thesis by (simp add: kTextLength_def)
qed

lemma encode_length [simp]: "length (encode h l) = kTextLength"
  by (simp add: encode_base32)

lemma encode_inj: "encode h l = encode h' l' \<Longrightarrow> h = h' \<and> l = l'"
  using base32_inj unat_both_less both_inj
  by (metis encode_base32 word_unat_eq_iff)

section \<open>Identifiers\<close>

definition boot_wf :: "boot_id \<Rightarrow> bool" where
  "boot_wf b \<longleftrightarrow> length (boot_text b) = kTextLength"

lemma boot_unset_wf [invariant_rules, simp]: "boot_wf boot_unset"
  by (simp add: boot_wf_def boot_unset_def)

lemma from_entropy_wf [invariant_rules, simp]: "boot_wf (from_entropy h l)"
  by (simp add: boot_wf_def from_entropy_def)

lemma id_text_length:
  assumes "boot_wf b"
  shows "length (id_text (make_id b n)) \<le> kMaxTextLength"
  using assms decimal_length [of n] by (simp add: make_id_def boot_wf_def kMaxTextLength_def)

lemma make_id_inj:
  assumes "boot_wf b" and "boot_wf b'" and "id_text (make_id b n) = id_text (make_id b' m)"
  shows "boot_text b = boot_text b' \<and> n = m"
proof -
  have "boot_text b = boot_text b'" "decimal (unat n) = decimal (unat m)"
    using assms by (auto simp: make_id_def boot_wf_def)
  then show ?thesis using decimal_inj by (metis word_unat_eq_iff)
qed

text \<open>The \<open>k\<close>-th identifier a generator issues.\<close>

primrec nth_id :: "nat \<Rightarrow> id_generator \<Rightarrow> ident" where
  "nth_id 0 g = fst (next_id g)"
| "nth_id (Suc k) g = nth_id k (snd (next_id g))"

lemma nth_id_eq: "nth_id k g = make_id (gen_boot g) (gen_sequence g + word_of_nat k + 1)"
  by (induction k arbitrary: g) (simp_all add: next_id_def Let_def algebra_simps)

lemma nth_id_distinct:
  assumes "boot_wf (gen_boot g)" and "boot_wf (gen_boot h)"
    and "j < 2 ^ 64" and "k < 2 ^ 64"
    and "gen_sequence g = 0" and "gen_sequence h = 0"
    and "id_text (nth_id j g) = id_text (nth_id k h)"
  shows "boot_text (gen_boot g) = boot_text (gen_boot h) \<and> j = k"
proof -
  have e: "boot_text (gen_boot g) = boot_text (gen_boot h)"
    "(word_of_nat j + 1 :: u64) = word_of_nat k + 1"
    using make_id_inj [OF assms(1,2), of "word_of_nat j + 1" "word_of_nat k + 1"] assms(5-7)
    by (auto simp: nth_id_eq)
  then have "unat (word_of_nat j :: u64) = unat (word_of_nat k :: u64)" by simp
  then show ?thesis using assms(3,4) e by (simp add: unat_of_nat)
qed

section \<open>Properties\<close>

text \<open>Identifiers do not repeat: two identifiers with the same text were handed out in the same
  boot and at the same position, for the first \<open>2 ^ 64\<close> of each boot.\<close>
theorem ids_do_not_repeat:
  assumes "boot_wf (gen_boot g)" and "boot_wf (gen_boot h)"
    and "gen_sequence g = 0" and "gen_sequence h = 0" and "j < 2 ^ 64" and "k < 2 ^ 64"
    and "id_text (nth_id j g) = id_text (nth_id k h)"
  shows "boot_text (gen_boot g) = boot_text (gen_boot h) \<and> j = k"
  by (rule nth_id_distinct [OF assms(1,2,5,6,3,4,7)])

lemma ids_do_not_repeat_witness:
  "id_text (nth_id 3 (id_generator (from_entropy 1 2))) \<noteq> id_text (nth_id 4 (id_generator (from_entropy 1 2)))"
  using ids_do_not_repeat [of "id_generator (from_entropy 1 2)" "id_generator (from_entropy 1 2)" 3 4]
  by (auto simp: id_generator_def)

end
