(* ===== verification/Wav.thy ===== *)
theory Wav
  imports Prelude
begin

unbundle bit_operations_syntax

text \<open>
  \<open>wav.cpp\<close>: the 44-byte header of a 16 kHz mono 16-bit PCM file, written field by field into
  a fixed array.
\<close>

definition kWavHeaderBytes :: nat where
  "kWavHeaderBytes = 44"

definition kSampleRate :: u32 where
  "kSampleRate = 16000"

definition kChannels :: u16 where
  "kChannels = 1"

definition kBitsPerSample :: u16 where
  "kBitsPerSample = 16"

definition put_u16 :: "nat \<Rightarrow> u16 \<Rightarrow> u8 list \<Rightarrow> u8 list" where
  "put_u16 at value out =
    out[at := ucast (value AND 0xFF), at + 1 := ucast (drop_bit 8 value)]"

definition put_u32 :: "nat \<Rightarrow> u32 \<Rightarrow> u8 list \<Rightarrow> u8 list" where
  "put_u32 at value out =
    out[at := ucast (value AND 0xFF),
        at + 1 := ucast (drop_bit 8 value AND 0xFF),
        at + 2 := ucast (drop_bit 16 value AND 0xFF),
        at + 3 := ucast (drop_bit 24 value AND 0xFF)]"

definition put_tag :: "nat \<Rightarrow> string \<Rightarrow> u8 list \<Rightarrow> u8 list" where
  "put_tag at tag out = foldl (\<lambda>b i. b[at + i := word_of_nat (of_char (tag ! i))]) out [0..<4]"

definition write_wav_header :: "u32 \<Rightarrow> u8 list \<Rightarrow> u8 list" where
  "write_wav_header pcm_bytes out =
    (let byte_rate = kSampleRate * ucast kChannels * (ucast kBitsPerSample div 8);
         block_align = kChannels * (kBitsPerSample div 8);
         out = put_tag 0 ''RIFF'' out;
         out = put_u32 4 (36 + pcm_bytes) out;
         out = put_tag 8 ''WAVE'' out;
         out = put_tag 12 ''fmt '' out;
         out = put_u32 16 16 out;
         out = put_u16 20 1 out;
         out = put_u16 22 kChannels out;
         out = put_u32 24 kSampleRate out;
         out = put_u32 28 byte_rate out;
         out = put_u16 32 block_align out;
         out = put_u16 34 kBitsPerSample out;
         out = put_tag 36 ''data'' out
     in put_u32 40 pcm_bytes out)"

section \<open>What a reader finds\<close>

definition get_u16 :: "u8 list \<Rightarrow> nat \<Rightarrow> u16" where
  "get_u16 bytes at = ucast (bytes ! at) OR push_bit 8 (ucast (bytes ! (at + 1)))"

definition get_u32 :: "u8 list \<Rightarrow> nat \<Rightarrow> u32" where
  "get_u32 bytes at =
    ucast (bytes ! at) OR push_bit 8 (ucast (bytes ! (at + 1)))
    OR push_bit 16 (ucast (bytes ! (at + 2))) OR push_bit 24 (ucast (bytes ! (at + 3)))"

definition get_tag :: "u8 list \<Rightarrow> nat \<Rightarrow> string" where
  "get_tag bytes at = map (\<lambda>b. char_of (unat b)) (take 4 (drop at bytes))"

lemma get_u32_bytes:
  "ucast (ucast (v AND 0xFF :: u32) :: u8) OR push_bit 8 (ucast (ucast (drop_bit 8 v AND 0xFF) :: u8))
    OR push_bit 16 (ucast (ucast (drop_bit 16 v AND 0xFF) :: u8))
    OR push_bit 24 (ucast (ucast (drop_bit 24 v AND 0xFF) :: u8)) = v"
proof -
  have m: "(0xFF :: u32) = mask 8" by (simp add: mask_eq_exp_minus_1)
  show ?thesis
    unfolding m
  proof (rule bit_word_eqI)
    fix n assume "n < LENGTH(32)"
    then consider "n < 8" | k where "n = 8 + k" "k < 8" | k where "n = 16 + k" "k < 8"
      | k where "n = 24 + k" "k < 8"
      using le_Suc_ex [of 8 n] le_Suc_ex [of 16 n] le_Suc_ex [of 24 n] by (fastforce simp: not_less)
    then show "bit (ucast (ucast (v AND mask 8) :: u8)
        OR push_bit 8 (ucast (ucast (drop_bit 8 v AND mask 8) :: u8))
        OR push_bit 16 (ucast (ucast (drop_bit 16 v AND mask 8) :: u8))
        OR push_bit 24 (ucast (ucast (drop_bit 24 v AND mask 8) :: u8)) :: u32) n \<longleftrightarrow> bit v n"
      by cases (simp_all add: bit_simps)
  qed
qed

text \<open>The header written into 44 bytes of any content, spelt out byte by byte.\<close>

definition header_bytes :: "u32 \<Rightarrow> u8 list" where
  "header_bytes n =
    (let le = (\<lambda>v :: u32. [ucast (v AND 0xFF), ucast (drop_bit 8 v AND 0xFF),
                  ucast (drop_bit 16 v AND 0xFF), ucast (drop_bit 24 v AND 0xFF)])
     in [0x52, 0x49, 0x46, 0x46] @ le (36 + n) @ [0x57, 0x41, 0x56, 0x45, 0x66, 0x6D, 0x74, 0x20,
         16, 0, 0, 0, 1, 0, 1, 0, 0x80, 0x3E, 0, 0, 0x00, 0x7D, 0, 0, 2, 0, 16, 0,
         0x64, 0x61, 0x74, 0x61] @ le n)"

lemma upt_four: "[0..<4] = [0, 1, 2, 3 :: nat]"
  by (simp add: upt_rec)

lemma write_wav_header_bytes:
  assumes "length out = kWavHeaderBytes"
  shows "write_wav_header n out = header_bytes n"
proof -
  have "length out = Suc (Suc (Suc (Suc (Suc (Suc (Suc (Suc (Suc (Suc (Suc (Suc (Suc (Suc (Suc
    (Suc (Suc (Suc (Suc (Suc (Suc (Suc (Suc (Suc (Suc (Suc (Suc (Suc (Suc (Suc (Suc (Suc (Suc (Suc
    (Suc (Suc (Suc (Suc (Suc (Suc (Suc (Suc (Suc (Suc 0)))))))))))))))))))))))))))))))))))))))))))"
    using assms by (simp add: kWavHeaderBytes_def)
  then show ?thesis
    by (clarsimp simp: length_Suc_conv write_wav_header_def header_bytes_def put_tag_def
        put_u16_def put_u32_def upt_four kChannels_def kBitsPerSample_def kSampleRate_def Let_def)
qed

lemma header_fields:
  "get_tag (header_bytes n) 0 = ''RIFF''" "get_u32 (header_bytes n) 4 = 36 + n"
  "get_tag (header_bytes n) 8 = ''WAVE''" "get_tag (header_bytes n) 12 = ''fmt ''"
  "get_u32 (header_bytes n) 16 = 16" "get_u16 (header_bytes n) 20 = 1"
  "get_u16 (header_bytes n) 22 = kChannels" "get_u32 (header_bytes n) 24 = kSampleRate"
  "get_u32 (header_bytes n) 28 = 32000" "get_u16 (header_bytes n) 32 = 2"
  "get_u16 (header_bytes n) 34 = kBitsPerSample" "get_tag (header_bytes n) 36 = ''data''"
  "get_u32 (header_bytes n) 40 = n"
  by (simp_all add: header_bytes_def get_tag_def get_u32_def get_u16_def Let_def
      get_u32_bytes [unfolded get_u32_def] kChannels_def kSampleRate_def kBitsPerSample_def
      char_of_eq_iff take_bit_eq_mod)

section \<open>Properties\<close>

text \<open>The header written in front of \<open>n\<close> bytes of sound, read back field by field, is the
  canonical header of 16 kHz, 16 bit, mono PCM announcing them.\<close>
theorem wav_header_reads_back:
  assumes "length out = kWavHeaderBytes" and "header = write_wav_header n out"
  shows "length header = kWavHeaderBytes \<and>
    get_tag header 0 = ''RIFF'' \<and> get_u32 header 4 = 36 + n \<and> get_tag header 8 = ''WAVE'' \<and>
    get_tag header 12 = ''fmt '' \<and> get_u32 header 16 = 16 \<and> get_u16 header 20 = 1 \<and>
    get_u16 header 22 = kChannels \<and> get_u32 header 24 = kSampleRate \<and> get_u32 header 28 = 32000 \<and>
    get_u16 header 32 = 2 \<and> get_u16 header 34 = kBitsPerSample \<and> get_tag header 36 = ''data'' \<and>
    get_u32 header 40 = n"
  using header_fields [of n] write_wav_header_bytes [OF assms(1), of n] assms(2)
  by (simp add: header_bytes_def Let_def kWavHeaderBytes_def)

lemma wav_header_reads_back_witness:
  "get_u32 (write_wav_header 6400 (replicate kWavHeaderBytes 0)) 4 = 6436"
  using wav_header_reads_back [of "replicate kWavHeaderBytes 0", OF _ refl, of 6400] by simp

end
