(* ===== verification/Base64.thy ===== *)
theory Base64
  imports Prelude
begin

unbundle bit_operations_syntax

text \<open>
  \<open>base64.cpp\<close>: strict decoding into a caller's buffer. The bytes a call writes are those at
  the start of \<open>out\<close>, in order, so the buffer is modelled by the list of the bytes written;
  a failing call reports what it wrote before it failed, because that is in the buffer too.
\<close>

definition kInvalid :: u8 where
  "kInvalid = 0xFF"

definition value_of :: "char \<Rightarrow> u8" where
  "value_of c =
    (if CHR ''A'' \<le> c \<and> c \<le> CHR ''Z'' then char_byte c - char_byte (CHR ''A'')
     else if CHR ''a'' \<le> c \<and> c \<le> CHR ''z'' then char_byte c - char_byte (CHR ''a'') + 26
     else if CHR ''0'' \<le> c \<and> c \<le> CHR ''9'' then char_byte c - char_byte (CHR ''0'') + 52
     else if c = CHR ''+'' then 62
     else if c = CHR 0x2F then 63
     else kInvalid)"

definition base64_decoded_size :: "string \<Rightarrow> nat option" where
  "base64_decoded_size text =
    (if text = [] then Some 0
     else if length text mod 4 \<noteq> 0 then None
     else let size = length text div 4 * 3
          in if last text = CHR ''=''
             then (if text ! (length text - 2) = CHR ''='' then Some (size - 1 - 1)
                   else Some (size - 1))
             else Some size)"

text \<open>
  The loop over groups of four, with the bytes written so far; the second component is \<open>False\<close>
  for the \<open>SIZE_MAX\<close> returns. The text has a whole number of groups.
\<close>

fun decode_groups :: "string \<Rightarrow> u8 list \<Rightarrow> u8 list \<times> bool" where
  "decode_groups (c0 # c1 # c2 # c3 # rest) out =
    (let last_group = (rest = []);
         v0 = value_of c0;
         v1 = value_of c1
     in if v0 = kInvalid \<or> v1 = kInvalid then (out, False)
        else let out = out @ [push_bit 2 v0 OR drop_bit 4 v1]
        in if c2 = CHR ''='' then (out, last_group \<and> c3 = CHR ''='')
        else let v2 = value_of c2
        in if v2 = kInvalid then (out, False)
        else let out = out @ [push_bit 4 (v1 AND 0x0F) OR drop_bit 2 v2]
        in if c3 = CHR ''='' then (out, last_group)
        else let v3 = value_of c3
        in if v3 = kInvalid then (out, False)
        else decode_groups rest (out @ [push_bit 6 (v2 AND 0x03) OR v3]))"
| "decode_groups text out = (out, True)"

text \<open>\<open>present\<close> is \<open>out != nullptr\<close>.\<close>

definition base64_decode :: "string \<Rightarrow> bool \<Rightarrow> nat \<Rightarrow> u8 list \<times> nat option" where
  "base64_decode text present capacity =
    (case base64_decoded_size text of
       None \<Rightarrow> ([], if text = [] \<and> present then Some 0 else None)
     | Some expected \<Rightarrow>
         if expected > capacity \<or> \<not> present
         then ([], if text = [] \<and> present then Some 0 else None)
         else if text = [] then ([], Some 0)
         else let (bytes, ok) = decode_groups text []
              in (bytes, if ok then Some (length bytes) else None))"

section \<open>No write beyond the buffer\<close>

lemma base64_decoded_size_Suc:
  assumes "length rest mod 4 = 0" and "rest \<noteq> []"
  shows "base64_decoded_size (c0 # c1 # c2 # c3 # rest) = map_option ((+) 3) (base64_decoded_size rest)"
proof -
  obtain k where k: "length rest = 4 * Suc k"
    using assms by (metis dvdE length_0_conv mod_0_imp_dvd mult_0_right not0_implies_Suc)
  have i: "length (c0 # c1 # c2 # c3 # rest) - 2 = Suc (Suc (Suc (Suc (length rest - 2))))"
    using k by simp
  have l: "last (c0 # c1 # c2 # c3 # rest) = last rest" using assms(2) by simp
  have d: "length (c0 # c1 # c2 # c3 # rest) div 4 * 3 = length rest div 4 * 3 + 3"
    "length rest div 4 * 3 = 3 * k + 3"
    using k by simp_all
  show ?thesis using assms
    unfolding base64_decoded_size_def Let_def i l d by simp
qed

lemma base64_decoded_size_pos:
  assumes "length rest mod 4 = 0" and "rest \<noteq> []"
  shows "\<exists>n. base64_decoded_size rest = Some n \<and> 1 \<le> n"
proof -
  obtain k where "length rest = 4 * Suc k"
    using assms by (metis dvdE length_0_conv mod_0_imp_dvd mult_0_right not0_implies_Suc)
  then show ?thesis by (auto simp: base64_decoded_size_def Let_def)
qed

lemma decode_groups_length:
  "length text mod 4 = 0 \<Longrightarrow> text \<noteq> [] \<Longrightarrow> decode_groups text out = (bytes, ok) \<Longrightarrow>
   \<exists>n. base64_decoded_size text = Some n \<and> length bytes \<le> length out + n
     \<and> (ok \<longrightarrow> length bytes = length out + n) \<and> take (length out) bytes = out"
proof (induction "length text" arbitrary: "text" out rule: less_induct)
  case less
  obtain c0 c1 c2 c3 rest where t: "text = c0 # c1 # c2 # c3 # rest"
    using less.prems(1,2) by (cases "(text, out)" rule: decode_groups.cases) auto
  note prems = less.prems [unfolded t]
  show ?case
  proof (cases "rest = []")
    case True
    with prems show ?thesis
      unfolding t by (auto simp: Let_def base64_decoded_size_def split: if_splits)
  next
    case False
    let ?size = "base64_decoded_size (c0 # c1 # c2 # c3 # rest)"
    have len: "length rest mod 4 = 0" using prems(1) by simp
    obtain n where n: "base64_decoded_size rest = Some n" "1 \<le> n"
      using base64_decoded_size_pos [OF len False] by blast
    have size: "?size = Some (3 + n)"
      using base64_decoded_size_Suc [OF len False] n by simp
    show ?thesis
    proof (cases "value_of c0 \<noteq> kInvalid \<and> value_of c1 \<noteq> kInvalid \<and> c2 \<noteq> CHR ''='' \<and>
        value_of c2 \<noteq> kInvalid \<and> c3 \<noteq> CHR ''='' \<and> value_of c3 \<noteq> kInvalid")
      case True
      define out' where "out' = out @ [push_bit 2 (value_of c0) OR drop_bit 4 (value_of c1),
          push_bit 4 (value_of c1 AND 0x0F) OR drop_bit 2 (value_of c2),
          push_bit 6 (value_of c2 AND 0x03) OR value_of c3]"
      have d: "decode_groups rest out' = (bytes, ok)"
        using prems(3) True by (simp add: Let_def out'_def)
      have "\<exists>n. base64_decoded_size rest = Some n \<and> length bytes \<le> length out' + n
          \<and> (ok \<longrightarrow> length bytes = length out' + n) \<and> take (length out') bytes = out'"
        using less.hyps [of rest out'] len False d t by simp
      then have "length bytes \<le> length out' + n" "ok \<longrightarrow> length bytes = length out' + n"
        and keeps: "take (length out') bytes = out'"
        using n by auto
      moreover have "take (length out) bytes = out"
        using arg_cong [OF keeps, of "take (length out)"] by (simp add: out'_def min_def)
      ultimately show ?thesis using size [folded t] by (simp add: out'_def)
    next
      case bad: False
      with prems(3) False size show ?thesis
        unfolding t by (auto simp: Let_def split: if_splits)
    qed
  qed
qed

lemma base64_decode_sizes:
  assumes "base64_decode text present capacity = (bytes, result)"
  shows "length bytes \<le> capacity"
    and "result = Some n \<Longrightarrow> n = length bytes \<and> base64_decoded_size text = Some n \<and> present"
proof -
  have "length bytes \<le> capacity \<and>
      (\<forall>n. result = Some n \<longrightarrow> n = length bytes \<and> base64_decoded_size text = Some n \<and> present)"
  proof (cases "base64_decoded_size text")
    case None
    with assms show ?thesis by (auto simp: base64_decode_def base64_decoded_size_def)
  next
    case (Some e)
    show ?thesis
    proof (cases "e > capacity \<or> \<not> present \<or> text = []")
      case True
      with Some assms show ?thesis
        by (auto simp: base64_decode_def base64_decoded_size_def split: if_splits)
    next
      case False
      then obtain ok where d: "decode_groups text [] = (bytes, ok)"
        and r: "result = (if ok then Some (length bytes) else None)"
        using Some assms by (auto simp: base64_decode_def split: prod.splits)
      have "length text mod 4 = 0"
        using Some False by (auto simp: base64_decoded_size_def split: if_splits)
      from decode_groups_length [OF this _ d] False Some r show ?thesis by auto
    qed
  qed
  then show "length bytes \<le> capacity"
    and "result = Some n \<Longrightarrow> n = length bytes \<and> base64_decoded_size text = Some n \<and> present"
    by blast+
qed

section \<open>Decoding what an encoder produced\<close>

text \<open>The standard encoder, as the reference.\<close>

definition kBase64Alphabet :: string where
  "kBase64Alphabet =
    ''ABCDEFGHIJKLMNOPQRSTUVWXYZabcdefghijklmnopqrstuvwxyz0123456789+'' @ [CHR 0x2F]"

definition encode_six :: "u8 \<Rightarrow> char" where
  "encode_six v = kBase64Alphabet ! unat v"

fun base64_encode :: "u8 list \<Rightarrow> string" where
  "base64_encode (a # b # c # rest) =
    encode_six (drop_bit 2 a) # encode_six (push_bit 4 (a AND 3) OR drop_bit 4 b)
    # encode_six (push_bit 2 (b AND 15) OR drop_bit 6 c) # encode_six (c AND 63)
    # base64_encode rest"
| "base64_encode [a, b] =
    [encode_six (drop_bit 2 a), encode_six (push_bit 4 (a AND 3) OR drop_bit 4 b),
     encode_six (push_bit 2 (b AND 15)), CHR ''='']"
| "base64_encode [a] =
    [encode_six (drop_bit 2 a), encode_six (push_bit 4 (a AND 3)), CHR ''='', CHR ''='']"
| "base64_encode [] = []"

lemma value_of_table:
  "list_all (\<lambda>n. value_of (kBase64Alphabet ! n) = word_of_nat n \<and> kBase64Alphabet ! n \<noteq> CHR ''='')
    [0..<64]"
  by code_simp

lemma value_of_encode_six:
  assumes "v < 64"
  shows "value_of (encode_six v) = v \<and> encode_six v \<noteq> CHR ''=''"
proof -
  have "unat v < 64" using assms by (simp add: word_less_nat_alt)
  then have "unat v \<in> set [0..<64]" by simp
  from value_of_table [unfolded list_all_iff, rule_format, OF this]
  show ?thesis by (simp add: encode_six_def)
qed

lemma small_masks: "(3 :: u8) = mask 2" "(15 :: u8) = mask 4" "(63 :: u8) = mask 6"
  by (simp_all add: mask_eq_exp_minus_1)
lemma six_bits:
  fixes v :: u8
  assumes "\<And>n. n < 8 \<Longrightarrow> bit v n \<Longrightarrow> n < 6"
  shows "v < 64"
proof -
  have "take_bit 6 v = v" using assms by (intro bit_word_eqI) (auto simp: bit_take_bit_iff)
  then have "unat v = take_bit 6 (unat v)" by (metis unsigned_take_bit_eq)
  then have "unat v < 2 ^ 6" by (metis take_bit_nat_less_exp)
  then show ?thesis by (simp add: word_less_nat_alt)
qed
lemma bit8: "bit (a :: u8) n \<Longrightarrow> n < 8" using bit_imp_le_length by force
lemma sextets:
  "drop_bit 2 a < 64" "push_bit 4 (a AND 3) OR drop_bit 4 b < 64" "push_bit 4 (a AND 3) < 64"
  "push_bit 2 (b AND 15) OR drop_bit 6 c < 64" "push_bit 2 (b AND 15) < 64" "c AND 63 < 64"
  for a b c :: u8
  unfolding small_masks
  subgoal by (rule six_bits) (auto simp: bit_simps dest: bit8)
  subgoal by (rule six_bits) (auto simp: bit_simps dest: bit8)
  subgoal by (rule six_bits) (auto simp: bit_simps dest: bit8)
  subgoal by (rule six_bits) (auto simp: bit_simps dest: bit8)
  subgoal by (rule six_bits) (auto simp: bit_simps dest: bit8)
  subgoal by (rule six_bits) (auto simp: bit_simps dest: bit8)
  done
lemma eight_cases:
  fixes v w :: u8
  assumes "\<And>n. n \<in> {0, 1, 2, 3, 4, 5, 6, 7} \<Longrightarrow> bit v n = bit w n"
  shows "v = w"
proof (rule bit_word_eqI)
  fix n assume "n < LENGTH(8)"
  then have "n \<in> {0, 1, 2, 3, 4, 5, 6, 7}" by auto
  with assms show "bit v n = bit w n" by blast
qed

lemma octets:
  "push_bit 2 (drop_bit 2 a) OR drop_bit 4 (push_bit 4 (a AND 3) OR drop_bit 4 b) = a"
  "push_bit 2 (drop_bit 2 a) OR drop_bit 4 (push_bit 4 (a AND 3)) = a"
  "push_bit 4 ((push_bit 4 (a AND 3) OR drop_bit 4 b) AND 15)
    OR drop_bit 2 (push_bit 2 (b AND 15) OR drop_bit 6 c) = b"
  "push_bit 4 ((push_bit 4 (a AND 3) OR drop_bit 4 b) AND 15)
    OR drop_bit 2 (push_bit 2 (b AND 15)) = b"
  "push_bit 6 ((push_bit 2 (b AND 15) OR drop_bit 6 c) AND 3) OR (c AND 63) = c"
  for a b c :: u8
  unfolding small_masks
  by (rule eight_cases; auto simp: bit_simps simp flip: numeral_2_eq_2 numeral_3_eq_3)+
lemma encode_six_valid: "v < 64 \<Longrightarrow> value_of (encode_six v) = v"
  "v < 64 \<Longrightarrow> v \<noteq> kInvalid"
  "v < 64 \<Longrightarrow> encode_six v \<noteq> CHR ''=''"
  using value_of_encode_six by (auto simp: kInvalid_def)

lemma decode_groups_encoded:
  "p < 64 \<Longrightarrow> q < 64 \<Longrightarrow> r < 64 \<Longrightarrow> t < 64 \<Longrightarrow>
   decode_groups (encode_six p # encode_six q # encode_six r # encode_six t # rest) out =
   decode_groups rest (out @ [push_bit 2 p OR drop_bit 4 q,
     push_bit 4 (q AND 15) OR drop_bit 2 r, push_bit 6 (r AND 3) OR t])"
  "p < 64 \<Longrightarrow> q < 64 \<Longrightarrow> r < 64 \<Longrightarrow>
   decode_groups [encode_six p, encode_six q, encode_six r, CHR ''=''] out =
   (out @ [push_bit 2 p OR drop_bit 4 q, push_bit 4 (q AND 15) OR drop_bit 2 r], True)"
  "p < 64 \<Longrightarrow> q < 64 \<Longrightarrow>
   decode_groups [encode_six p, encode_six q, CHR ''='', CHR ''=''] out =
   (out @ [push_bit 2 p OR drop_bit 4 q], True)"
  by (simp_all add: Let_def encode_six_valid)

declare decode_groups.simps [simp del]

lemma decode_encode: "decode_groups (base64_encode xs) out = (out @ xs, True)"
proof (induction xs arbitrary: out rule: base64_encode.induct)
  case (1 a b c rest)
  show ?case
    by (simp only: base64_encode.simps decode_groups_encoded sextets octets 1 append_assoc
        append_Cons append_Nil)
next
  case 4
  show ?case by (simp add: decode_groups.simps)
qed (simp_all only: base64_encode.simps decode_groups_encoded sextets octets)

lemma base64_encode_length: "length (base64_encode xs) mod 4 = 0"
  by (induction xs rule: base64_encode.induct) simp_all

lemma base64_encode_empty: "base64_encode xs = [] \<longleftrightarrow> xs = []"
  by (cases xs rule: base64_encode.cases) simp_all

lemma base64_decoded_size_encode: "base64_decoded_size (base64_encode xs) = Some (length xs)"
proof (cases "xs = []")
  case False
  with decode_groups_length [OF base64_encode_length _ decode_encode, of xs "[]"]
  show ?thesis by (simp add: base64_encode_empty)
qed (simp add: base64_decoded_size_def)

lemma base64_decode_encode:
  "length xs \<le> capacity \<Longrightarrow>
   base64_decode (base64_encode xs) True capacity = (xs, Some (length xs))"
  by (simp add: base64_decode_def base64_decoded_size_encode base64_encode_empty decode_encode)

section \<open>Properties\<close>

text \<open>C36: decoding what was encoded gives the bytes back when they fit the buffer, and writes nothing
  when they do not.\<close>
theorem base64_roundtrip:
  "base64_decode (base64_encode xs) True capacity =
    (if length xs \<le> capacity then (xs, Some (length xs)) else ([], None))"
proof (cases "length xs \<le> capacity")
  case False
  then have "xs \<noteq> []" by auto
  with False show ?thesis
    by (simp add: base64_decode_def base64_decoded_size_encode base64_encode_empty)
qed (simp add: base64_decode_encode)

text \<open>Whatever the text, decoding writes at most the capacity, and a text that decodes yields
  exactly the number of bytes announced for it.\<close>
theorem base64_never_overruns:
  "case base64_decode text present capacity of (bytes, result) \<Rightarrow>
    length bytes \<le> capacity \<and>
    (result = None \<or> result = Some (length bytes) \<and> base64_decoded_size text = result \<and> present)"
proof -
  obtain bytes result where d: "base64_decode text present capacity = (bytes, result)"
    by (metis surj_pair)
  show ?thesis using base64_decode_sizes [OF d] unfolding d by (cases result) simp_all
qed

end
