(* ===== verification/Button.thy ===== *)
theory Button
  imports Prelude
begin

text \<open>
  \<open>button.cpp\<close> and \<open>button_gesture.cpp\<close>: a debouncer that turns samples of the contact into
  edges, and the recogniser that turns edges into gestures (a hold, or a number of clicks
  inside one window).
\<close>

section \<open>The debouncer\<close>

datatype ButtonEdge = ButtonEdge_none | ButtonEdge_pressed | ButtonEdge_released

record debouncer =
  db_stable_ms :: u32
  db_stable :: bool
  db_candidate :: bool
  db_candidate_since :: u32
  db_stable_since :: u32
  db_last_press_ms :: u32
  db_started :: bool

definition button_debouncer :: "u32 \<Rightarrow> debouncer" where
  "button_debouncer stable_ms =
    \<lparr>db_stable_ms = stable_ms, db_stable = False, db_candidate = False, db_candidate_since = 0,
     db_stable_since = 0, db_last_press_ms = 0, db_started = False\<rparr>"

definition debounce_update :: "bool \<Rightarrow> u32 \<Rightarrow> debouncer \<Rightarrow> ButtonEdge \<times> debouncer" where
  "debounce_update pressed now d =
    (if \<not> db_started d then
       (ButtonEdge_none,
        d\<lparr>db_started := True, db_stable := pressed, db_candidate := pressed,
          db_candidate_since := now, db_stable_since := now\<rparr>)
     else if pressed \<noteq> db_candidate d then
       (ButtonEdge_none, d\<lparr>db_candidate := pressed, db_candidate_since := now\<rparr>)
     else if db_candidate d = db_stable d then (ButtonEdge_none, d)
     else if elapsed (db_candidate_since d) now < db_stable_ms d then (ButtonEdge_none, d)
     else
       (let d = (if \<not> db_candidate d
                 then d\<lparr>db_last_press_ms := elapsed (db_stable_since d) (db_candidate_since d)\<rparr>
                 else d);
            d = d\<lparr>db_stable := db_candidate d, db_stable_since := now\<rparr>
        in (if db_stable d then ButtonEdge_pressed else ButtonEdge_released, d)))"

definition is_pressed :: "debouncer \<Rightarrow> bool" where
  "is_pressed d \<longleftrightarrow> db_stable d"

definition held_ms :: "u32 \<Rightarrow> debouncer \<Rightarrow> u32" where
  "held_ms now d = (if \<not> db_stable d then 0 else elapsed (db_stable_since d) now)"

definition last_press_ms :: "debouncer \<Rightarrow> u32" where
  "last_press_ms d = db_last_press_ms d"

text \<open>A run over samples, oldest first: the edges reported, and the last state.\<close>

fun debounce_run :: "(bool \<times> u32) list \<Rightarrow> debouncer \<Rightarrow> ButtonEdge list \<times> debouncer" where
  "debounce_run [] d = ([], d)"
| "debounce_run ((pressed, now) # samples) d =
    (let (e, d') = debounce_update pressed now d;
         (es, d'') = debounce_run samples d'
     in (e # es, d''))"

lemma debounce_run_append:
  "debounce_run (xs @ ys) d =
    (let (es, d') = debounce_run xs d; (fs, d'') = debounce_run ys d' in (es @ fs, d''))"
  by (induction xs arbitrary: d) (auto simp: Let_def split: prod.splits)

text \<open>
  What the state remembers of the samples so far: the last of them all read
  \<open>db_candidate\<close>, the first of those at \<open>db_candidate_since\<close>.
\<close>

definition remembers :: "(bool \<times> u32) list \<Rightarrow> debouncer \<Rightarrow> bool" where
  "remembers samples d \<longleftrightarrow>
    (db_started d \<longrightarrow> (\<exists>pre mid. samples = pre @ (db_candidate d, db_candidate_since d) # mid
        \<and> (\<forall>s\<in>set mid. fst s = db_candidate d))) \<and> (db_started d \<longleftrightarrow> samples \<noteq> [])"

lemma remembers_update:
  assumes "remembers samples d"
  shows "remembers (samples @ [(pressed, now)]) (snd (debounce_update pressed now d))"
proof (cases "db_started d \<and> pressed = db_candidate d")
  case True
  then obtain pre mid where "samples = pre @ (db_candidate d, db_candidate_since d) # mid"
    "\<forall>s\<in>set mid. fst s = db_candidate d"
    using assms by (auto simp: remembers_def)
  moreover have "db_candidate (snd (debounce_update pressed now d)) = db_candidate d"
    "db_candidate_since (snd (debounce_update pressed now d)) = db_candidate_since d"
    "db_started (snd (debounce_update pressed now d))"
    using True by (auto simp: debounce_update_def Let_def)
  ultimately show ?thesis
    using True unfolding remembers_def
    by (intro conjI impI exI [of _ pre] exI [of _ "mid @ [(pressed, now)]"]) auto
next
  case False
  then have "db_candidate (snd (debounce_update pressed now d)) = pressed"
    "db_candidate_since (snd (debounce_update pressed now d)) = now"
    "db_started (snd (debounce_update pressed now d))"
    by (auto simp: debounce_update_def Let_def)
  then show ?thesis
    unfolding remembers_def
    by (intro conjI impI exI [of _ samples] exI [of _ "[]"]) auto
qed

lemma remembers_run: "remembers samples (snd (debounce_run samples (button_debouncer ms)))"
proof (induction samples rule: rev_induct)
  case Nil
  then show ?case by (simp add: remembers_def button_debouncer_def)
next
  case (snoc x samples)
  obtain pressed now where x: "x = (pressed, now)" by fastforce
  show ?case
    using remembers_update [OF snoc, of pressed now]
    by (auto simp: x debounce_run_append Let_def split: prod.splits)
qed

lemma debounce_run_stable_ms: "db_stable_ms (snd (debounce_run samples d)) = db_stable_ms d"
proof (induction samples arbitrary: d)
  case (Cons x samples)
  have "db_stable_ms (snd (debounce_update p t d)) = db_stable_ms d" for p t
    by (auto simp: debounce_update_def Let_def)
  with Cons show ?case by (cases x) (simp add: Let_def case_prod_beta)
qed simp

text \<open>An edge needs \<open>stable_ms\<close> of unchanged readings right before it.\<close>

lemma edge_settled:
  assumes "debounce_update pressed now (snd (debounce_run samples (button_debouncer ms))) = (edge, d)"
    and "edge \<noteq> ButtonEdge_none"
  shows "\<exists>pre mid since. samples = pre @ (pressed, since) # mid \<and>
    (\<forall>s\<in>set mid. fst s = pressed) \<and> ms \<le> elapsed since now \<and>
    (edge = ButtonEdge_pressed \<longleftrightarrow> pressed)"
proof -
  let ?d = "snd (debounce_run samples (button_debouncer ms))"
  have ms: "db_stable_ms ?d = ms" by (simp add: debounce_run_stable_ms button_debouncer_def)
  have "db_started ?d" "db_candidate ?d = pressed" "ms \<le> elapsed (db_candidate_since ?d) now"
    "edge = ButtonEdge_pressed \<longleftrightarrow> pressed"
    using assms ms by (auto simp: debounce_update_def Let_def split: if_splits)
  with remembers_run [of samples ms] show ?thesis by (auto simp: remembers_def)
qed

text \<open>Edges alternate: each one changes the settled state, and only edges do.\<close>

fun alternates :: "bool \<Rightarrow> ButtonEdge list \<Rightarrow> bool" where
  "alternates down [] = True"
| "alternates down (ButtonEdge_none # es) = alternates down es"
| "alternates down (ButtonEdge_pressed # es) = (\<not> down \<and> alternates True es)"
| "alternates down (ButtonEdge_released # es) = (down \<and> alternates False es)"

lemma debounce_update_edge:
  "db_started d \<Longrightarrow> debounce_update p t d = (e, d') \<Longrightarrow>
   db_started d' \<and> (e = ButtonEdge_none \<longrightarrow> db_stable d' = db_stable d) \<and>
   (e = ButtonEdge_pressed \<longrightarrow> \<not> db_stable d \<and> db_stable d') \<and>
   (e = ButtonEdge_released \<longrightarrow> db_stable d \<and> \<not> db_stable d')"
  by (auto simp: debounce_update_def Let_def split: if_splits)

lemma debounce_run_alternates:
  "db_started d \<Longrightarrow> alternates (db_stable d) (fst (debounce_run samples d))"
proof (induction samples arbitrary: d)
  case (Cons x samples)
  obtain p t where x: "x = (p, t)" by fastforce
  obtain e d' where u: "debounce_update p t d = (e, d')" by fastforce
  from debounce_update_edge [OF Cons.prems u] Cons.IH [of d'] show ?case
    by (cases e) (auto simp: x u Let_def split: prod.splits)
qed simp

section \<open>Gestures\<close>

datatype GestureKind = GestureKind_none | GestureKind_hold | GestureKind_clicks

record gesture =
  g_kind :: GestureKind
  g_clicks :: u8

record button_gesture =
  bg_window_ms :: u32
  bg_hold_ms :: u32
  bg_pressed :: bool
  bg_hold_reported :: bool
  bg_pressed_since :: u32
  bg_clicks :: u8
  bg_window_since :: u32

definition button_gesture :: "u32 \<Rightarrow> u32 \<Rightarrow> button_gesture" where
  "button_gesture multi_click_window_ms hold_ms =
    \<lparr>bg_window_ms = multi_click_window_ms, bg_hold_ms = hold_ms, bg_pressed = False,
     bg_hold_reported = False, bg_pressed_since = 0, bg_clicks = 0, bg_window_since = 0\<rparr>"

text \<open>The first half of \<open>update\<close>, which takes the edge in, and the second, which reports.\<close>

definition take_edge :: "ButtonEdge \<Rightarrow> u32 \<Rightarrow> button_gesture \<Rightarrow> button_gesture" where
  "take_edge edge now g =
    (if edge = ButtonEdge_pressed then
       (let g = g\<lparr>bg_pressed := True, bg_hold_reported := False, bg_pressed_since := now\<rparr>;
            g = (if bg_clicks g = 0 then g\<lparr>bg_window_since := now\<rparr> else g)
        in if bg_clicks g < 255 then g\<lparr>bg_clicks := bg_clicks g + 1\<rparr> else g)
     else if edge = ButtonEdge_released then g\<lparr>bg_pressed := False\<rparr>
     else g)"

definition report_gesture :: "u32 \<Rightarrow> button_gesture \<Rightarrow> gesture \<times> button_gesture" where
  "report_gesture now g =
    (if bg_pressed g \<and> \<not> bg_hold_reported g \<and> elapsed (bg_pressed_since g) now \<ge> bg_hold_ms g then
       (\<lparr>g_kind = GestureKind_hold, g_clicks = 0\<rparr>, g\<lparr>bg_hold_reported := True, bg_clicks := 0\<rparr>)
     else if bg_clicks g > 0 \<and> elapsed (bg_window_since g) now \<ge> bg_window_ms g then
       (\<lparr>g_kind = GestureKind_clicks, g_clicks = bg_clicks g\<rparr>, g\<lparr>bg_clicks := 0\<rparr>)
     else (\<lparr>g_kind = GestureKind_none, g_clicks = 0\<rparr>, g))"

definition gesture_update :: "ButtonEdge \<Rightarrow> u32 \<Rightarrow> button_gesture \<Rightarrow> gesture \<times> button_gesture" where
  "gesture_update edge now g = report_gesture now (take_edge edge now g)"

fun gesture_run :: "(ButtonEdge \<times> u32) list \<Rightarrow> button_gesture \<Rightarrow> gesture list \<times> button_gesture" where
  "gesture_run [] g = ([], g)"
| "gesture_run ((edge, now) # rest) g =
    (let (r, g') = gesture_update edge now g;
         (rs, g'') = gesture_run rest g'
     in (r # rs, g''))"

definition presses :: "(ButtonEdge \<times> u32) list \<Rightarrow> nat" where
  "presses edges = length (filter (\<lambda>e. fst e = ButtonEdge_pressed) edges)"

definition holds :: "gesture list \<Rightarrow> nat" where
  "holds gs = length (filter (\<lambda>g. g_kind g = GestureKind_hold) gs)"

definition clicks_reported :: "gesture list \<Rightarrow> nat" where
  "clicks_reported gs =
    sum_list (map (\<lambda>g. if g_kind g = GestureKind_clicks then unat (g_clicks g) else 0) gs)"

text \<open>Presses that wait for their hold to be reported.\<close>

definition hold_open :: "button_gesture \<Rightarrow> nat" where
  "hold_open g = (if bg_pressed g \<and> \<not> bg_hold_reported g then 1 else 0)"

lemma unat_Suc_clicks: "c < 255 \<Longrightarrow> unat (c + 1) = Suc (unat c)" for c :: u8
  by (simp add: unat_plus_simple word_le_nat_alt word_less_nat_alt unat_word_ariths)

lemma gesture_update_counts:
  assumes "gesture_update edge now g = (r, g')"
  shows "holds [r] + hold_open g' \<le> hold_open g + presses [(edge, now)]"
    and "clicks_reported [r] + unat (bg_clicks g') \<le> unat (bg_clicks g) + presses [(edge, now)]"
    and "g_kind r \<noteq> GestureKind_hold \<Longrightarrow> unat (bg_clicks g) + presses [(edge, now)] < 256 \<Longrightarrow>
      clicks_reported [r] + unat (bg_clicks g') = unat (bg_clicks g) + presses [(edge, now)]"
  using assms
  by (cases edge; auto simp: gesture_update_def take_edge_def report_gesture_def Let_def holds_def
      hold_open_def presses_def clicks_reported_def unat_Suc_clicks word_less_nat_alt
      split: if_splits)+

lemma gesture_run_holds:
  "holds (fst (gesture_run edges g)) \<le> hold_open g + presses edges"
proof (induction edges arbitrary: g)
  case (Cons x edges)
  obtain edge now where x: "x = (edge, now)" by fastforce
  obtain r g' where u: "gesture_update edge now g = (r, g')" by fastforce
  from gesture_update_counts(1) [OF u] Cons [of g'] show ?case
    by (auto simp: x u Let_def holds_def presses_def split: prod.splits if_splits)
qed (simp add: holds_def)

text \<open>Without a hold and below the saturation no click is lost or counted twice.\<close>

lemma gesture_run_clicks:
  "holds (fst (gesture_run edges g)) = 0 \<Longrightarrow> unat (bg_clicks g) + presses edges < 256 \<Longrightarrow>
   clicks_reported (fst (gesture_run edges g)) + unat (bg_clicks (snd (gesture_run edges g)))
     = unat (bg_clicks g) + presses edges"
proof (induction edges arbitrary: g)
  case (Cons x edges)
  obtain edge now where x: "x = (edge, now)" by fastforce
  obtain r g' where u: "gesture_update edge now g = (r, g')" by fastforce
  have p: "presses (x # edges) = presses [(edge, now)] + presses edges"
    by (simp add: presses_def x)
  have k: "g_kind r \<noteq> GestureKind_hold"
    using Cons.prems(1) by (auto simp: x u Let_def holds_def split: prod.splits if_splits)
  have c: "clicks_reported [r] + unat (bg_clicks g') = unat (bg_clicks g) + presses [(edge, now)]"
    using gesture_update_counts(3) [OF u k] Cons.prems(2) p by simp
  have "clicks_reported (fst (gesture_run edges g')) + unat (bg_clicks (snd (gesture_run edges g')))
      = unat (bg_clicks g') + presses edges"
    using Cons.prems c p
    by (intro Cons.IH) (auto simp: x u Let_def holds_def split: prod.splits if_splits)
  with c p show ?case
    by (auto simp: x u Let_def clicks_reported_def split: prod.splits)
qed (simp add: presses_def clicks_reported_def)

section \<open>Properties\<close>

text \<open>An edge is reported only when the contact has read the same, in every sample, for at least
  the settling time, and the edges of a run are presses and releases in turn.\<close>
theorem edges_settled_and_alternating:
  assumes "debounce_run samples (button_debouncer ms) = (edges, d)"
    and "debounce_update pressed now d = (edge, d')" and "edge \<noteq> ButtonEdge_none"
  shows "(\<exists>before mid since. samples = before @ (pressed, since) # mid \<and>
      (\<forall>s\<in>set mid. fst s = pressed) \<and> ms \<le> elapsed since now \<and>
      (edge = ButtonEdge_pressed \<longleftrightarrow> pressed)) \<and>
    (edge = ButtonEdge_pressed \<longleftrightarrow> \<not> db_stable d)"
proof -
  have "db_started d"
    using remembers_run [of samples ms] assms by (auto simp: remembers_def debounce_update_def split: if_splits)
  then have "edge = ButtonEdge_pressed \<longleftrightarrow> \<not> db_stable d"
    using debounce_update_edge [OF _ assms(2)] assms(3) by (cases edge) auto
  with edge_settled [of pressed now samples ms edge d'] assms show ?thesis by simp
qed

lemma edges_settled_and_alternating_witness:
  "(\<exists>before mid since. [(False, 0), (True, 10), (True, 20)] = before @ (True, since) # mid \<and>
      (\<forall>s\<in>set mid. fst s = True) \<and> 20 \<le> elapsed since 30 \<and>
      (ButtonEdge_pressed = ButtonEdge_pressed \<longleftrightarrow> True))"
proof -
  define d :: debouncer where "d = snd (debounce_run [(False, 0), (True, 10), (True, 20)] (button_debouncer 20))"
  have "debounce_run [(False, 0), (True, 10), (True, 20)] (button_debouncer 20) =
      (fst (debounce_run [(False, 0), (True, 10), (True, 20)] (button_debouncer 20)), d)"
    by (simp add: d_def)
  moreover have "fst (debounce_update True 30 d) = ButtonEdge_pressed" unfolding d_def by code_simp
  then have "debounce_update True 30 d = (ButtonEdge_pressed, snd (debounce_update True 30 d))"
    by (metis prod.collapse)
  ultimately show ?thesis
    using edges_settled_and_alternating [of "[(False, 0), (True, 10), (True, 20)]" 20 _ d True 30
      ButtonEdge_pressed] by blast
qed

text \<open>A run of presses without a hold reports every one of them as a click, none twice, unless it
  is still waiting for the window to close; and there are never more holds than presses.\<close>
theorem clicks_are_presses:
  assumes "holds (fst (gesture_run edges (button_gesture window_ms hold_ms))) = 0" and "presses edges < 256"
    and "gesture_run edges (button_gesture window_ms hold_ms) = (reports, g)"
  shows "clicks_reported reports + unat (bg_clicks g) = presses edges"
  using gesture_run_clicks [of edges "button_gesture window_ms hold_ms"] assms
  by (simp add: button_gesture_def)

lemma clicks_are_presses_witness:
  "clicks_reported (fst (gesture_run
      [(ButtonEdge_pressed, 0), (ButtonEdge_released, 50), (ButtonEdge_pressed, 100), (ButtonEdge_released, 150),
       (ButtonEdge_none, 450)] (button_gesture 400 1000))) = 2"
proof -
  let ?edges = "[(ButtonEdge_pressed, 0), (ButtonEdge_released, 50), (ButtonEdge_pressed, 100),
    (ButtonEdge_released, 150), (ButtonEdge_none, 450 :: u32)]"
  have "holds (fst (gesture_run ?edges (button_gesture 400 1000))) = 0"
    "bg_clicks (snd (gesture_run ?edges (button_gesture 400 1000))) = 0" by code_simp+
  then show ?thesis
    using clicks_are_presses [of ?edges 400 1000, OF _ _ prod.collapse [symmetric]]
    by (simp add: presses_def)
qed

end
