(* ===== verification/Network_Policy.thy ===== *)
theory Network_Policy
  imports Prelude
begin

text \<open>
  \<open>network_policy.cpp\<close>: when to try to join the network and when to offer the device's own
  access point. The intervals between attempts double up to a cap.
\<close>

datatype NetworkPhase =
    NetworkPhase_unprovisioned
  | NetworkPhase_connecting
  | NetworkPhase_connected
  | NetworkPhase_backoff

record network_policy =
  first_backoff_ms :: u32
  max_backoff_ms :: u32
  ap_after_failures :: u8
  np_phase :: NetworkPhase
  provisioned :: bool
  guests :: u8
  failures :: u8
  backoff_ms :: u32
  backoff_since :: u32

definition network_policy :: "u32 \<Rightarrow> u32 \<Rightarrow> u8 \<Rightarrow> network_policy" where
  "network_policy first_backoff max_backoff ap_after =
    \<lparr>first_backoff_ms = (if first_backoff = 0 then 1 else first_backoff),
     max_backoff_ms = max_backoff, ap_after_failures = ap_after,
     np_phase = NetworkPhase_unprovisioned, provisioned = False, guests = 0, failures = 0,
     backoff_ms = 0, backoff_since = 0\<rparr>"

definition set_provisioned :: "bool \<Rightarrow> network_policy \<Rightarrow> network_policy" where
  "set_provisioned p n =
    (let n = n\<lparr>provisioned := p\<rparr>
     in if \<not> p then
          n\<lparr>np_phase := NetworkPhase_unprovisioned, failures := 0, backoff_ms := 0\<rparr>
        else
          (let n = n\<lparr>failures := 0, backoff_ms := 0, backoff_since := 0\<rparr>
           in if np_phase n \<noteq> NetworkPhase_connecting \<and> np_phase n \<noteq> NetworkPhase_connected
              then n\<lparr>np_phase := NetworkPhase_backoff\<rparr> else n))"

definition set_guest_count :: "u8 \<Rightarrow> network_policy \<Rightarrow> network_policy" where
  "set_guest_count g n = n\<lparr>guests := g\<rparr>"

definition on_attempt_started :: "u32 \<Rightarrow> network_policy \<Rightarrow> network_policy" where
  "on_attempt_started now n =
    (if \<not> provisioned n then n else n\<lparr>np_phase := NetworkPhase_connecting\<rparr>)"

definition on_connected :: "network_policy \<Rightarrow> network_policy" where
  "on_connected n = n\<lparr>np_phase := NetworkPhase_connected, failures := 0, backoff_ms := 0\<rparr>"

definition next_backoff :: "network_policy \<Rightarrow> u32" where
  "next_backoff n =
    (if backoff_ms n = 0 then first_backoff_ms n
     else if backoff_ms n < max_backoff_ms n then
       (let doubled = backoff_ms n * 2
        in if doubled < backoff_ms n \<or> doubled > max_backoff_ms n then max_backoff_ms n
           else doubled)
     else backoff_ms n)"

definition on_failed :: "u32 \<Rightarrow> network_policy \<Rightarrow> network_policy" where
  "on_failed now n =
    (if \<not> provisioned n then n
     else
       (let n = (if failures n < 255 then n\<lparr>failures := failures n + 1\<rparr> else n);
            n = n\<lparr>backoff_ms := next_backoff n\<rparr>
        in n\<lparr>backoff_since := now, np_phase := NetworkPhase_backoff\<rparr>))"

definition should_attempt :: "u32 \<Rightarrow> network_policy \<Rightarrow> bool" where
  "should_attempt now n =
    (if \<not> provisioned n \<or> np_phase n = NetworkPhase_connecting
        \<or> np_phase n = NetworkPhase_connected then False
     else if guests n > 0 \<and> failures n > 0 then False
     else elapsed (backoff_since n) now \<ge> backoff_ms n)"

definition wait_remaining_ms :: "u32 \<Rightarrow> network_policy \<Rightarrow> u32" where
  "wait_remaining_ms now n =
    (if should_attempt now n then 0
     else let waited = elapsed (backoff_since n) now
          in if waited \<ge> backoff_ms n then 0 else backoff_ms n - waited)"

definition should_open_access_point :: "network_policy \<Rightarrow> bool" where
  "should_open_access_point n =
    (if \<not> provisioned n then True
     else if np_phase n = NetworkPhase_connected then False
     else failures n \<ge> ap_after_failures n)"

section \<open>The invariant of the policy\<close>

definition policy_invar :: "network_policy \<Rightarrow> bool" where
  "policy_invar n \<longleftrightarrow>
    first_backoff_ms n \<noteq> 0 \<and>
    (\<not> provisioned n \<longrightarrow> np_phase n \<in> {NetworkPhase_unprovisioned, NetworkPhase_connected}
       \<and> failures n = 0 \<and> backoff_ms n = 0) \<and>
    (provisioned n \<longrightarrow> np_phase n \<noteq> NetworkPhase_unprovisioned) \<and>
    (failures n = 0 \<longleftrightarrow> backoff_ms n = 0)"

lemma next_backoff_nonzero:
  "first_backoff_ms n \<noteq> 0 \<Longrightarrow> next_backoff n \<noteq> 0"
proof (cases "backoff_ms n = 0")
  case False
  assume "first_backoff_ms n \<noteq> 0"
  have "\<not> x < backoff_ms n \<Longrightarrow> x \<noteq> 0" for x using False by (auto simp: word_gt_0)
  with False show ?thesis by (auto simp: next_backoff_def Let_def)
qed (simp add: next_backoff_def)

lemma policy_invar_new [invariant_rules]: "policy_invar (network_policy a b c)"
  by (simp add: policy_invar_def network_policy_def)

lemma policy_invar_set_provisioned [invariant_rules]:
  "policy_invar n \<Longrightarrow> policy_invar (set_provisioned p n)"
  by (cases "np_phase n") (auto simp: policy_invar_def set_provisioned_def Let_def)

lemma policy_invar_guests [invariant_rules]:
  "policy_invar n \<Longrightarrow> policy_invar (set_guest_count g n)"
  by (simp add: policy_invar_def set_guest_count_def)

lemma policy_invar_attempt [invariant_rules]:
  "policy_invar n \<Longrightarrow> policy_invar (on_attempt_started now n)"
  by (simp add: policy_invar_def on_attempt_started_def)

lemma policy_invar_connected [invariant_rules]:
  "policy_invar n \<Longrightarrow> policy_invar (on_connected n)"
  by (simp add: policy_invar_def on_connected_def)

lemma failures_step_nonzero:
  "(if f < 255 then f + 1 else f) \<noteq> (0 :: u8)"
proof (cases "f < 255")
  case True
  then have "unat (f + 1) = Suc (unat f)"
    by (simp add: unat_plus_simple word_le_nat_alt word_less_nat_alt unat_word_ariths)
  with True show ?thesis by auto
next
  case False
  then show ?thesis by auto
qed

lemma next_backoff_failures [simp]: "next_backoff (n\<lparr>failures := f\<rparr>) = next_backoff n"
  by (simp add: next_backoff_def Let_def)

lemma on_failed_provisioned:
  "provisioned n \<Longrightarrow>
   on_failed now n = n\<lparr>failures := (if failures n < 255 then failures n + 1 else failures n),
     backoff_ms := next_backoff n, backoff_since := now, np_phase := NetworkPhase_backoff\<rparr>"
  by (simp add: on_failed_def Let_def)

lemma policy_invar_failed [invariant_rules]:
  "policy_invar n \<Longrightarrow> policy_invar (on_failed now n)"
proof (cases "provisioned n")
  case True
  assume i: "policy_invar n"
  then have "next_backoff n \<noteq> 0" by (simp add: policy_invar_def next_backoff_nonzero)
  with True i failures_step_nonzero [of "failures n"] show ?thesis
    by (simp add: on_failed_provisioned policy_invar_def)
qed (simp add: on_failed_def)

section \<open>The intervals\<close>

text \<open>The \<open>k\<close>-th failure since the count was last reset waits \<open>first * 2 ^ (k - 1)\<close>, capped.\<close>

definition backoff_after :: "network_policy \<Rightarrow> nat \<Rightarrow> nat" where
  "backoff_after n k =
    (if k = 0 then 0
     else min (unat (first_backoff_ms n) * 2 ^ (k - 1)) (unat (max_backoff_ms n)))"

lemma next_backoff_doubles:
  assumes "first_backoff_ms n \<noteq> 0" and "first_backoff_ms n \<le> max_backoff_ms n"
    and "unat (backoff_ms n) = backoff_after n k"
  shows "unat (next_backoff n) = backoff_after n (Suc k)"
proof (cases k)
  case 0
  then have "backoff_ms n = 0"
    using assms(3) by (simp add: backoff_after_def unat_eq_zero)
  with 0 assms show ?thesis
    by (simp add: next_backoff_def backoff_after_def word_le_nat_alt min_def)
next
  case (Suc j)
  let ?b = "unat (backoff_ms n)" and ?f = "unat (first_backoff_ms n)"
    and ?m = "unat (max_backoff_ms n)"
  have b: "?b = min (?f * 2 ^ j) ?m" using assms(3) Suc by (simp add: backoff_after_def)
  have f: "0 < ?f" using assms(1) by (simp add: word_gt_0 unat_gt_0)
  have nz: "backoff_ms n \<noteq> 0"
    using b f assms(2) by (auto simp: word_le_nat_alt min_def split: if_splits)
  have goal: "backoff_after n (Suc k) = min (2 * (?f * 2 ^ j)) ?m"
    using Suc by (simp add: backoff_after_def)
  show ?thesis
  proof (cases "?b < ?m")
    case lt: True
    then have e: "?b = ?f * 2 ^ j" using b by simp
    have mm: "?m < 2 ^ 32" and bb: "?b < 2 ^ 32"
      using unsigned_less [of "max_backoff_ms n"] unsigned_less [of "backoff_ms n"] by simp_all
    have d: "unat (backoff_ms n * 2) = (2 * ?b) mod 2 ^ 32"
      by (simp add: unat_word_ariths mult.commute)
    show ?thesis
    proof (cases "2 * ?b < 2 ^ 32")
      case True
      then have "unat (backoff_ms n * 2) = 2 * ?b" using d by simp
      with lt nz goal e show ?thesis
        by (auto simp: next_backoff_def Let_def word_less_nat_alt min_def)
    next
      case False
      then have "unat (backoff_ms n * 2) = 2 * ?b - 2 ^ 32"
        using d bb by (simp add: mod_if)
      then have "backoff_ms n * 2 < backoff_ms n" using bb False by (simp add: word_less_nat_alt)
      with lt nz goal e False mm show ?thesis
        by (simp add: next_backoff_def Let_def word_less_nat_alt min_def)
    qed
  next
    case False
    with b nz goal show ?thesis
      by (auto simp: next_backoff_def word_less_nat_alt min_def)
  qed
qed

primrec fail_times :: "(nat \<Rightarrow> u32) \<Rightarrow> nat \<Rightarrow> network_policy \<Rightarrow> network_policy" where
  "fail_times at 0 n = n"
| "fail_times at (Suc k) n = on_failed (at k) (on_attempt_started (at k) (fail_times at k n))"

lemma fail_times_invariant:
  "provisioned n \<Longrightarrow>
   provisioned (fail_times at k n) \<and> first_backoff_ms (fail_times at k n) = first_backoff_ms n
   \<and> max_backoff_ms (fail_times at k n) = max_backoff_ms n \<and> guests (fail_times at k n) = guests n
   \<and> ap_after_failures (fail_times at k n) = ap_after_failures n"
  by (induction k) (simp_all add: on_attempt_started_def on_failed_provisioned)

lemma fail_times_backoff:
  assumes "provisioned n" and "first_backoff_ms n \<noteq> 0"
    and "first_backoff_ms n \<le> max_backoff_ms n" and "backoff_ms n = 0"
  shows "unat (backoff_ms (fail_times at k n)) = backoff_after n k"
proof (induction k)
  case 0
  then show ?case using assms by (simp add: backoff_after_def)
next
  case (Suc k)
  let ?m = "fail_times at k n"
  have "unat (next_backoff ?m) = backoff_after ?m (Suc k)"
    using assms fail_times_invariant [OF assms(1), of at k] Suc
    by (intro next_backoff_doubles) (auto simp: backoff_after_def)
  moreover have "next_backoff (?m\<lparr>np_phase := NetworkPhase_connecting\<rparr>) = next_backoff ?m"
    by (simp add: next_backoff_def Let_def)
  ultimately show ?case
    using fail_times_invariant [OF assms(1), of at k] assms(1)
    by (simp add: on_attempt_started_def on_failed_provisioned backoff_after_def)
qed

lemma fail_times_failures:
  assumes "provisioned n" and "failures n = 0"
  shows "unat (failures (fail_times at k n)) = min k 255"
proof (induction k)
  case (Suc k)
  have "unat ((if f < 255 then f + 1 else f) :: u8) = min (Suc (unat f)) 255" for f
  proof -
    have "unat f < 2 ^ 8" using unsigned_less [of f] by simp
    then show ?thesis by (auto simp: word_less_nat_alt unat_word_ariths min_def)
  qed
  from this [of "failures (fail_times at k n)"] Suc fail_times_invariant [OF assms(1), of at k]
  show ?case
    by (simp add: on_attempt_started_def on_failed_provisioned split: if_splits)
qed (simp add: assms)

lemma wait_remaining_reaches:
  assumes "provisioned n" and "np_phase n = NetworkPhase_backoff" and "guests n = 0"
    and "waited = elapsed (backoff_since n) now"
  shows "should_attempt now n \<longleftrightarrow> backoff_ms n \<le> waited"
    and "wait_remaining_ms now n = (if backoff_ms n \<le> waited then 0 else backoff_ms n - waited)"
  using assms by (auto simp: should_attempt_def wait_remaining_ms_def Let_def)

text \<open>A device that cannot be reached over a network always ends up offering its own.\<close>

lemma access_point_when_failing:
  assumes "provisioned n" and "failures n = 0" and "0 < k"
    and "unat (ap_after_failures n) \<le> min k 255"
  shows "should_open_access_point (fail_times at k n)"
proof -
  obtain j where k: "k = Suc j" using assms(3) by (cases k) auto
  have "np_phase (fail_times at k n) = NetworkPhase_backoff"
    using fail_times_invariant [OF assms(1), of at j]
    by (simp add: k on_attempt_started_def on_failed_provisioned)
  then show ?thesis
    using assms fail_times_invariant [OF assms(1), of at k] fail_times_failures [of n at k]
    by (simp add: should_open_access_point_def word_le_nat_alt)
qed

section \<open>Properties\<close>

text \<open>Attempts that keep failing wait twice as long each time, from the first wait up to the
  longest, without the doubling ever wrapping around, and are counted without wrapping either.\<close>
theorem backoff_doubles_to_limit:
  assumes "provisioned n" and "policy_invar n" and "failures n = 0"
    and "first_backoff_ms n \<le> max_backoff_ms n"
  shows "unat (backoff_ms (fail_times at k n)) =
      (if k = 0 then 0 else min (unat (first_backoff_ms n) * 2 ^ (k - 1)) (unat (max_backoff_ms n))) \<and>
    unat (failures (fail_times at k n)) = min k 255"
  using fail_times_backoff [of n at k] fail_times_failures [of n at k] assms
  by (simp add: backoff_after_def policy_invar_def)

lemma backoff_doubles_to_limit_witness:
  "unat (backoff_ms (fail_times (\<lambda>i. of_nat i * 5000) 4 (set_provisioned True (network_policy 1000 60000 3)))) = 8000"
proof -
  let ?n = "set_provisioned True (network_policy 1000 60000 3)"
  have inv: "policy_invar ?n" by (intro invariant_rules)
  have "provisioned ?n" "failures ?n = 0" "first_backoff_ms ?n = 1000" "max_backoff_ms ?n = 60000"
    by (simp_all add: set_provisioned_def network_policy_def Let_def)
  with backoff_doubles_to_limit [OF _ inv, of "\<lambda>i. of_nat i * 5000" 4] show ?thesis
    by (simp add: word_le_nat_alt)
qed

datatype policy_event =
    Policy_provisioned bool
  | Policy_guests u8
  | Policy_attempt u32
  | Policy_connected
  | Policy_failed u32

fun policy_step :: "policy_event \<Rightarrow> network_policy \<Rightarrow> network_policy" where
  "policy_step (Policy_provisioned p) n = set_provisioned p n"
| "policy_step (Policy_guests g) n = set_guest_count g n"
| "policy_step (Policy_attempt now) n = on_attempt_started now n"
| "policy_step Policy_connected n = on_connected n"
| "policy_step (Policy_failed now) n = on_failed now n"

lemma policy_run_invar: "policy_invar n \<Longrightarrow> policy_invar (fold policy_step events n)"
proof (induction events arbitrary: n)
  case (Cons event events)
  have "policy_invar (policy_step event n)"
    using Cons.prems by (cases event) (auto intro: invariant_rules)
  with Cons.IH show ?case by simp
qed simp

text \<open>After any sequence of events the policy is consistent: it has failures exactly when it has a
  wait, it is idle exactly when unprovisioned unless connected, it attempts only when provisioned and
  neither connecting nor connected, and then it has nothing left to wait.\<close>
theorem policy_consistent:
  assumes "n = fold policy_step events (network_policy first longest ap_after)"
  shows "(failures n = 0 \<longleftrightarrow> backoff_ms n = 0) \<and>
    (np_phase n = NetworkPhase_unprovisioned \<longleftrightarrow> \<not> provisioned n \<and> np_phase n \<noteq> NetworkPhase_connected) \<and>
    (if should_attempt now n then provisioned n \<and> np_phase n = NetworkPhase_backoff \<and> wait_remaining_ms now n = 0
     else True) \<and>
    (if provisioned n then True else should_open_access_point n \<and> failures n = 0)"
  using policy_run_invar [OF policy_invar_new, of events first longest ap_after] assms
  by (cases "np_phase n")
    (auto simp: policy_invar_def should_attempt_def wait_remaining_ms_def should_open_access_point_def)

lemma policy_consistent_witness:
  "should_attempt 7000 (fold policy_step [Policy_provisioned True, Policy_attempt 0, Policy_failed 5000]
     (network_policy 1000 60000 3)) \<and>
   wait_remaining_ms 7000 (fold policy_step [Policy_provisioned True, Policy_attempt 0, Policy_failed 5000]
     (network_policy 1000 60000 3)) = 0"
proof -
  let ?n = "fold policy_step [Policy_provisioned True, Policy_attempt 0, Policy_failed 5000]
    (network_policy 1000 60000 3)"
  have "should_attempt 7000 ?n" by code_simp
  with policy_consistent [OF refl, of "[Policy_provisioned True, Policy_attempt 0, Policy_failed 5000]"
    1000 60000 3 7000] show ?thesis by presburger
qed

end
