(* ===== verification/Board_Profile.thy ===== *)
theory Board_Profile
  imports Prelude
begin

text \<open>
  \<open>stackchan_board/profile\<close>: the pins of the module, and which use of a pin a configuration
  allows. The three pin sets are disjoint, so every pin has one answer per configuration.
\<close>

datatype DisplayRevision =
    DisplayRevision_unknown
  | DisplayRevision_gc9107
  | DisplayRevision_st7735

datatype BottomHeaderUsage =
    BottomHeaderUsage_unused
  | BottomHeaderUsage_voice_base
  | BottomHeaderUsage_application

datatype GroveUsage =
    GroveUsage_unused
  | GroveUsage_i2c
  | GroveUsage_servo_pwm
  | GroveUsage_uart

datatype PinClaimResult =
    PinClaimResult_ok
  | PinClaimResult_reserved_by_board
  | PinClaimResult_already_claimed
  | PinClaimResult_not_exposed

record board_profile =
  display_revision :: DisplayRevision
  bottom_header :: BottomHeaderUsage
  grove :: GroveUsage

definition board_profile_default :: board_profile where
  "board_profile_default =
    \<lparr>display_revision = DisplayRevision_unknown, bottom_header = BottomHeaderUsage_unused,
     grove = GroveUsage_unused\<rparr>"

definition kGroveGpio :: "int list" where
  "kGroveGpio = [1, 2]"

definition kBottomGpio :: "int list" where
  "kBottomGpio = [5, 6, 7, 8, 38, 39]"

definition kBoardReservedGpio :: "int list" where
  "kBoardReservedGpio = [0, 45, 47, 41, 48, 42, 21, 15, 14, 19, 20, 43]"

definition is_exposed_gpio :: "int \<Rightarrow> bool" where
  "is_exposed_gpio gpio \<longleftrightarrow> gpio \<in> set kGroveGpio \<or> gpio \<in> set kBottomGpio"

definition is_board_reserved_gpio :: "int \<Rightarrow> bool" where
  "is_board_reserved_gpio gpio \<longleftrightarrow> gpio \<in> set kBoardReservedGpio"

definition claim_gpio :: "board_profile \<Rightarrow> int \<Rightarrow> GroveUsage \<Rightarrow> PinClaimResult" where
  "claim_gpio profile gpio intent =
    (if is_board_reserved_gpio gpio then PinClaimResult_reserved_by_board
     else if \<not> is_exposed_gpio gpio then PinClaimResult_not_exposed
     else if gpio \<in> set kBottomGpio
     then (if bottom_header profile = BottomHeaderUsage_voice_base
           then PinClaimResult_already_claimed else PinClaimResult_ok)
     else if grove profile = GroveUsage_unused then PinClaimResult_ok
     else if grove profile = intent then PinClaimResult_ok
     else PinClaimResult_already_claimed)"

definition has_known_display :: "board_profile \<Rightarrow> bool" where
  "has_known_display profile \<longleftrightarrow> display_revision profile \<noteq> DisplayRevision_unknown"

definition validate :: "board_profile \<Rightarrow> string option" where
  "validate profile =
    (if \<not> has_known_display profile
     then Some ''display revision is unknown; GC9107 and ST7735 units both exist''
     else None)"

lemmas pin_sets = kGroveGpio_def kBottomGpio_def kBoardReservedGpio_def

lemma pins_disjoint:
  "set kGroveGpio \<inter> set kBottomGpio = {}"
  "(set kGroveGpio \<union> set kBottomGpio) \<inter> set kBoardReservedGpio = {}"
  by (simp_all add: pin_sets)

text \<open>No grant ever touches a pin the board holds, a bottom pin under the Voice Base, or a Grove pin
  that carries something else.\<close>

lemma claim_gpio_ok_iff:
  "claim_gpio profile gpio intent = PinClaimResult_ok \<longleftrightarrow>
    gpio \<in> set kBottomGpio \<and> bottom_header profile \<noteq> BottomHeaderUsage_voice_base \<or>
    gpio \<in> set kGroveGpio \<and> (grove profile = GroveUsage_unused \<or> grove profile = intent)"
  using pins_disjoint
  by (auto simp: claim_gpio_def is_exposed_gpio_def is_board_reserved_gpio_def)

text \<open>Two claims of one Grove pin that are both granted, the second after the first took the
  connector, agree on its use.\<close>

lemma claim_gpio_exclusive:
  "gpio \<in> set kGroveGpio \<Longrightarrow> a \<noteq> GroveUsage_unused \<Longrightarrow>
   claim_gpio (profile\<lparr>grove := a\<rparr>) gpio b = PinClaimResult_ok \<longleftrightarrow> a = b"
  using pins_disjoint(1) by (auto simp: claim_gpio_ok_iff)

end
