(* ===== verification/Json_Scan.thy ===== *)
theory Json_Scan
  imports Prelude
begin

text \<open>
  \<open>json_scan.cpp\<close>: reading envelopes by scanning. Every scanner takes the text and an index and
  yields \<open>None\<close> (the \<open>false\<close> of the code, after which the callers never look at the index again)
  or the index past what it scanned with the extent it found.

  The checked family recurses through \<open>skip_checked_value\<close>, which refuses at
  \<open>kMaxCheckedJsonDepth\<close>: it is defined by recursion on the levels that remain. The member and
  element loops run on fuel; a round consumes at least one character, so the length of the text
  is enough (\<open>object_loop_fuel\<close>, \<open>array_loop_fuel\<close>, \<open>find_loop_fuel\<close>).
\<close>

datatype ValueKind =
    ValueKind_string
  | ValueKind_number
  | ValueKind_boolean
  | ValueKind_null
  | ValueKind_object
  | ValueKind_array

abbreviation quote :: char where "quote \<equiv> CHR 0x22"
abbreviation backslash :: char where "backslash \<equiv> CHR 0x5C"

type_synonym span = "nat \<times> string"
type_synonym kind_span = "nat \<times> string \<times> ValueKind"

definition is_ws :: "char \<Rightarrow> bool" where
  "is_ws c \<longleftrightarrow> c = CHR '' '' \<or> c = CHR 0x09 \<or> c = CHR 0x0A \<or> c = CHR 0x0D"

text \<open>The loops of the form \<open>while (i < s.size() && p(s[i])) ++i\<close>.\<close>

function skip_while :: "(char \<Rightarrow> bool) \<Rightarrow> string \<Rightarrow> nat \<Rightarrow> nat" where
  "skip_while p s i = (if i < length s \<and> p (s ! i) then skip_while p s (Suc i) else i)"
  by pat_completeness auto
termination by (relation "measure (\<lambda>(p, s, i). length s - i)") auto

declare skip_while.simps [simp del]

definition eat_ws :: "string \<Rightarrow> nat \<Rightarrow> nat" where
  "eat_ws s i = skip_while is_ws s i"

section \<open>The lenient scanners\<close>

function skip_string_from :: "string \<Rightarrow> nat \<Rightarrow> nat \<Rightarrow> span option" where
  "skip_string_from s start i =
    (if i < length s then
       (if s ! i = backslash then skip_string_from s start (i + 2)
        else if s ! i = quote then Some (i + 1, slice s start i)
        else skip_string_from s start (i + 1))
     else None)"
  by pat_completeness auto
termination by (relation "measure (\<lambda>(s, start, i). length s - i)") auto

declare skip_string_from.simps [simp del]

definition skip_string :: "string \<Rightarrow> nat \<Rightarrow> span option" where
  "skip_string s i = skip_string_from s (i + 1) (i + 1)"

lemma skip_string_from_progress:
  "skip_string_from s start i = Some (j, raw) \<Longrightarrow> i < j \<and> j \<le> length s"
proof (induction s start i rule: skip_string_from.induct)
  case (1 s start i)
  from "1.prems" show ?case
    by (subst (asm) skip_string_from.simps) (auto split: if_splits dest: "1.IH")
qed

lemma skip_string_progress: "skip_string s i = Some (j, raw) \<Longrightarrow> i < j \<and> j \<le> length s"
  unfolding skip_string_def by (drule skip_string_from_progress) simp

text \<open>From \<open>{\<close> or \<open>[\<close> to the bracket that brings the depth back to 0.\<close>

function skip_container_from :: "string \<Rightarrow> nat \<Rightarrow> nat \<Rightarrow> nat \<Rightarrow> span option" where
  "skip_container_from s start depth i =
    (if i < length s then
       (let b = s ! i in
        if b = quote then
          (case skip_string s i of
             None \<Rightarrow> None
           | Some (j, _) \<Rightarrow> skip_container_from s start depth j)
        else if b = CHR 0x7B \<or> b = CHR 0x5B then skip_container_from s start (depth + 1) (i + 1)
        else if b = CHR 0x7D \<or> b = CHR 0x5D then
          (if depth - 1 = 0 then Some (i + 1, slice s start (i + 1))
           else skip_container_from s start (depth - 1) (i + 1))
        else skip_container_from s start depth (i + 1))
     else None)"
  by pat_completeness auto
termination
  by (relation "measure (\<lambda>(s, start, depth, i). length s - i)")
    (auto dest!: skip_string_progress)

declare skip_container_from.simps [simp del]

definition skip_container :: "string \<Rightarrow> nat \<Rightarrow> span option" where
  "skip_container s i = skip_container_from s i 0 i"

definition is_number_char :: "char \<Rightarrow> bool" where
  "is_number_char d \<longleftrightarrow>
    is_digit d \<or> d = CHR ''.'' \<or> d = CHR ''e'' \<or> d = CHR ''E'' \<or> d = CHR ''+'' \<or> d = CHR ''-''"

definition skip_number :: "string \<Rightarrow> nat \<Rightarrow> span option" where
  "skip_number s start =
    (let i = skip_while is_number_char s (start + 1) in Some (i, slice s start i))"

definition keyword_starting_with :: "char \<Rightarrow> string" where
  "keyword_starting_with c =
    (if c = CHR ''t'' then ''true'' else if c = CHR ''f'' then ''false'' else ''null'')"

definition skip_keyword :: "string \<Rightarrow> nat \<Rightarrow> kind_span option" where
  "skip_keyword s i =
    (let c = s ! i;
         word = keyword_starting_with c
     in if substr s i (length word) \<noteq> word then None
        else Some (i + length word, substr s i (length word),
                   if c = CHR ''n'' then ValueKind_null else ValueKind_boolean))"

definition with_kind :: "ValueKind \<Rightarrow> span option \<Rightarrow> kind_span option" where
  "with_kind k r = map_option (\<lambda>(i, text). (i, text, k)) r"

definition skip_value :: "string \<Rightarrow> nat \<Rightarrow> kind_span option" where
  "skip_value s i =
    (if i \<ge> length s then None
     else
       (let c = s ! i in
        if c = quote then with_kind ValueKind_string (skip_string s i)
        else if c = CHR 0x7B \<or> c = CHR 0x5B then
          with_kind (if c = CHR 0x7B then ValueKind_object else ValueKind_array) (skip_container s i)
        else if c = CHR ''t'' \<or> c = CHR ''f'' \<or> c = CHR ''n'' then skip_keyword s i
        else if c = CHR ''-'' \<or> is_digit c then with_kind ValueKind_number (skip_number s i)
        else None))"

text \<open>The member loop of \<open>find_member\<close>, from the state in which \<open>i\<close> is past the brace.\<close>

fun find_loop :: "nat \<Rightarrow> string \<Rightarrow> string \<Rightarrow> nat \<Rightarrow> (string \<times> ValueKind) option" where
  "find_loop 0 object wanted i = None"
| "find_loop (Suc fuel) object wanted i =
    (if i < length object then
       (let i = skip_while (\<lambda>c. is_ws c \<or> c = CHR '','') object i in
        if i < length object \<and> object ! i = CHR 0x7D then None
        else if i \<ge> length object \<or> object ! i \<noteq> quote then None
        else case skip_string object i of
          None \<Rightarrow> None
        | Some (i, member_key) \<Rightarrow>
            (let i = eat_ws object i in
             if i \<ge> length object \<or> object ! i \<noteq> CHR '':'' then None
             else case skip_value object (eat_ws object (i + 1)) of
               None \<Rightarrow> None
             | Some (i, found, k) \<Rightarrow>
                 if member_key = wanted then Some (found, k)
                 else find_loop fuel object wanted i))
     else None)"

definition find_member :: "string \<Rightarrow> string \<Rightarrow> (string \<times> ValueKind) option" where
  "find_member object wanted =
    (let i = eat_ws object 0 in
     if i \<ge> length object \<or> object ! i \<noteq> CHR 0x7B then None
     else find_loop (length object) object wanted (i + 1))"

definition json_find_raw_string :: "string \<Rightarrow> string \<Rightarrow> string option" where
  "json_find_raw_string object wanted =
    (case find_member object wanted of
       Some (found, ValueKind_string) \<Rightarrow> Some found
     | _ \<Rightarrow> None)"

definition json_find_object :: "string \<Rightarrow> string \<Rightarrow> string option" where
  "json_find_object object wanted =
    (case find_member object wanted of
       Some (found, ValueKind_object) \<Rightarrow> Some found
     | _ \<Rightarrow> None)"

definition json_find_bool :: "string \<Rightarrow> string \<Rightarrow> bool option" where
  "json_find_bool object wanted =
    (case find_member object wanted of
       Some (found, ValueKind_boolean) \<Rightarrow> Some (found = ''true'')
     | _ \<Rightarrow> None)"

text \<open>
  \<open>json_find_integer\<close> accumulates in \<open>int64_t\<close>. The signed multiplication and addition overflow
  without a check, which C++ leaves undefined: the model makes that an outcome of its own.
\<close>

datatype integer_result = Int_absent | Int_found int | Int_undefined

definition in_int64 :: "int \<Rightarrow> bool" where
  "in_int64 v \<longleftrightarrow> - (2 ^ 63) \<le> v \<and> v < 2 ^ 63"

fun integer_digits :: "string \<Rightarrow> int \<Rightarrow> integer_result" where
  "integer_digits [] v = Int_found v"
| "integer_digits (c # cs) v =
    (if \<not> is_digit c then Int_absent
     else if \<not> in_int64 (v * 10) \<or> \<not> in_int64 (v * 10 + int (digit_value c)) then Int_undefined
     else integer_digits cs (v * 10 + int (digit_value c)))"

definition integer_of_span :: "string \<Rightarrow> integer_result" where
  "integer_of_span found =
    (let negative = (found \<noteq> [] \<and> hd found = CHR ''-'');
         digits = (if negative then tl found else found)
     in if digits = [] then Int_absent
        else case integer_digits digits 0 of
               Int_found v \<Rightarrow> Int_found (if negative then - v else v)
             | r \<Rightarrow> r)"

definition json_find_integer :: "string \<Rightarrow> string \<Rightarrow> integer_result" where
  "json_find_integer object wanted =
    (case find_member object wanted of
       Some (found, ValueKind_number) \<Rightarrow> integer_of_span found
     | _ \<Rightarrow> Int_absent)"

definition unescaped_char :: "char \<Rightarrow> char option" where
  "unescaped_char e =
    (if e = quote then Some quote
     else if e = backslash then Some backslash
     else if e = CHR 0x2F then Some (CHR 0x2F)
     else if e = CHR ''b'' then Some (CHR 0x08)
     else if e = CHR ''f'' then Some (CHR 0x0C)
     else if e = CHR ''n'' then Some (CHR 0x0A)
     else if e = CHR ''r'' then Some (CHR 0x0D)
     else if e = CHR ''t'' then Some (CHR 0x09)
     else None)"

text \<open>The loop of \<open>json_unescape\<close> on what remains of \<open>raw\<close>; \<open>out\<close> is what has been written.\<close>

fun unescape_loop :: "nat \<Rightarrow> string \<Rightarrow> string \<Rightarrow> string \<times> bool" where
  "unescape_loop capacity [] out = (out, True)"
| "unescape_loop capacity (c # rest) out =
    (if c = backslash then
       (case rest of
          [] \<Rightarrow> (out, False)
        | e # rest' \<Rightarrow>
            (case unescaped_char e of
               None \<Rightarrow> (out, False)
             | Some c \<Rightarrow>
                 if length out \<ge> capacity then (out, False)
                 else unescape_loop capacity rest' (out @ [c])))
     else if length out \<ge> capacity then (out, False)
     else unescape_loop capacity rest (out @ [c]))"

text \<open>
  The bytes at the start of \<open>out\<close> after the call, and the length returned (\<open>None\<close> for
  \<open>SIZE_MAX\<close>); \<open>present\<close> is \<open>out != nullptr\<close>.
\<close>

definition json_unescape :: "string \<Rightarrow> bool \<Rightarrow> nat \<Rightarrow> string \<times> nat option" where
  "json_unescape raw present capacity =
    (if \<not> present then ([], None)
     else let (out, ok) = unescape_loop capacity raw []
          in (out, if ok then Some (length out) else None))"

section \<open>The checked scanners\<close>

definition kMaxCheckedJsonDepth :: nat where
  "kMaxCheckedJsonDepth = 16"

definition is_hex_digit :: "char \<Rightarrow> bool" where
  "is_hex_digit c \<longleftrightarrow>
    is_digit c \<or> CHR ''a'' \<le> c \<and> c \<le> CHR ''f'' \<or> CHR ''A'' \<le> c \<and> c \<le> CHR ''F''"

definition is_simple_escape :: "char \<Rightarrow> bool" where
  "is_simple_escape e \<longleftrightarrow>
    e = quote \<or> e = backslash \<or> e = CHR 0x2F \<or> e = CHR ''b'' \<or> e = CHR ''f'' \<or> e = CHR ''n''
    \<or> e = CHR ''r'' \<or> e = CHR ''t''"

function checked_string_from :: "string \<Rightarrow> nat \<Rightarrow> bool \<Rightarrow> nat \<Rightarrow> span option" where
  "checked_string_from s start allow_unicode_escape i =
    (if i < length s then
       (let c = s ! i in
        if c < CHR 0x20 then None
        else if c = quote then Some (i + 1, slice s start i)
        else if c \<noteq> backslash then checked_string_from s start allow_unicode_escape (i + 1)
        else if i + 1 \<ge> length s then None
        else
          (let e = s ! (i + 1) in
           if is_simple_escape e then checked_string_from s start allow_unicode_escape (i + 2)
           else if e \<noteq> CHR ''u'' \<or> \<not> allow_unicode_escape \<or> i + 5 \<ge> length s then None
           else if \<not> (\<forall>digit\<in>set [i + 2..<i + 6]. is_hex_digit (s ! digit)) then None
           else checked_string_from s start allow_unicode_escape (i + 6)))
     else None)"
  by pat_completeness auto
termination by (relation "measure (\<lambda>(s, start, a, i). length s - i)") auto

declare checked_string_from.simps [simp del]

definition skip_checked_string :: "string \<Rightarrow> nat \<Rightarrow> bool \<Rightarrow> span option" where
  "skip_checked_string s i allow_unicode_escape =
    (if i \<ge> length s \<or> s ! i \<noteq> quote then None
     else checked_string_from s (i + 1) allow_unicode_escape (i + 1))"

definition digit_at :: "string \<Rightarrow> nat \<Rightarrow> bool" where
  "digit_at s i \<longleftrightarrow> i < length s \<and> is_digit (s ! i)"

text \<open>The integer part, the fraction and the exponent, each from the index it starts at.\<close>

definition checked_integer_part :: "string \<Rightarrow> nat \<Rightarrow> nat option" where
  "checked_integer_part s i =
    (if i \<ge> length s then None
     else if s ! i = CHR ''0'' then (if digit_at s (i + 1) then None else Some (i + 1))
     else if s ! i < CHR ''1'' \<or> s ! i > CHR ''9'' then None
     else Some (skip_while is_digit s i))"

definition checked_fraction :: "string \<Rightarrow> nat \<Rightarrow> nat option" where
  "checked_fraction s i =
    (if i < length s \<and> s ! i = CHR ''.'' then
       (if \<not> digit_at s (i + 1) then None else Some (skip_while is_digit s (i + 1)))
     else Some i)"

definition checked_exponent :: "string \<Rightarrow> nat \<Rightarrow> nat option" where
  "checked_exponent s i =
    (if i < length s \<and> (s ! i = CHR ''e'' \<or> s ! i = CHR ''E'') then
       (let i = i + 1;
            i = (if i < length s \<and> (s ! i = CHR ''+'' \<or> s ! i = CHR ''-'') then i + 1 else i)
        in if \<not> digit_at s i then None else Some (skip_while is_digit s i))
     else Some i)"

definition skip_checked_number :: "string \<Rightarrow> nat \<Rightarrow> span option" where
  "skip_checked_number s start =
    (let i = (if start < length s \<and> s ! start = CHR ''-'' then start + 1 else start) in
     case checked_integer_part s i of
       None \<Rightarrow> None
     | Some i \<Rightarrow>
         (case checked_fraction s i of
            None \<Rightarrow> None
          | Some i \<Rightarrow>
              (case checked_exponent s i of
                 None \<Rightarrow> None
               | Some i \<Rightarrow> Some (i, slice s start i))))"

text \<open>
  \<open>value\<close> stands for \<open>skip_checked_value\<close> at the level the caller passes on; its first argument
  is \<open>check_duplicates\<close>.
\<close>

type_synonym value_scanner = "bool \<Rightarrow> string \<Rightarrow> nat \<Rightarrow> kind_span option"

text \<open>\<open>True\<close>: the key appeared before, or the prefix could not be walked.\<close>

fun appeared_loop :: "value_scanner \<Rightarrow> nat \<Rightarrow> string \<Rightarrow> nat \<Rightarrow> string \<Rightarrow> nat \<Rightarrow> bool" where
  "appeared_loop val 0 object before name i = True"
| "appeared_loop val (Suc fuel) object before name i =
    (if i < before then
       (case skip_checked_string object i False of
          None \<Rightarrow> True
        | Some (i, earlier_key) \<Rightarrow>
            if earlier_key = name then True
            else
              (let i = eat_ws object i in
               if i \<ge> before \<or> object ! i \<noteq> CHR '':'' then True
               else case val False object (eat_ws object (i + 1)) of
                 None \<Rightarrow> True
               | Some (i, _, _) \<Rightarrow>
                   (let i = eat_ws object i in
                    if i \<ge> before then i \<noteq> before
                    else if object ! i \<noteq> CHR '','' then True
                    else appeared_loop val fuel object before name (eat_ws object (i + 1)))))
     else i \<noteq> before)"

definition checked_key_appeared_before ::
  "value_scanner \<Rightarrow> string \<Rightarrow> nat \<Rightarrow> nat \<Rightarrow> string \<Rightarrow> bool" where
  "checked_key_appeared_before val object object_start before name =
    (if object_start \<ge> length object \<or> object ! object_start \<noteq> CHR 0x7B then True
     else appeared_loop val (Suc (length object)) object before name
            (eat_ws object (object_start + 1)))"

fun object_loop ::
  "value_scanner \<Rightarrow> bool \<Rightarrow> nat \<Rightarrow> string \<Rightarrow> nat \<Rightarrow> nat \<Rightarrow> span option" where
  "object_loop val check_duplicates 0 s start i = None"
| "object_loop val check_duplicates (Suc fuel) s start i =
    (if i < length s then
       (case skip_checked_string s i False of
          None \<Rightarrow> None
        | Some (j, member_key) \<Rightarrow>
            if check_duplicates \<and> checked_key_appeared_before val s start i member_key then None
            else
              (let j = eat_ws s j in
               if j \<ge> length s \<or> s ! j \<noteq> CHR '':'' then None
               else case val check_duplicates s (eat_ws s (j + 1)) of
                 None \<Rightarrow> None
               | Some (j, _, _) \<Rightarrow>
                   (let j = eat_ws s j in
                    if j \<ge> length s then None
                    else if s ! j = CHR 0x7D then Some (j + 1, slice s start (j + 1))
                    else if s ! j \<noteq> CHR '','' then None
                    else
                      (let j = eat_ws s (j + 1) in
                       if j \<ge> length s \<or> s ! j = CHR 0x7D then None
                       else object_loop val check_duplicates fuel s start j))))
     else None)"

definition skip_checked_object :: "value_scanner \<Rightarrow> bool \<Rightarrow> string \<Rightarrow> nat \<Rightarrow> span option" where
  "skip_checked_object val check_duplicates s start =
    (let i = eat_ws s (start + 1) in
     if i < length s \<and> s ! i = CHR 0x7D then Some (i + 1, slice s start (i + 1))
     else object_loop val check_duplicates (length s) s start i)"

fun array_loop :: "value_scanner \<Rightarrow> bool \<Rightarrow> nat \<Rightarrow> string \<Rightarrow> nat \<Rightarrow> nat \<Rightarrow> span option" where
  "array_loop val check_duplicates 0 s start i = None"
| "array_loop val check_duplicates (Suc fuel) s start i =
    (if i < length s then
       (case val check_duplicates s i of
          None \<Rightarrow> None
        | Some (j, _, _) \<Rightarrow>
            (let j = eat_ws s j in
             if j \<ge> length s then None
             else if s ! j = CHR 0x5D then Some (j + 1, slice s start (j + 1))
             else if s ! j \<noteq> CHR '','' then None
             else
               (let j = eat_ws s (j + 1) in
                if j \<ge> length s \<or> s ! j = CHR 0x5D then None
                else array_loop val check_duplicates fuel s start j)))
     else None)"

definition skip_checked_array :: "value_scanner \<Rightarrow> bool \<Rightarrow> string \<Rightarrow> nat \<Rightarrow> span option" where
  "skip_checked_array val check_duplicates s start =
    (let i = eat_ws s (start + 1) in
     if i < length s \<and> s ! i = CHR 0x5D then Some (i + 1, slice s start (i + 1))
     else array_loop val check_duplicates (length s) s start i)"

text \<open>The dispatch on the first character; \<open>container\<close> is the two branches for brackets.\<close>

definition checked_value_with ::
  "(bool \<Rightarrow> string \<Rightarrow> nat \<Rightarrow> span option) \<Rightarrow> string \<Rightarrow> nat \<Rightarrow> kind_span option" where
  "checked_value_with container s i =
    (if i \<ge> length s then None
     else
       (let c = s ! i in
        if c = quote then with_kind ValueKind_string (skip_checked_string s i True)
        else if c = CHR 0x7B \<or> c = CHR 0x5B then
          with_kind (if c = CHR 0x7B then ValueKind_object else ValueKind_array)
            (container (c = CHR 0x7B) s i)
        else if c = CHR ''t'' \<or> c = CHR ''f'' \<or> c = CHR ''n'' then skip_keyword s i
        else if c = CHR ''-'' \<or> is_digit c then
          with_kind ValueKind_number (skip_checked_number s i)
        else None))"

text \<open>\<open>skip_checked_value levels\<close> is the code's at depth \<open>kMaxCheckedJsonDepth - levels\<close>.\<close>

primrec skip_checked_value :: "nat \<Rightarrow> value_scanner" where
  "skip_checked_value 0 = (\<lambda>check_duplicates. checked_value_with (\<lambda>is_object s i. None))"
| "skip_checked_value (Suc levels) =
    (\<lambda>check_duplicates. checked_value_with
       (\<lambda>is_object s i.
          if is_object then skip_checked_object (skip_checked_value levels) check_duplicates s i
          else skip_checked_array (skip_checked_value levels) check_duplicates s i))"

datatype JsonMemberResult =
    JsonMemberResult_found string
  | JsonMemberResult_missing
  | JsonMemberResult_invalid

fun find_checked_loop ::
  "nat \<Rightarrow> string \<Rightarrow> nat \<Rightarrow> string \<Rightarrow> string option \<Rightarrow> nat \<Rightarrow> JsonMemberResult" where
  "find_checked_loop 0 object object_start wanted candidate i = JsonMemberResult_invalid"
| "find_checked_loop (Suc fuel) object object_start wanted candidate i =
    (if i < length object then
       (if object ! i \<noteq> quote then JsonMemberResult_invalid
        else case skip_checked_string object i False of
          None \<Rightarrow> JsonMemberResult_invalid
        | Some (j, member_key) \<Rightarrow>
            if checked_key_appeared_before (skip_checked_value kMaxCheckedJsonDepth)
                 object object_start i member_key
            then JsonMemberResult_invalid
            else
              (let j = eat_ws object j in
               if j \<ge> length object \<or> object ! j \<noteq> CHR '':'' then JsonMemberResult_invalid
               else case skip_checked_value kMaxCheckedJsonDepth True object
                           (eat_ws object (j + 1)) of
                 None \<Rightarrow> JsonMemberResult_invalid
               | Some (j, found, k) \<Rightarrow>
                   if member_key = wanted \<and> (candidate \<noteq> None \<or> k \<noteq> ValueKind_object)
                   then JsonMemberResult_invalid
                   else
                     (let candidate = (if member_key = wanted then Some found else candidate);
                          j = eat_ws object j in
                      if j \<ge> length object then JsonMemberResult_invalid
                      else if object ! j = CHR 0x7D then
                        (if eat_ws object (j + 1) \<noteq> length object then JsonMemberResult_invalid
                         else case candidate of
                                Some c \<Rightarrow> JsonMemberResult_found c
                              | None \<Rightarrow> JsonMemberResult_missing)
                      else if object ! j \<noteq> CHR '','' then JsonMemberResult_invalid
                      else
                        (let j = eat_ws object (j + 1) in
                         if j \<ge> length object \<or> object ! j = CHR 0x7D
                         then JsonMemberResult_invalid
                         else find_checked_loop fuel object object_start wanted candidate j))))
     else JsonMemberResult_invalid)"

definition json_find_object_checked :: "string \<Rightarrow> string \<Rightarrow> JsonMemberResult" where
  "json_find_object_checked object wanted =
    (let i = eat_ws object 0 in
     if i \<ge> length object \<or> object ! i \<noteq> CHR 0x7B then JsonMemberResult_invalid
     else
       (let object_start = i;
            i = eat_ws object (i + 1) in
        if i < length object \<and> object ! i = CHR 0x7D then
          (if eat_ws object (i + 1) = length object then JsonMemberResult_missing
           else JsonMemberResult_invalid)
        else find_checked_loop (length object) object object_start wanted None i))"

section \<open>The lenient lookup moves on and ends\<close>

lemma skip_while_ge [simp]: "i \<le> skip_while p s i"
proof (induction p s i rule: skip_while.induct)
  case (1 p s i)
  then show ?case by (subst skip_while.simps) auto
qed

lemma skip_container_progress:
  "skip_container_from s start depth i = Some (j, t) \<Longrightarrow> i < j \<and> j \<le> length s"
proof (induction s start depth i rule: skip_container_from.induct)
  case (1 s start depth i)
  have i: "i < length s"
    using "1.prems" by (subst (asm) skip_container_from.simps) (auto split: if_splits)
  show ?case
  proof (cases "s ! i = quote")
    case True
    then obtain k r where k: "skip_string s i = Some (k, r)"
      and rest: "skip_container_from s start depth k = Some (j, t)"
      using "1.prems" i by (subst (asm) skip_container_from.simps) (auto simp: Let_def split: option.splits)
    from "1.IH"(1) [OF i refl True k refl rest] skip_string_progress [OF k] show ?thesis by simp
  next
    case False
    then show ?thesis
      using "1.prems" i "1.IH"(2-4) [OF i refl]
      by (subst (asm) skip_container_from.simps) (auto simp: Let_def split: if_splits)
  qed
qed

lemma skip_value_progress: "skip_value s i = Some (j, t, k) \<Longrightarrow> i < j"
proof -
  assume v: "skip_value s i = Some (j, t, k)"
  consider "skip_string s i = Some (j, t)" | "skip_container_from s i 0 i = Some (j, t)"
    | "skip_keyword s i = Some (j, t, k)" | "skip_number s i = Some (j, t)"
    using v by (auto simp: skip_value_def skip_container_def Let_def with_kind_def split: if_splits)
  then show "i < j"
  proof cases
    case 3
    then show ?thesis by (auto simp: skip_keyword_def Let_def keyword_starting_with_def split: if_splits)
  next
    case 4
    have "Suc i \<le> skip_while is_number_char s (Suc i)" by (rule skip_while_ge)
    with 4 show ?thesis by (auto simp: skip_number_def Let_def)
  qed (auto dest: skip_string_progress skip_container_progress)
qed

lemma find_loop_fuel:
  "length object - i < fuel \<Longrightarrow>
   find_loop (fuel + n) object wanted i = find_loop fuel object wanted i"
proof (induction fuel arbitrary: i)
  case (Suc fuel)
  let ?b = "skip_while (\<lambda>c. is_ws c \<or> c = CHR '','') object i"
  have "i < j" if "skip_string object ?b = Some (a, k)"
    "skip_value object (eat_ws object (Suc (eat_ws object a))) = Some (j, t, kd)" for a k j t kd
  proof -
    have "i \<le> ?b" by simp
    also have "?b < a" using skip_string_progress [OF that(1)] by simp
    also have "a \<le> eat_ws object a" by (simp add: eat_ws_def)
    also have "\<dots> < Suc (eat_ws object a)" by simp
    also have "\<dots> \<le> eat_ws object (Suc (eat_ws object a))" by (simp only: eat_ws_def skip_while_ge)
    also have "\<dots> < j" using skip_value_progress [OF that(2)] .
    finally show ?thesis .
  qed
  then have "find_loop (fuel + n) object wanted j = find_loop fuel object wanted j"
    if "skip_string object ?b = Some (a, k)" "i < length object"
      "skip_value object (eat_ws object (Suc (eat_ws object a))) = Some (j, t, kd)" for a k j t kd
    using Suc.prems that by (intro Suc.IH) fastforce
  then show ?case by (auto simp: Let_def split: option.split)
qed simp

lemma find_member_fuel:
  "find_member object wanted =
    (let i = eat_ws object 0 in
     if i \<ge> length object \<or> object ! i \<noteq> CHR 0x7B then None
     else find_loop (length object + n) object wanted (i + 1))"
proof -
  have "length object - Suc (eat_ws object 0) < length object" if "eat_ws object 0 < length object"
    using that by simp
  then show ?thesis by (simp add: find_member_def Let_def find_loop_fuel)
qed

section \<open>Unescaping stays inside the buffer\<close>

lemma unescape_loop_bounds:
  "length out \<le> capacity \<Longrightarrow>
   length (fst (unescape_loop capacity raw out)) \<le> capacity"
  by (induction capacity raw out rule: unescape_loop.induct) (auto split: list.split option.split)

lemma unescape_loop_shrinks:
  "length (fst (unescape_loop capacity raw out)) \<le> length out + length raw"
proof (induction capacity raw out rule: unescape_loop.induct)
  case (2 capacity c rest out)
  show ?case
  proof (cases "c = backslash \<and> rest \<noteq> []")
    case True
    then obtain e rest' where r: "rest = e # rest'" by (cases rest) auto
    show ?thesis
    proof (cases "unescaped_char e")
      case (Some x)
      show ?thesis using "2.IH"(1) [OF _ r Some] True Some
        by (cases "length out \<ge> capacity") (auto simp: r)
    qed (use True r in simp)
  next
    case False
    then show ?thesis using "2.IH"(2) by (cases "c = backslash") auto
  qed
qed simp

end
