(* ===== verification/Json_Grammar.thy ===== *)
theory Json_Grammar
  imports Json_Scan
begin

text \<open>
  The grammar of JSON as an inductive definition over strings, with the nesting bounded by
  levels and the members of an object distinct when asked for, and the proof that the checked
  scanners accept only texts of it.
\<close>

section \<open>The grammar\<close>

definition ws :: "string \<Rightarrow> bool" where
  "ws t \<longleftrightarrow> set t \<subseteq> Collect is_ws"

definition digits :: "string \<Rightarrow> bool" where
  "digits t \<longleftrightarrow> t \<noteq> [] \<and> set t \<subseteq> Collect is_digit"

text \<open>\<open>u\<close>: unicode escapes are allowed.\<close>

inductive jstring_body :: "bool \<Rightarrow> string \<Rightarrow> bool" where
  body_empty: "jstring_body u []"
| body_plain: "\<not> c < CHR 0x20 \<Longrightarrow> c \<noteq> quote \<Longrightarrow> c \<noteq> backslash \<Longrightarrow> jstring_body u t \<Longrightarrow>
    jstring_body u (c # t)"
| body_escape: "is_simple_escape e \<Longrightarrow> jstring_body u t \<Longrightarrow> jstring_body u (backslash # e # t)"
| body_unicode: "is_hex_digit a \<Longrightarrow> is_hex_digit b \<Longrightarrow> is_hex_digit c \<Longrightarrow> is_hex_digit d \<Longrightarrow>
    jstring_body True t \<Longrightarrow> jstring_body True (backslash # CHR ''u'' # a # b # c # d # t)"

definition jinteger :: "string \<Rightarrow> bool" where
  "jinteger t \<longleftrightarrow> t = ''0'' \<or> (digits t \<and> hd t \<noteq> CHR ''0'')"

definition jfraction :: "string \<Rightarrow> bool" where
  "jfraction t \<longleftrightarrow> t = [] \<or> (\<exists>d. t = CHR ''.'' # d \<and> digits d)"

definition jexponent :: "string \<Rightarrow> bool" where
  "jexponent t \<longleftrightarrow> t = [] \<or>
    (\<exists>e sg d. t = e # sg @ d \<and> e \<in> {CHR ''e'', CHR ''E''} \<and> sg \<in> {[], ''+'', ''-''} \<and> digits d)"

definition jnumber :: "string \<Rightarrow> bool" where
  "jnumber t \<longleftrightarrow>
    (\<exists>sg n f x. t = sg @ n @ f @ x \<and> sg \<in> {[], ''-''} \<and> jinteger n \<and> jfraction f \<and> jexponent x)"

inductive jvalue :: "bool \<Rightarrow> nat \<Rightarrow> string \<Rightarrow> bool"
  and jmembers :: "bool \<Rightarrow> nat \<Rightarrow> (string \<times> string) list \<Rightarrow> string \<Rightarrow> bool"
  and jelements :: "bool \<Rightarrow> nat \<Rightarrow> string \<Rightarrow> bool" for u :: bool where
  jv_string: "jstring_body True b \<Longrightarrow> jvalue u l (quote # b @ [quote])"
| jv_keyword: "t \<in> {''true'', ''false'', ''null''} \<Longrightarrow> jvalue u l t"
| jv_number: "jnumber t \<Longrightarrow> jvalue u l t"
| jv_empty_object: "ws w \<Longrightarrow> jvalue u (Suc l) (CHR 0x7B # w @ [CHR 0x7D])"
| jv_object: "ws w \<Longrightarrow> jmembers u l ms t \<Longrightarrow> (u \<longrightarrow> distinct (map fst ms)) \<Longrightarrow>
    jvalue u (Suc l) (CHR 0x7B # w @ t @ [CHR 0x7D])"
| jv_empty_array: "ws w \<Longrightarrow> jvalue u (Suc l) (CHR 0x5B # w @ [CHR 0x5D])"
| jv_array: "ws w \<Longrightarrow> jelements u l t \<Longrightarrow> jvalue u (Suc l) (CHR 0x5B # w @ t @ [CHR 0x5D])"
| jm_last: "jstring_body False k \<Longrightarrow> ws a \<Longrightarrow> ws b \<Longrightarrow> jvalue u l v \<Longrightarrow> ws c \<Longrightarrow>
    jmembers u l [(k, v)] (quote # k @ quote # a @ CHR '':'' # b @ v @ c)"
| jm_more: "jstring_body False k \<Longrightarrow> ws a \<Longrightarrow> ws b \<Longrightarrow> jvalue u l v \<Longrightarrow> ws c \<Longrightarrow> ws d \<Longrightarrow>
    jmembers u l ms t \<Longrightarrow>
    jmembers u l ((k, v) # ms) (quote # k @ quote # a @ CHR '':'' # b @ v @ c @ CHR '','' # d @ t)"
| je_last: "jvalue u l v \<Longrightarrow> ws c \<Longrightarrow> jelements u l (v @ c)"
| je_more: "jvalue u l v \<Longrightarrow> ws c \<Longrightarrow> ws d \<Longrightarrow> jelements u l t \<Longrightarrow>
    jelements u l (v @ c @ CHR '','' # d @ t)"

section \<open>The leaf scanners\<close>

lemma skip_while_on: "i < length s \<Longrightarrow> p (s ! i) \<Longrightarrow> skip_while p s i = skip_while p s (Suc i)"
  by (simp add: skip_while.simps [of p s i])

lemma skip_while_off: "\<not> (i < length s \<and> p (s ! i)) \<Longrightarrow> skip_while p s i = i"
  by (subst skip_while.simps) (simp only: if_False)

lemma skip_while_gength: "i \<le> length s \<Longrightarrow> skip_while p s i \<le> length s"
proof (induction p s i rule: skip_while.induct)
  case (1 p s i)
  then show ?case by (cases "i < length s \<and> p (s ! i)") (simp_all add: skip_while_on skip_while_off)
qed

lemma skip_while_slice: "set (slice s i (skip_while p s i)) \<subseteq> Collect p"
proof (induction p s i rule: skip_while.induct)
  case (1 p s i)
  show ?case
  proof (cases "i < length s \<and> p (s ! i)")
    case True
    then have e: "skip_while p s i = skip_while p s (Suc i)" by (simp add: skip_while_on)
    have "i < skip_while p s (Suc i)" by (rule Suc_le_lessD) (rule skip_while_ge)
    then have "slice s i (skip_while p s i) = s ! i # slice s (Suc i) (skip_while p s (Suc i))"
      using True by (simp add: e slice_step)
    with 1 True show ?thesis by simp
  next
    case False
    then have "skip_while p s i = i" by (rule skip_while_off)
    then show ?thesis by simp
  qed
qed

lemma skip_while_stop: "skip_while p s i < length s \<Longrightarrow> \<not> p (s ! skip_while p s i)"
proof (induction p s i rule: skip_while.induct)
  case (1 p s i)
  show ?case
  proof (cases "i < length s \<and> p (s ! i)")
    case True
    then have "skip_while p s i = skip_while p s (Suc i)" by (simp add: skip_while_on)
    with 1 True show ?thesis by simp
  next
    case False
    then have "skip_while p s i = i" by (rule skip_while_off)
    with False "1.prems" show ?thesis by simp
  qed
qed

lemma eat_ws_le [simp]: "i \<le> eat_ws s i"
  and eat_ws_length: "i \<le> length s \<Longrightarrow> eat_ws s i \<le> length s"
  and eat_ws_slice: "ws (slice s i (eat_ws s i))"
  by (simp_all add: eat_ws_def skip_while_gength ws_def skip_while_slice)

lemma slice_step2:
  assumes "i + 1 < length s" and "i + 2 \<le> k"
  shows "slice s i k = s ! i # s ! (i + 1) # slice s (i + 2) k"
proof -
  have "slice s i k = s ! i # slice s (Suc i) k" using assms by (intro slice_step) auto
  also have "slice s (Suc i) k = s ! Suc i # slice s (Suc (Suc i)) k"
    using assms by (intro slice_step) auto
  finally show ?thesis by (simp del: length_substr)
qed

lemma slice_step6:
  assumes "i + 5 < length s" and "i + 6 \<le> k"
  shows "slice s i k = s ! i # s ! (i + 1) # s ! (i + 2) # s ! (i + 3) # s ! (i + 4) # s ! (i + 5)
    # slice s (i + 6) k"
  using slice_step2 [of i s k] slice_step2 [of "i + 2" s k] slice_step2 [of "i + 4" s k] assms
  by (simp add: algebra_simps numeral_eq_Suc)

lemma checked_string_from_sound:
  "checked_string_from s start u i = Some (j, raw) \<Longrightarrow>
   i < j \<and> j \<le> length s \<and> s ! (j - 1) = quote \<and> raw = slice s start (j - 1)
   \<and> jstring_body u (slice s i (j - 1))"
proof (induction s start u i rule: checked_string_from.induct)
  case (1 s start u i)
  have i: "i < length s" using "1.prems" by (subst (asm) checked_string_from.simps) (auto split: if_splits)
  consider "s ! i = quote" "j = i + 1" "raw = slice s start i"
    | "\<not> s ! i < CHR 0x20" "s ! i \<noteq> quote" "s ! i \<noteq> backslash"
        "checked_string_from s start u (i + 1) = Some (j, raw)"
    | "s ! i = backslash" "i + 1 < length s" "is_simple_escape (s ! (i + 1))"
        "checked_string_from s start u (i + 2) = Some (j, raw)"
    | "s ! i = backslash" "u" "i + 5 < length s" "s ! (i + 1) = CHR ''u''"
        "\<forall>d\<in>set [i + 2..<i + 6]. is_hex_digit (s ! d)"
        "\<not> is_simple_escape (s ! (i + 1))"
        "checked_string_from s start u (i + 6) = Some (j, raw)"
    using "1.prems" i by (subst (asm) checked_string_from.simps) (auto simp: Let_def split: if_splits)
  then show ?case
  proof cases
    case 1
    with i show ?thesis by (auto intro: body_empty)
  next
    case 2
    have "i < j - 1 \<or> j - 1 = i" "i + 1 < j" and r: "j \<le> length s" "s ! (j - 1) = quote"
      "raw = slice s start (j - 1)" "jstring_body u (slice s (i + 1) (j - 1))"
      using "1.IH"(1) [OF i refl] 2 i by auto
    then have "slice s i (j - 1) = s ! i # slice s (Suc i) (j - 1)"
      using i by (intro slice_step) auto
    with 2 r \<open>i + 1 < j\<close> show ?thesis by (auto intro: body_plain)
  next
    case 3
    have r: "i + 2 < j" "j \<le> length s" "s ! (j - 1) = quote"
      "raw = slice s start (j - 1)" "jstring_body u (slice s (i + 2) (j - 1))"
      using "1.IH"(2) [OF i refl] 3 i by (auto simp: less_char_def)
    then have e: "slice s i (j - 1) = s ! i # s ! (i + 1) # slice s (i + 2) (j - 1)"
      using 3 i by (intro slice_step2) auto
    have "jstring_body u (slice s i (j - 1))"
      unfolding e using 3 r by (auto intro: body_escape)
    with r show ?thesis by (auto intro: body_escape)
  next
    case 4
    have r: "i + 6 < j" "j \<le> length s" "s ! (j - 1) = quote"
      "raw = slice s start (j - 1)" "jstring_body u (slice s (i + 6) (j - 1))"
      using "1.IH"(3) [OF i refl] 4 i by (auto simp: less_char_def)
    then have e: "slice s i (j - 1) = s ! i # s ! (i + 1) # s ! (i + 2) # s ! (i + 3) # s ! (i + 4)
        # s ! (i + 5) # slice s (i + 6) (j - 1)"
      using 4 i by (intro slice_step6) auto
    have "jstring_body u (slice s i (j - 1))"
      unfolding e using 4 r by (auto intro: body_unicode)
    with r show ?thesis by simp
  qed
qed

lemma skip_checked_string_sound:
  assumes "skip_checked_string s i u = Some (j, raw)"
  shows "i + 1 < j" "j \<le> length s" "slice s i j = quote # raw @ [quote]" "jstring_body u raw"
    "raw = slice s (i + 1) (j - 1)"
proof -
  have i: "i < length s" "s ! i = quote" and f: "checked_string_from s (i + 1) u (i + 1) = Some (j, raw)"
    using assms by (auto simp: skip_checked_string_def split: if_splits)
  note r = checked_string_from_sound [OF f]
  then show "i + 1 < j" "j \<le> length s" "jstring_body u raw" "raw = slice s (i + 1) (j - 1)" by auto
  have "slice s i j = s ! i # slice s (Suc i) j" using i r by (intro slice_step) auto
  also have "slice s (Suc i) j = slice s (Suc i) (j - 1) @ slice s (j - 1) j"
    using r by (intro slice_split) auto
  also have "slice s (j - 1) j = [s ! (j - 1)]"
    using r by (cases j) simp_all
  finally show "slice s i j = quote # raw @ [quote]" using i r by simp
qed

lemma digit_run:
  assumes "digit_at s i"
  shows "digits (slice s i (skip_while is_digit s i))" "i < skip_while is_digit s i"
    "skip_while is_digit s i \<le> length s"
proof -
  have i: "i < length s" "is_digit (s ! i)" using assms by (auto simp: digit_at_def)
  then have e: "skip_while is_digit s i = skip_while is_digit s (Suc i)" by (rule skip_while_on)
  show lt: "i < skip_while is_digit s i" unfolding e by (rule Suc_le_lessD) (rule skip_while_ge)
  show "skip_while is_digit s i \<le> length s" using i by (simp add: skip_while_gength)
  show "digits (slice s i (skip_while is_digit s i))"
    using skip_while_slice [of s i is_digit] lt i by (auto simp: digits_def slice_step)
qed

lemma checked_integer_part_sound:
  assumes "checked_integer_part s i = Some j"
  shows "i < j" "j \<le> length s" "jinteger (slice s i j)"
proof -
  have i: "i < length s" using assms by (auto simp: checked_integer_part_def split: if_splits)
  have "i < j \<and> j \<le> length s \<and> jinteger (slice s i j)"
  proof (cases "s ! i = CHR ''0''")
    case True
    with assms i show ?thesis
      by (auto simp: checked_integer_part_def jinteger_def split: if_splits)
  next
    case False
    then have d: "is_digit (s ! i)" and j: "j = skip_while is_digit s i"
      using assms i by (auto simp: checked_integer_part_def is_digit_def less_char_def
          less_eq_char_def split: if_splits)
    have "digit_at s i" using i d by (simp add: digit_at_def)
    note r = digit_run [OF this, folded j]
    have "hd (slice s i j) = s ! i" using slice_step [OF i r(2)] by simp
    with r False show ?thesis by (simp add: jinteger_def)
  qed
  then show "i < j" "j \<le> length s" "jinteger (slice s i j)" by blast+
qed

lemma checked_fraction_sound:
  assumes "checked_fraction s i = Some j" and "i \<le> length s"
  shows "i \<le> j" "j \<le> length s" "jfraction (slice s i j)"
proof -
  have "i \<le> j \<and> j \<le> length s \<and> jfraction (slice s i j)"
  proof (cases "i < length s \<and> s ! i = CHR ''.''")
    case True
    then have d: "digit_at s (i + 1)" and j: "j = skip_while is_digit s (i + 1)"
      using assms by (auto simp: checked_fraction_def split: if_splits)
    note r = digit_run [OF d, folded j]
    have "slice s i j = s ! i # slice s (Suc i) j" using True r by (intro slice_step) auto
    with True r show ?thesis by (auto simp: jfraction_def)
  next
    case False
    with assms show ?thesis by (auto simp: checked_fraction_def jfraction_def)
  qed
  then show "i \<le> j" "j \<le> length s" "jfraction (slice s i j)" by blast+
qed

lemma jexponentI:
  "t = e # sg @ d \<Longrightarrow> e = CHR ''e'' \<or> e = CHR ''E'' \<Longrightarrow> sg \<in> {[], ''+'', ''-''} \<Longrightarrow> digits d \<Longrightarrow>
   jexponent t"
  unfolding jexponent_def by blast

lemma checked_exponent_sound:
  assumes "checked_exponent s i = Some j" and "i \<le> length s"
  shows "i \<le> j" "j \<le> length s" "jexponent (slice s i j)"
proof -
  have "i \<le> j \<and> j \<le> length s \<and> jexponent (slice s i j)"
  proof (cases "i < length s \<and> (s ! i = CHR ''e'' \<or> s ! i = CHR ''E'')")
    case True
    show ?thesis
    proof (cases "i + 1 < length s \<and> (s ! (i + 1) = CHR ''+'' \<or> s ! (i + 1) = CHR ''-'')")
      case sg: True
      then have d: "digit_at s (i + 1 + 1)" and j: "j = skip_while is_digit s (i + 1 + 1)"
        using assms True by (auto simp: checked_exponent_def Let_def split: if_splits)
      note r = digit_run [OF d, folded j]
      have "slice s i j = s ! i # [s ! Suc i] @ slice s (Suc (Suc i)) j"
        using True sg r by (simp add: slice_step)
      moreover have "[s ! Suc i] \<in> {[], ''+'', ''-''}" using sg by auto
      moreover have "digits (slice s (Suc (Suc i)) j)" using r(1) by simp
      ultimately have "jexponent (slice s i j)" using True by (blast intro: jexponentI)
      with r show ?thesis by simp
    next
      case False
      then have d: "digit_at s (i + 1)" and j: "j = skip_while is_digit s (i + 1)"
        using assms True by (auto simp: checked_exponent_def Let_def split: if_splits)
      note r = digit_run [OF d, folded j]
      have "slice s i j = s ! i # [] @ slice s (Suc i) j"
        using True r by (simp add: slice_step)
      moreover have "[] \<in> {[], ''+'', ''-''}" by simp
      moreover have "digits (slice s (Suc i) j)" using r(1) by simp
      ultimately have "jexponent (slice s i j)" using True by (blast intro: jexponentI)
      with r show ?thesis by simp
    qed
  next
    case False
    with assms show ?thesis by (auto simp: checked_exponent_def jexponent_def)
  qed
  then show "i \<le> j" "j \<le> length s" "jexponent (slice s i j)" by blast+
qed

lemma skip_checked_number_sound:
  assumes "skip_checked_number s i = Some (j, t)"
  shows "i < j" "j \<le> length s" "t = slice s i j" "jnumber (slice s i j)"
proof -
  define a where "a = (if i < length s \<and> s ! i = CHR ''-'' then i + 1 else i)"
  obtain b c where b: "checked_integer_part s a = Some b" and c: "checked_fraction s b = Some c"
    and j: "checked_exponent s c = Some j" and t: "t = slice s i j"
    using assms by (auto simp: skip_checked_number_def a_def Let_def split: option.splits)
  note B = checked_integer_part_sound [OF b]
  note C = checked_fraction_sound [OF c B(2)]
  note J = checked_exponent_sound [OF j C(2)]
  have a: "i \<le> a" "slice s i a \<in> {[], ''-''}" by (auto simp: a_def)
  have "slice s i j = slice s i a @ slice s a b @ slice s b c @ slice s c j"
    using a(1) B C J slice_split [of i a j s] slice_split [of a b j s] slice_split [of b c j s] by simp
  with a(2) B C J show "jnumber (slice s i j)" unfolding jnumber_def by blast
  show "i < j" "j \<le> length s" "t = slice s i j" using a B C J t by auto
qed

lemma skip_keyword_sound:
  assumes "skip_keyword s i = Some (j, t, k)" and "i < length s"
  shows "i < j" "j \<le> length s" "t = slice s i j" "t \<in> {''true'', ''false'', ''null''}"
    "k = (if t = ''null'' then ValueKind_null else ValueKind_boolean)"
proof -
  let ?w = "keyword_starting_with (s ! i)"
  have w: "substr s i (length ?w) = ?w" "j = i + length ?w" "t = ?w"
    "k = (if s ! i = CHR ''n'' then ValueKind_null else ValueKind_boolean)"
    using assms(1) by (auto simp: skip_keyword_def Let_def split: if_splits)
  have "length ?w = length (substr s i (length ?w))" using w(1) by simp
  then have "length ?w \<le> length s - i" by simp
  moreover have pos: "0 < length ?w" by (simp add: keyword_starting_with_def)
  ultimately show "i < j" "j \<le> length s" "t = slice s i j" using w assms(2) by auto
  show "t \<in> {''true'', ''false'', ''null''}" by (auto simp: w keyword_starting_with_def)
  have "hd (substr s i (length ?w)) = s ! i"
    using pos assms(2) by (simp add: substr_def hd_drop_conv_nth)
  then have "hd ?w = s ! i" using w(1) by simp
  then show "k = (if t = ''null'' then ValueKind_null else ValueKind_boolean)"
    using w(3,4) by (auto simp: keyword_starting_with_def split: if_splits)
qed

section \<open>The loops over members and elements\<close>

text \<open>
  What the loops rely on of the scanner of the values inside: it moves on and stays inside the
  text, accepts only values, and looking for duplicates changes nothing but the acceptance.
\<close>

locale checked_scanner =
  fixes val :: value_scanner
    and levels :: nat
  assumes val_progress: "val u s i = Some (j, t, k) \<Longrightarrow> i < j \<and> j \<le> length s"
    and val_sound: "val u s i = Some (j, t, k) \<Longrightarrow> jvalue u levels (slice s i j)"
    and val_relaxed: "val u s i = Some r \<Longrightarrow> val False s i = Some r"
    and val_object: "val u s i = Some (j, t, ValueKind_object) \<Longrightarrow> t = slice s i j \<and> s ! i = CHR 0x7B"

text \<open>The members read between two positions, up to and including the comma after each.\<close>

inductive walk :: "value_scanner \<Rightarrow> string \<Rightarrow> nat \<Rightarrow> string list \<Rightarrow> nat \<Rightarrow> bool"
  for val :: value_scanner and s :: string where
  walk_here: "walk val s i [] i"
| walk_member: "i < length s \<Longrightarrow> skip_checked_string s i False = Some (a, k) \<Longrightarrow>
    b = eat_ws s a \<Longrightarrow> b < length s \<Longrightarrow> s ! b = CHR '':'' \<Longrightarrow>
    val False s (eat_ws s (b + 1)) = Some (c, t, kd) \<Longrightarrow>
    d = eat_ws s c \<Longrightarrow> d < length s \<Longrightarrow> s ! d = CHR '','' \<Longrightarrow>
    walk val s (eat_ws s (d + 1)) ks j \<Longrightarrow> walk val s i (k # ks) j"

lemma walk_snoc:
  "walk val s i ks j \<Longrightarrow> walk val s j ks' j' \<Longrightarrow> walk val s i (ks @ ks') j'"
  by (induction rule: walk.induct) (auto intro: walk.intros)

context checked_scanner begin

lemma walk_progress: "walk val s i ks j \<Longrightarrow> i + length ks \<le> j"
proof (induction rule: walk.induct)
  case (walk_member i a k b c t kd d ks j)
  have "i < a" using skip_checked_string_sound(1) [OF walk_member(2)] by simp
  moreover have "a \<le> b" using walk_member(3) by simp
  moreover have "b + 1 \<le> eat_ws s (b + 1)" "d + 1 \<le> eat_ws s (d + 1)" by simp_all
  moreover have "eat_ws s (b + 1) < c" using val_progress walk_member(6) by blast
  moreover have "c \<le> d" using walk_member(7) by simp
  ultimately have "Suc (i + length ks) \<le> j" using walk_member.IH by linarith
  then show ?case by simp
qed simp

lemma appeared_loop_iff:
  "walk val s i ks before \<Longrightarrow> length ks < fuel \<Longrightarrow>
   appeared_loop val fuel s before name i \<longleftrightarrow> name \<in> set ks"
proof (induction arbitrary: fuel rule: walk.induct)
  case (walk_here i)
  then show ?case by (cases fuel) simp_all
next
  case (walk_member i a k b c t kd d ks j)
  obtain f where f: "fuel = Suc f" using walk_member.prems by (cases fuel) auto
  have w: "walk val s i (k # ks) j" using walk_member.hyps by (rule walk.walk_member)
  have i: "i < j" using walk_progress [OF w] by simp
  have "d + 1 \<le> eat_ws s (d + 1)" by simp
  then have d: "d < j" using walk_progress [OF walk_member.hyps(10)] by linarith
  have "b + 1 \<le> eat_ws s (b + 1)" by simp
  moreover have "eat_ws s (b + 1) < c" using val_progress walk_member(6) by blast
  moreover have "c \<le> d" using walk_member(7) by simp
  ultimately have b: "b < j" using d by linarith
  show ?case
    using i d b walk_member f by (simp add: Let_def)
qed

lemma key_appeared_iff:
  assumes "walk val s (eat_ws s (start + 1)) ks before" and "start < length s"
    and "s ! start = CHR 0x7B" and "before \<le> length s"
  shows "checked_key_appeared_before val s start before name \<longleftrightarrow> name \<in> set ks"
proof -
  have "length ks < Suc (length s)" using walk_progress [OF assms(1)] assms(4) by simp
  from appeared_loop_iff [OF assms(1) this] assms show ?thesis
    by (simp add: checked_key_appeared_before_def)
qed

text \<open>
  The fuel of the loops: a round ends further to the right, so more rounds than the text has
  characters left never happen.
\<close>

lemma member_progress:
  assumes "skip_checked_string s i False = Some (a, k)"
    and "val u s (eat_ws s (Suc (eat_ws s a))) = Some (c, t, kd)"
  shows "i < eat_ws s (Suc (eat_ws s c))"
proof -
  have "i < a" using skip_checked_string_sound(1) [OF assms(1)] by simp
  also have "a \<le> eat_ws s a" by (rule eat_ws_le)
  also have "\<dots> < Suc (eat_ws s a)" by simp
  also have "\<dots> \<le> eat_ws s (Suc (eat_ws s a))" by (rule eat_ws_le)
  also have "\<dots> < c" using val_progress [OF assms(2)] by simp
  also have "c \<le> eat_ws s c" by (rule eat_ws_le)
  also have "\<dots> < Suc (eat_ws s c)" by simp
  also have "\<dots> \<le> eat_ws s (Suc (eat_ws s c))" by (rule eat_ws_le)
  finally show ?thesis .
qed

lemma element_progress:
  assumes "val u s i = Some (c, t, kd)"
  shows "i < eat_ws s (Suc (eat_ws s c))"
proof -
  have "i < c" using val_progress [OF assms] by simp
  also have "c \<le> eat_ws s c" by (rule eat_ws_le)
  also have "\<dots> < Suc (eat_ws s c)" by simp
  also have "\<dots> \<le> eat_ws s (Suc (eat_ws s c))" by (rule eat_ws_le)
  finally show ?thesis .
qed

lemma object_loop_fuel:
  "length s - i < fuel \<Longrightarrow> object_loop val u (fuel + n) s start i = object_loop val u fuel s start i"
proof (induction fuel arbitrary: i)
  case (Suc fuel)
  show ?case
    using Suc.prems
    by (auto simp: Let_def not_le split: option.split
        intro!: Suc.IH dest!: member_progress)
qed simp

lemma array_loop_fuel:
  "length s - i < fuel \<Longrightarrow> array_loop val u (fuel + n) s start i = array_loop val u fuel s start i"
proof (induction fuel arbitrary: i)
  case (Suc fuel)
  show ?case
    using Suc.prems
    by (auto simp: Let_def not_le split: option.split
        intro!: Suc.IH dest!: element_progress)
qed simp

lemma appeared_loop_fuel:
  "before \<le> length s \<Longrightarrow> length s - i < fuel \<Longrightarrow>
   appeared_loop val (fuel + n) s before name i = appeared_loop val fuel s before name i"
proof (induction fuel arbitrary: i)
  case (Suc fuel)
  have "appeared_loop val (fuel + n) s before name (eat_ws s (Suc (eat_ws s c)))
      = appeared_loop val fuel s before name (eat_ws s (Suc (eat_ws s c)))"
    if "skip_checked_string s i False = Some (a, k)"
      "val False s (eat_ws s (Suc (eat_ws s a))) = Some (c, t, kd)" "i < before" for a k c t kd
    using member_progress [OF that(1,2)] Suc.prems that(3) by (intro Suc.IH) auto
  then show ?case
    using Suc.prems by (auto simp: Let_def split: option.split)
qed simp

text \<open>One member, from its opening quote to the comma or brace after it.\<close>

lemma member_text:
  assumes k: "skip_checked_string s i False = Some (a, k)" and b: "b = eat_ws s a"
    and "b < length s" and "s ! b = CHR '':''" and v: "val u s (eat_ws s (b + 1)) = Some (c, t, kd)"
    and d: "d = eat_ws s c"
  shows "\<exists>w w' x w''. slice s i d = quote # k @ quote # w @ CHR '':'' # w' @ x @ w'' \<and>
      ws w \<and> ws w' \<and> ws w'' \<and> jvalue u levels x \<and> jstring_body False k \<and>
      (kd = ValueKind_object \<longrightarrow> t = x \<and> (\<exists>y. x = CHR 0x7B # y))"
    and "i < d" and "d \<le> length s"
proof -
  note K = skip_checked_string_sound [OF k]
  define e where "e = eat_ws s (b + 1)"
  have ab: "a \<le> b" unfolding b by (rule eat_ws_le)
  have be: "b + 1 \<le> e" unfolding e_def by (rule eat_ws_le)
  have ec: "e < c" "c \<le> length s" using val_progress [OF v] by (auto simp: e_def)
  have cd: "c \<le> d" unfolding d by (rule eat_ws_le)
  show "i < d" using K(1) ab be ec(1) cd by linarith
  show "d \<le> length s" unfolding d using ec(2) by (rule eat_ws_length)
  have "slice s i d = slice s i a @ slice s a b @ slice s b d"
    using K(1) ab be ec(1) cd by (simp add: slice_split [of i a d] slice_split [of a b d])
  also have "slice s b d = s ! b # slice s (Suc b) d"
    using assms(3) be ec(1) cd by (intro slice_step) linarith+
  also have "slice s (Suc b) d = slice s (Suc b) e @ slice s e c @ slice s c d"
    using be ec(1) cd slice_split [of "Suc b" e d s] slice_split [of e c d s] by simp
  finally have "slice s i d = quote # k @ quote # slice s a b @ CHR '':'' # slice s (b + 1) e
      @ slice s e c @ slice s c d"
    using K(3) assms(4) by simp
  moreover have "ws (slice s a b)" "ws (slice s (b + 1) e)" "ws (slice s c d)"
    unfolding b e_def d by (rule eat_ws_slice)+
  moreover have "jvalue u levels (slice s e c)" using val_sound v by (simp add: e_def)
  moreover have "slice s e c = s ! e # slice s (Suc e) c" using ec by (intro slice_step) linarith+
  then have "kd = ValueKind_object \<longrightarrow> t = slice s e c \<and> (\<exists>y. slice s e c = CHR 0x7B # y)"
    using val_object v by (auto simp: e_def)
  ultimately show "\<exists>w w' x w''. slice s i d = quote # k @ quote # w @ CHR '':'' # w' @ x @ w'' \<and>
      ws w \<and> ws w' \<and> ws w'' \<and> jvalue u levels x \<and> jstring_body False k \<and>
      (kd = ValueKind_object \<longrightarrow> t = x \<and> (\<exists>y. x = CHR 0x7B # y))"
    using K(4) by blast
qed

lemma object_loop_sound:
  "object_loop val u fuel s start i = Some (j, t) \<Longrightarrow> walk val s (eat_ws s (start + 1)) pre i \<Longrightarrow>
   start < length s \<Longrightarrow> s ! start = CHR 0x7B \<Longrightarrow> (u \<longrightarrow> distinct pre) \<Longrightarrow>
   \<exists>ms. i < j \<and> j \<le> length s \<and> t = slice s start j \<and> s ! (j - 1) = CHR 0x7D \<and>
     jmembers u levels ms (slice s i (j - 1)) \<and> (u \<longrightarrow> distinct (pre @ map fst ms))"
proof (induction fuel arbitrary: i pre)
  case (Suc fuel)
  have i: "i < length s" using Suc.prems(1) by (auto split: if_splits)
  obtain a k where k: "skip_checked_string s i False = Some (a, k)"
    and fresh: "u \<longrightarrow> \<not> checked_key_appeared_before val s start i k"
    using Suc.prems(1) i by (auto split: option.splits if_splits)
  define b where "b = eat_ws s a"
  have b: "b < length s" "s ! b = CHR '':''"
    using Suc.prems(1) i k by (auto simp: Let_def b_def split: option.splits if_splits)
  obtain c x kd where v: "val u s (eat_ws s (b + 1)) = Some (c, x, kd)"
    using Suc.prems(1) i k by (auto simp: Let_def b_def split: option.splits if_splits)
  define d where "d = eat_ws s c"
  have d: "d < length s" and
    "(s ! d = CHR 0x7D \<and> j = d + 1 \<and> t = slice s start (d + 1)) \<or>
     (s ! d = CHR '','' \<and> object_loop val u fuel s start (eat_ws s (d + 1)) = Some (j, t))"
    using Suc.prems(1) i k fresh b v
    by (auto simp: Let_def b_def d_def split: option.splits if_splits)
  note m = member_text [OF k b_def b v d_def]
  have distinct: "u \<longrightarrow> distinct (pre @ [k])"
    using fresh key_appeared_iff [OF Suc.prems(2-4)] i Suc.prems(5) by auto
  from \<open>_ \<or> _\<close> show ?case
  proof (elim disjE conjE)
    assume "s ! d = CHR 0x7D" "j = d + 1" "t = slice s start (d + 1)"
    moreover from m(1) obtain v where "jmembers u levels [(k, v)] (slice s i d)"
      using jvalue_jmembers_jelements.jm_last by metis
    ultimately show ?thesis using m(2) d distinct by (intro exI [of _ "[(k, v)]"]) auto
  next
    assume comma: "s ! d = CHR '',''" and rest: "object_loop val u fuel s start (eat_ws s (d + 1)) = Some (j, t)"
    define e where "e = eat_ws s (d + 1)"
    have "walk val s i [k] e"
      unfolding e_def
      by (rule walk_member [where val = val, OF i k b_def b val_relaxed [OF v] d_def d comma])
        (rule walk_here)
    then have "walk val s (eat_ws s (start + 1)) (pre @ [k]) e"
      using Suc.prems(2) by (blast intro: walk_snoc)
    from Suc.IH [OF rest [folded e_def] this Suc.prems(3,4) distinct] obtain ms where
      ks: "e < j" "j \<le> length s" "t = slice s start j" "s ! (j - 1) = CHR 0x7D"
      "jmembers u levels ms (slice s e (j - 1))" "u \<longrightarrow> distinct ((pre @ [k]) @ map fst ms)" by blast
    have de: "d + 1 \<le> e" unfolding e_def by (rule eat_ws_le)
    have "slice s i (j - 1) = slice s i d @ slice s d (j - 1)"
      using m(2) de ks(1) by (intro slice_split) linarith+
    also have "slice s d (j - 1) = s ! d # slice s (Suc d) (j - 1)"
      using d de ks(1) by (intro slice_step) linarith+
    also have "slice s (Suc d) (j - 1) = slice s (Suc d) e @ slice s e (j - 1)"
      using de ks(1) by (intro slice_split) linarith+
    finally have "slice s i (j - 1) = slice s i d @ CHR '','' # slice s (d + 1) e @ slice s e (j - 1)"
      using comma by simp
    moreover have "ws (slice s (d + 1) e)" unfolding e_def by (rule eat_ws_slice)
    ultimately obtain v where "jmembers u levels ((k, v) # ms) (slice s i (j - 1))"
      using m(1) jvalue_jmembers_jelements.jm_more [OF _ _ _ _ _ _ ks(5)]
      by (metis append.assoc append_Cons)
    moreover have "i < j" using m(2) de ks(1) by linarith
    ultimately show ?thesis using ks by (intro exI [of _ "(k, v) # ms"]) auto
  qed
qed simp

lemma object_sound:
  assumes "skip_checked_object val u s i = Some (j, t)" and "i < length s" and "s ! i = CHR 0x7B"
  shows "i < j \<and> j \<le> length s \<and> t = slice s i j \<and> jvalue u (Suc levels) (slice s i j)"
proof -
  define b where "b = eat_ws s (i + 1)"
  have ib: "i + 1 \<le> b" unfolding b_def by (rule eat_ws_le)
  have w: "ws (slice s (Suc i) b)" using eat_ws_slice [of s "i + 1"] by (simp add: b_def)
  show ?thesis
  proof (cases "b < length s \<and> s ! b = CHR 0x7D")
    case True
    then have j: "j = b + 1" "t = slice s i (b + 1)"
      using assms(1) by (auto simp: skip_checked_object_def b_def Let_def)
    have "slice s i j = s ! i # slice s (Suc i) b @ [s ! b]"
      using slice_step [OF assms(2), of j] slice_split [of "Suc i" b j s] ib True j(1) by simp
    with True j ib w assms(3) show ?thesis by (auto intro: jvalue_jmembers_jelements.jv_empty_object)
  next
    case False
    then have "object_loop val u (length s) s i b = Some (j, t)"
      using assms(1) by (auto simp: skip_checked_object_def b_def Let_def)
    moreover have "walk val s (eat_ws s (i + 1)) [] b" by (simp add: b_def walk_here)
    ultimately obtain ms where ks: "b < j" "j \<le> length s" "t = slice s i j" "s ! (j - 1) = CHR 0x7D"
      "jmembers u levels ms (slice s b (j - 1))" "u \<longrightarrow> distinct (map fst ms)"
      using object_loop_sound [of u "length s" s i b j t "[]"] assms(2,3) by auto
    have "slice s (j - 1) j = [s ! (j - 1)]" using ks(1,2) by (cases j) simp_all
    moreover have "slice s (Suc i) j = slice s (Suc i) b @ slice s b (j - 1) @ slice s (j - 1) j"
      using slice_split [of "Suc i" b j s] slice_split [of b "j - 1" j s] ib ks(1) by simp
    ultimately have "slice s i j = s ! i # slice s (Suc i) b @ slice s b (j - 1) @ [CHR 0x7D]"
      using slice_step [OF assms(2), of j] ib ks(1,4) by simp
    moreover have "i < j" using ib ks(1) by linarith
    ultimately show ?thesis
      using ks w assms(3) by (auto intro: jvalue_jmembers_jelements.jv_object)
  qed
qed

lemma array_loop_sound:
  "array_loop val u fuel s start i = Some (j, t) \<Longrightarrow>
   i < j \<and> j \<le> length s \<and> t = slice s start j \<and> s ! (j - 1) = CHR 0x5D \<and>
   jelements u levels (slice s i (j - 1))"
proof (induction fuel arbitrary: i)
  case (Suc fuel)
  obtain c x kd where v: "val u s i = Some (c, x, kd)"
    using Suc.prems by (auto split: if_splits option.splits)
  define d where "d = eat_ws s c"
  have cd: "c \<le> d" unfolding d_def by (rule eat_ws_le)
  have ic: "i < c" using val_progress [OF v] by simp
  have w: "ws (slice s c d)" unfolding d_def by (rule eat_ws_slice)
  have d: "d < length s" and
    "(s ! d = CHR 0x5D \<and> j = d + 1 \<and> t = slice s start (d + 1)) \<or>
     (s ! d = CHR '','' \<and> array_loop val u fuel s start (eat_ws s (d + 1)) = Some (j, t))"
    using Suc.prems v by (auto simp: Let_def d_def split: option.splits if_splits)
  have id: "slice s i d = slice s i c @ slice s c d" using ic cd by (intro slice_split) auto
  from \<open>_ \<or> _\<close> show ?case
  proof (elim disjE conjE)
    assume "s ! d = CHR 0x5D" "j = d + 1" "t = slice s start (d + 1)"
    moreover have "jelements u levels (slice s i d)"
      unfolding id using val_sound [OF v] w by (rule jvalue_jmembers_jelements.je_last)
    ultimately show ?thesis using ic cd d by auto
  next
    assume comma: "s ! d = CHR '',''" and rest: "array_loop val u fuel s start (eat_ws s (d + 1)) = Some (j, t)"
    define e where "e = eat_ws s (d + 1)"
    note r = Suc.IH [OF rest [folded e_def]]
    have de: "d + 1 \<le> e" unfolding e_def by (rule eat_ws_le)
    have "slice s i (j - 1) = slice s i d @ slice s d (j - 1)"
      using ic cd de r by (intro slice_split) linarith+
    also have "slice s d (j - 1) = s ! d # slice s (Suc d) (j - 1)"
      using d de r by (intro slice_step) linarith+
    also have "slice s (Suc d) (j - 1) = slice s (Suc d) e @ slice s e (j - 1)"
      using de r by (intro slice_split) linarith+
    finally have "slice s i (j - 1) =
        slice s i c @ slice s c d @ CHR '','' # slice s (d + 1) e @ slice s e (j - 1)"
      using comma id by simp
    moreover have "ws (slice s (d + 1) e)" unfolding e_def by (rule eat_ws_slice)
    ultimately have "jelements u levels (slice s i (j - 1))"
      using val_sound [OF v] w r by (auto intro: jvalue_jmembers_jelements.je_more)
    moreover have "i < j" using ic cd de r by linarith
    ultimately show ?thesis using r by blast
  qed
qed simp

lemma array_sound:
  assumes "skip_checked_array val u s i = Some (j, t)" and "i < length s" and "s ! i = CHR 0x5B"
  shows "i < j \<and> j \<le> length s \<and> t = slice s i j \<and> jvalue u (Suc levels) (slice s i j)"
proof -
  define b where "b = eat_ws s (i + 1)"
  have ib: "i + 1 \<le> b" unfolding b_def by (rule eat_ws_le)
  have w: "ws (slice s (Suc i) b)" using eat_ws_slice [of s "i + 1"] by (simp add: b_def)
  show ?thesis
  proof (cases "b < length s \<and> s ! b = CHR 0x5D")
    case True
    then have j: "j = b + 1" "t = slice s i (b + 1)"
      using assms(1) by (auto simp: skip_checked_array_def b_def Let_def)
    have "slice s i j = s ! i # slice s (Suc i) b @ [s ! b]"
      using slice_step [OF assms(2), of j] slice_split [of "Suc i" b j s] ib True j(1) by simp
    with True j ib w assms(3) show ?thesis by (auto intro: jvalue_jmembers_jelements.jv_empty_array)
  next
    case False
    then have "array_loop val u (length s) s i b = Some (j, t)"
      using assms(1) by (auto simp: skip_checked_array_def b_def Let_def)
    note r = array_loop_sound [OF this]
    then have jb: "b \<le> j - 1" by linarith
    have "slice s (j - 1) j = [s ! (j - 1)]" using r by (cases j) simp_all
    moreover have "slice s (Suc i) j = slice s (Suc i) b @ slice s b (j - 1) @ slice s (j - 1) j"
      using slice_split [of "Suc i" b j s] slice_split [of b "j - 1" j s] ib jb r by simp
    ultimately have "slice s i j = s ! i # slice s (Suc i) b @ slice s b (j - 1) @ [CHR 0x5D]"
      using slice_step [OF assms(2), of j] ib r by simp
    moreover have "i < j" using ib r by linarith
    ultimately show ?thesis
      using r w assms(3) by (auto intro: jvalue_jmembers_jelements.jv_array)
  qed
qed

end

section \<open>The checked value scanner\<close>

lemma checked_leaf_sound:
  assumes "checked_value_with (\<lambda>is_object s i. None) s i = Some (j, t, k)"
  shows "i < j \<and> j \<le> length s \<and> jvalue u l (slice s i j)"
proof -
  have i: "i < length s" using assms by (auto simp: checked_value_with_def split: if_splits)
  consider "skip_checked_string s i True = Some (j, t)"
    | "skip_keyword s i = Some (j, t, k)" | "skip_checked_number s i = Some (j, t)"
    using assms by (auto simp: checked_value_with_def Let_def with_kind_def split: if_splits)
  then show ?thesis
  proof cases
    case 1
    from skip_checked_string_sound [OF this] show ?thesis
      by (auto intro: jvalue_jmembers_jelements.jv_string)
  next
    case 2
    from skip_keyword_sound [OF this i] show ?thesis
      by (auto intro!: jvalue_jmembers_jelements.jv_keyword)
  next
    case 3
    from skip_checked_number_sound [OF this] show ?thesis
      by (auto intro: jvalue_jmembers_jelements.jv_number)
  qed
qed

lemma checked_value_with_cases:
  assumes "checked_value_with container s i = Some (j, t, k)"
  obtains "checked_value_with (\<lambda>is_object s i. None) s i = Some (j, t, k)"
      "k \<noteq> ValueKind_object" "k \<noteq> ValueKind_array"
    | "i < length s" "s ! i = CHR 0x7B" "container True s i = Some (j, t)" "k = ValueKind_object"
    | "i < length s" "s ! i = CHR 0x5B" "container False s i = Some (j, t)" "k = ValueKind_array"
  using assms
  by (auto simp: checked_value_with_def Let_def with_kind_def skip_keyword_def split: if_splits)

lemma object_loop_relaxed:
  assumes "\<And>i r. val u s i = Some r \<Longrightarrow> val False s i = Some r"
  shows "object_loop val u fuel s start i = Some r \<Longrightarrow> object_loop val False fuel s start i = Some r"
proof (induction fuel arbitrary: i)
  case (Suc fuel)
  then show ?case
    by (clarsimp simp: Let_def split: option.split_asm if_split_asm; simp add: assms Let_def)
qed simp

lemma array_loop_relaxed:
  assumes "\<And>i r. val u s i = Some r \<Longrightarrow> val False s i = Some r"
  shows "array_loop val u fuel s start i = Some r \<Longrightarrow> array_loop val False fuel s start i = Some r"
proof (induction fuel arbitrary: i)
  case (Suc fuel)
  then show ?case
    by (clarsimp simp: Let_def split: option.split_asm if_split_asm; simp add: assms Let_def)
qed simp

lemma skip_checked_relaxed:
  assumes "checked_scanner val l"
  shows "skip_checked_object val u s i = Some r \<Longrightarrow> skip_checked_object val False s i = Some r"
    and "skip_checked_array val u s i = Some r \<Longrightarrow> skip_checked_array val False s i = Some r"
  using object_loop_relaxed [of val u s] array_loop_relaxed [of val u s]
    checked_scanner.val_relaxed [OF assms]
  by (auto simp: skip_checked_object_def skip_checked_array_def Let_def split: if_splits)

lemma checked_scanner_Suc:
  assumes "checked_scanner (skip_checked_value l) l"
  shows "checked_scanner (skip_checked_value (Suc l)) (Suc l)"
proof -
  note object = checked_scanner.object_sound [OF assms]
    and array = checked_scanner.array_sound [OF assms]
    and relaxed = skip_checked_relaxed [OF assms]
  have "i < j \<and> j \<le> length s \<and> jvalue u (Suc l) (slice s i j)"
    if v: "skip_checked_value (Suc l) u s i = Some (j, t, k)" for u s i j t k
    using v [simplified]
  proof (cases rule: checked_value_with_cases)
    case 1
    then show ?thesis using checked_leaf_sound by blast
  next
    case 2
    then show ?thesis using object [of u s i j t] by simp
  next
    case 3
    then show ?thesis using array [of u s i j t] by simp
  qed
  moreover have "skip_checked_value (Suc l) False s i = Some r"
    if v: "skip_checked_value (Suc l) u s i = Some r" for u s i r
    using v relaxed
    by (auto simp: checked_value_with_def Let_def with_kind_def split: if_splits option.splits)
  moreover have "t = slice s i j \<and> s ! i = CHR 0x7B"
    if v: "skip_checked_value (Suc l) u s i = Some (j, t, ValueKind_object)" for u s i j t
    using v [simplified]
  proof (cases rule: checked_value_with_cases)
    case 2
    then show ?thesis using object [of u s i j t] by simp
  qed simp_all
  ultimately show ?thesis by unfold_locales blast+
qed

lemma checked_scanner_levels: "checked_scanner (skip_checked_value l) l"
proof (induction l)
  case 0
  show ?case
    by unfold_locales
      (auto dest: checked_leaf_sound elim: checked_value_with_cases)
next
  case (Suc l)
  then show ?case by (rule checked_scanner_Suc)
qed

interpretation checked: checked_scanner "skip_checked_value l" l for l
  by (rule checked_scanner_levels)

section \<open>The validated lookup of an object member\<close>

lemmas document_member_text = checked.member_text [where l = kMaxCheckedJsonDepth]
lemmas document_key_appeared = checked.key_appeared_iff [where l = kMaxCheckedJsonDepth]

lemma find_checked_loop_sound:
  "find_checked_loop fuel s start wanted candidate i = r \<Longrightarrow> r \<noteq> JsonMemberResult_invalid \<Longrightarrow>
   walk (skip_checked_value kMaxCheckedJsonDepth) s (eat_ws s (start + 1)) pre i \<Longrightarrow>
   start < length s \<Longrightarrow> s ! start = CHR 0x7B \<Longrightarrow> distinct pre \<Longrightarrow>
   \<exists>ms j. i < j \<and> j \<le> length s \<and> s ! (j - 1) = CHR 0x7D \<and> eat_ws s j = length s \<and>
     jmembers True kMaxCheckedJsonDepth ms (slice s i (j - 1)) \<and> distinct (pre @ map fst ms) \<and>
     (\<forall>c. r = JsonMemberResult_found c \<longrightarrow>
        candidate = Some c \<or> (wanted, c) \<in> set ms \<and> (\<exists>y. c = CHR 0x7B # y)) \<and>
     (r = JsonMemberResult_missing \<longrightarrow> candidate = None \<and> wanted \<notin> fst ` set ms)"
proof (induction fuel arbitrary: i pre candidate)
  case (Suc fuel)
  let ?val = "skip_checked_value kMaxCheckedJsonDepth"
  note prems = Suc.prems(1) [symmetric] Suc.prems(2)
  have i: "i < length s" using prems by (auto split: if_splits)
  obtain a k where k: "skip_checked_string s i False = Some (a, k)"
    and fresh: "\<not> checked_key_appeared_before ?val s start i k"
    using prems i by (auto split: option.splits if_splits)
  define b where "b = eat_ws s a"
  have b: "b < length s" "s ! b = CHR '':''"
    using prems i k fresh by (auto simp: Let_def b_def split: if_splits)
  obtain c x kd where v: "?val True s (eat_ws s (b + 1)) = Some (c, x, kd)"
    using prems i k fresh b by (auto simp: Let_def b_def split: option.splits if_splits)
  define cand where "cand = (if k = wanted then Some x else candidate)"
  define d where "d = eat_ws s c"
  have kind: "k = wanted \<longrightarrow> candidate = None \<and> kd = ValueKind_object"
    using prems i k fresh b v by (auto simp: Let_def b_def split: if_splits)
  have d: "d < length s" and alt:
    "(s ! d = CHR 0x7D \<and> eat_ws s (d + 1) = length s \<and>
        r = (case cand of Some c \<Rightarrow> JsonMemberResult_found c | None \<Rightarrow> JsonMemberResult_missing)) \<or>
     (s ! d = CHR '','' \<and> find_checked_loop fuel s start wanted cand (eat_ws s (d + 1)) = r)"
    using prems i k fresh b v by (auto simp: Let_def b_def d_def cand_def split: if_splits)
  note m = document_member_text [OF k b_def b v d_def]
  obtain w w' y w'' where y: "slice s i d = quote # k @ quote # w @ CHR '':'' # w' @ y @ w''"
    "ws w" "ws w'" "ws w''" "jvalue True kMaxCheckedJsonDepth y" "jstring_body False k"
    "kd = ValueKind_object \<longrightarrow> x = y \<and> (\<exists>z. y = CHR 0x7B # z)"
    using m(1) by blast
  have dist: "distinct (pre @ [k])"
    using fresh document_key_appeared [OF Suc.prems(3-5)] i Suc.prems(6) by auto
  have own: "k = wanted \<longrightarrow> cand = Some y \<and> (\<exists>z. y = CHR 0x7B # z)"
    using kind y(7) by (auto simp: cand_def)
  from alt show ?case
  proof (elim disjE conjE)
    assume "s ! d = CHR 0x7D" "eat_ws s (d + 1) = length s"
      and r: "r = (case cand of Some c \<Rightarrow> JsonMemberResult_found c | None \<Rightarrow> JsonMemberResult_missing)"
    moreover have "jmembers True kMaxCheckedJsonDepth [(k, y)] (slice s i d)"
      unfolding y(1) by (rule jvalue_jmembers_jelements.jm_last) (use y in auto)
    moreover have "(\<forall>c. r = JsonMemberResult_found c \<longrightarrow>
          candidate = Some c \<or> (wanted, c) \<in> set [(k, y)] \<and> (\<exists>y. c = CHR 0x7B # y)) \<and>
        (r = JsonMemberResult_missing \<longrightarrow> candidate = None \<and> wanted \<notin> fst ` set [(k, y)])"
      using own r by (auto simp: cand_def split: option.splits if_splits)
    ultimately show ?thesis
      using m(2) d dist by (intro exI [of _ "[(k, y)]"] exI [of _ "d + 1"]) auto
  next
    assume comma: "s ! d = CHR '',''"
      and rest: "find_checked_loop fuel s start wanted cand (eat_ws s (d + 1)) = r"
    define e where "e = eat_ws s (d + 1)"
    have "walk ?val s i [k] e"
      unfolding e_def
      by (rule walk_member [where val = ?val, OF i k b_def b checked.val_relaxed [OF v] d_def d comma])
        (rule walk_here)
    then have "walk ?val s (eat_ws s (start + 1)) (pre @ [k]) e"
      using Suc.prems(3) by (blast intro: walk_snoc)
    from Suc.IH [OF rest [folded e_def] Suc.prems(2) this Suc.prems(4,5) dist] obtain ms j where
      ms: "e < j" "j \<le> length s" "s ! (j - 1) = CHR 0x7D" "eat_ws s j = length s"
      "jmembers True kMaxCheckedJsonDepth ms (slice s e (j - 1))"
      "distinct ((pre @ [k]) @ map fst ms)"
      "\<forall>c. r = JsonMemberResult_found c \<longrightarrow>
          cand = Some c \<or> (wanted, c) \<in> set ms \<and> (\<exists>y. c = CHR 0x7B # y)"
      "r = JsonMemberResult_missing \<longrightarrow> cand = None \<and> wanted \<notin> fst ` set ms" by blast
    have de: "d + 1 \<le> e" unfolding e_def by (rule eat_ws_le)
    have "slice s i (j - 1) = slice s i d @ slice s d (j - 1)"
      using m(2) de ms(1) by (intro slice_split) linarith+
    also have "slice s d (j - 1) = s ! d # slice s (Suc d) (j - 1)"
      using d de ms(1) by (intro slice_step) linarith+
    also have "slice s (Suc d) (j - 1) = slice s (Suc d) e @ slice s e (j - 1)"
      using de ms(1) by (intro slice_split) linarith+
    finally have sl: "slice s i (j - 1) = quote # k @ quote # w @ CHR '':'' # w' @ y @ w''
        @ CHR '','' # slice s (d + 1) e @ slice s e (j - 1)"
      using comma y(1) by simp
    have "ws (slice s (d + 1) e)" unfolding e_def by (rule eat_ws_slice)
    then have "jmembers True kMaxCheckedJsonDepth ((k, y) # ms) (slice s i (j - 1))"
      unfolding sl using y ms(5) by (intro jvalue_jmembers_jelements.jm_more) auto
    moreover have "(\<forall>c. r = JsonMemberResult_found c \<longrightarrow>
          candidate = Some c \<or> (wanted, c) \<in> set ((k, y) # ms) \<and> (\<exists>y. c = CHR 0x7B # y)) \<and>
        (r = JsonMemberResult_missing \<longrightarrow> candidate = None \<and> wanted \<notin> fst ` set ((k, y) # ms))"
      using own ms(7,8) by (auto simp: cand_def split: if_splits)
    moreover have "i < j" using m(2) de ms(1) by linarith
    ultimately show ?thesis
      using ms by (intro exI [of _ "(k, y) # ms"] exI [of _ j]) auto
  qed
qed simp

text \<open>The complete documents: one object with distinct keys, white space around it.\<close>

definition json_document :: "string \<Rightarrow> (string \<times> string) list \<Rightarrow> bool" where
  "json_document s ms \<longleftrightarrow>
    (\<exists>w a body b. s = w @ CHR 0x7B # a @ body @ CHR 0x7D # b \<and> ws w \<and> ws a \<and> ws b \<and>
      distinct (map fst ms) \<and>
      (if ms = [] then body = [] else jmembers True kMaxCheckedJsonDepth ms body))"

lemma jmembers_not_Nil: "\<not> jmembers u l [] t"
  by (auto elim: jmembers.cases)

lemma json_find_object_checked_sound:
  assumes "json_find_object_checked s wanted = r" and "r \<noteq> JsonMemberResult_invalid"
  shows "\<exists>ms. json_document s ms \<and>
    (\<forall>c. r = JsonMemberResult_found c \<longrightarrow> (wanted, c) \<in> set ms \<and> (\<exists>y. c = CHR 0x7B # y)) \<and>
    (r = JsonMemberResult_missing \<longrightarrow> wanted \<notin> fst ` set ms)"
proof -
  define i where "i = eat_ws s 0"
  define b where "b = eat_ws s (i + 1)"
  have i: "i < length s" "s ! i = CHR 0x7B"
    using assms by (auto simp: json_find_object_checked_def i_def Let_def split: if_splits)
  have ib: "i + 1 \<le> b" unfolding b_def by (rule eat_ws_le)
  have w: "ws (slice s 0 i)" "ws (slice s (Suc i) b)"
    using eat_ws_slice [of s 0] eat_ws_slice [of s "i + 1"] by (simp_all add: i_def b_def)
  have whole: "s = slice s 0 i @ CHR 0x7B # slice s (Suc i) b @ slice s b (j - 1) @ CHR 0x7D # slice s j (length s)"
    if "b < j" "j \<le> length s" "s ! (j - 1) = CHR 0x7D" for j
  proof -
    have "s = slice s 0 (length s)" by (simp add: substr_def)
    also have "\<dots> = slice s 0 i @ slice s i (length s)" using i by (intro slice_split) auto
    also have "slice s i (length s) = s ! i # slice s (Suc i) (length s)"
      using i by (intro slice_step) auto
    also have "slice s (Suc i) (length s) = slice s (Suc i) b @ slice s b (length s)"
      using ib that by (intro slice_split) auto
    also have "slice s b (length s) = slice s b (j - 1) @ slice s (j - 1) (length s)"
      using that by (intro slice_split) linarith+
    also have "slice s (j - 1) (length s) = s ! (j - 1) # slice s (Suc (j - 1)) (length s)"
      using that by (intro slice_step) auto
    also have "Suc (j - 1) = j" using that(1) by simp
    finally show ?thesis using i that by simp
  qed
  show ?thesis
  proof (cases "b < length s \<and> s ! b = CHR 0x7D")
    case True
    then have r: "r = JsonMemberResult_missing" "eat_ws s (b + 1) = length s"
      using assms i by (auto simp: json_find_object_checked_def i_def b_def Let_def split: if_splits)
    have "ws (slice s (b + 1) (length s))" using eat_ws_slice [of s "b + 1"] r(2) by simp
    then have "json_document s []"
      using whole [of "b + 1"] True w unfolding json_document_def by force
    with r show ?thesis by (intro exI [of _ "[]"]) simp
  next
    case False
    then have "find_checked_loop (length s) s i wanted None b = r"
      using assms i by (auto simp: json_find_object_checked_def i_def b_def Let_def split: if_splits)
    from find_checked_loop_sound [OF this assms(2), of "[]"] i
    obtain ms j where ms: "b < j" "j \<le> length s" "s ! (j - 1) = CHR 0x7D" "eat_ws s j = length s"
      "jmembers True kMaxCheckedJsonDepth ms (slice s b (j - 1))" "distinct (map fst ms)"
      "\<forall>c. r = JsonMemberResult_found c \<longrightarrow> (wanted, c) \<in> set ms \<and> (\<exists>y. c = CHR 0x7B # y)"
      "r = JsonMemberResult_missing \<longrightarrow> wanted \<notin> fst ` set ms"
      by (auto simp: b_def walk_here)
    have "ws (slice s j (length s))" using eat_ws_slice [of s j] ms(4) by simp
    moreover have "ms \<noteq> []" using ms(5) jmembers_not_Nil by blast
    ultimately have "json_document s ms"
      unfolding json_document_def using whole [OF ms(1-3)] w ms(5,6) by (metis (no_types))
    with ms show ?thesis by blast
  qed
qed

section \<open>Properties\<close>

text \<open>C16: the checked lookup answers found or missing only for a text that is one JSON object with
  distinct keys, nested at most as deep as it checks, and its answer is the object's member.\<close>
theorem checked_lookup_sound:
  "case json_find_object_checked s wanted of
     JsonMemberResult_invalid \<Rightarrow> True
   | JsonMemberResult_missing \<Rightarrow> \<exists>ms. json_document s ms \<and> wanted \<notin> fst ` set ms
   | JsonMemberResult_found c \<Rightarrow> \<exists>ms. json_document s ms \<and> (wanted, c) \<in> set ms \<and> (\<exists>y. c = CHR 0x7B # y)"
  using json_find_object_checked_sound [of s wanted, OF refl]
  by (cases "json_find_object_checked s wanted") auto

end
