(* ===== verification/Json_Writer.thy ===== *)
theory Json_Writer
  imports Prelude
begin

unbundle bit_operations_syntax

text \<open>
  \<open>json_writer.cpp\<close>: JSON written straight into a buffer of fixed capacity. \<open>jw_text\<close> is what
  \<open>text()\<close> shows, the first \<open>length_\<close> bytes of the buffer. A document that does not fit
  sets \<open>jw_overflowed\<close> for good; \<open>write_json_exact\<close> shows that \<open>valid()\<close> means that the whole
  document is there.
\<close>

definition kMaxDepth :: nat where
  "kMaxDepth = 12"

record json_writer =
  jw_capacity :: nat
  jw_text :: string
  jw_required :: nat
  jw_depth :: nat
  jw_overflowed :: bool
  jw_needs_comma :: bool
  jw_is_object :: "bool list"

definition json_writer :: "nat \<Rightarrow> json_writer" where
  "json_writer capacity =
    \<lparr>jw_capacity = capacity, jw_text = [], jw_required = 0, jw_depth = 0, jw_overflowed = False,
     jw_needs_comma = False, jw_is_object = replicate kMaxDepth False\<rparr>"

section \<open>Bytes into the buffer\<close>

definition put_char :: "char \<Rightarrow> json_writer \<Rightarrow> json_writer" where
  "put_char c w =
    (let w = w\<lparr>jw_required := jw_required w + 1\<rparr>
     in if jw_overflowed w \<or> length (jw_text w) + 1 > jw_capacity w
        then w\<lparr>jw_overflowed := True\<rparr>
        else w\<lparr>jw_text := jw_text w @ [c]\<rparr>)"

definition put_string :: "string \<Rightarrow> json_writer \<Rightarrow> json_writer" where
  "put_string text w = fold put_char text w"

definition kHex :: string where
  "kHex = ''0123456789abcdef''"

text \<open>The cases of the switch, each by what it puts.\<close>

definition put_escaped_char :: "char \<Rightarrow> json_writer \<Rightarrow> json_writer" where
  "put_escaped_char c w =
    (if c = CHR 0x22 then put_string [CHR 0x5C, CHR 0x22] w
     else if c = CHR 0x5C then put_string [CHR 0x5C, CHR 0x5C] w
     else if c = CHR 0x0A then put_string [CHR 0x5C, CHR ''n''] w
     else if c = CHR 0x0D then put_string [CHR 0x5C, CHR ''r''] w
     else if c = CHR 0x09 then put_string [CHR 0x5C, CHR ''t''] w
     else if c = CHR 0x08 then put_string [CHR 0x5C, CHR ''b''] w
     else if c = CHR 0x0C then put_string [CHR 0x5C, CHR ''f''] w
     else
       (let byte = char_byte c
        in if byte < 0x20 then
             put_char (kHex ! unat (byte AND 0x0F))
               (put_char (kHex ! unat (drop_bit 4 byte AND 0x0F))
                 (put_string (CHR 0x5C # ''u00'') w))
           else put_char c w))"

definition put_escaped :: "string \<Rightarrow> json_writer \<Rightarrow> json_writer" where
  "put_escaped text w = put_char (CHR 0x22) (fold put_escaped_char text (put_char (CHR 0x22) w))"

section \<open>Structure\<close>

definition separate :: "json_writer \<Rightarrow> json_writer" where
  "separate w = (if jw_needs_comma w then put_char (CHR '','') w else w)"

definition open_bracket :: "char \<Rightarrow> bool \<Rightarrow> json_writer \<Rightarrow> json_writer" where
  "open_bracket bracket object w =
    (let w = separate w
     in if jw_depth w \<ge> kMaxDepth then w\<lparr>jw_overflowed := True\<rparr>
        else
          (let w = w\<lparr>jw_is_object := (jw_is_object w)[jw_depth w := object]\<rparr>;
               w = w\<lparr>jw_depth := jw_depth w + 1\<rparr>
           in (put_char bracket w)\<lparr>jw_needs_comma := False\<rparr>))"

definition close_bracket :: "char \<Rightarrow> bool \<Rightarrow> json_writer \<Rightarrow> json_writer" where
  "close_bracket bracket object w =
    (if jw_depth w = 0 \<or> jw_is_object w ! (jw_depth w - 1) \<noteq> object
     then w\<lparr>jw_overflowed := True\<rparr>
     else (put_char bracket (w\<lparr>jw_depth := jw_depth w - 1\<rparr>))\<lparr>jw_needs_comma := True\<rparr>)"

definition begin_object :: "json_writer \<Rightarrow> json_writer" where
  "begin_object w = open_bracket (CHR 0x7B) True w"

definition end_object :: "json_writer \<Rightarrow> json_writer" where
  "end_object w = close_bracket (CHR 0x7D) True w"

definition begin_array :: "json_writer \<Rightarrow> json_writer" where
  "begin_array w = open_bracket (CHR 0x5B) False w"

definition end_array :: "json_writer \<Rightarrow> json_writer" where
  "end_array w = close_bracket (CHR 0x5D) False w"

definition write_key :: "string \<Rightarrow> json_writer \<Rightarrow> json_writer" where
  "write_key name w = (put_char (CHR '':'') (put_escaped name (separate w)))\<lparr>jw_needs_comma := False\<rparr>"

definition value_string :: "string \<Rightarrow> json_writer \<Rightarrow> json_writer" where
  "value_string text w = (put_escaped text (separate w))\<lparr>jw_needs_comma := True\<rparr>"

definition value_bool :: "bool \<Rightarrow> json_writer \<Rightarrow> json_writer" where
  "value_bool flag w =
    (put_string (if flag then ''true'' else ''false'') (separate w))\<lparr>jw_needs_comma := True\<rparr>"

definition value_u64 :: "u64 \<Rightarrow> json_writer \<Rightarrow> json_writer" where
  "value_u64 number w =
    (let w = separate w;
         w = (if number = 0 then put_char (CHR ''0'') w
              else put_string (rev (digits_rev (unat number))) w)
     in w\<lparr>jw_needs_comma := True\<rparr>)"

text \<open>\<open>-(number + 1)\<close> is taken in the signed type, the last addition in the unsigned one.\<close>

definition value_i64 :: "64 word \<Rightarrow> json_writer \<Rightarrow> json_writer" where
  "value_i64 number w =
    (if number <s 0 then
       (let w = (put_char (CHR ''-'') (separate w))\<lparr>jw_needs_comma := False\<rparr>;
            magnitude = (- (number + 1)) + 1
        in value_u64 magnitude w)
     else value_u64 number w)"

definition null_value :: "json_writer \<Rightarrow> json_writer" where
  "null_value w = (put_string ''null'' (separate w))\<lparr>jw_needs_comma := True\<rparr>"

definition raw_json :: "string \<Rightarrow> json_writer \<Rightarrow> json_writer" where
  "raw_json json w = (put_string json (separate w))\<lparr>jw_needs_comma := True\<rparr>"

definition member_string :: "string \<Rightarrow> string \<Rightarrow> json_writer \<Rightarrow> json_writer" where
  "member_string name text w = value_string text (write_key name w)"

definition member_bool :: "string \<Rightarrow> bool \<Rightarrow> json_writer \<Rightarrow> json_writer" where
  "member_bool name flag w = value_bool flag (write_key name w)"

definition member_u64 :: "string \<Rightarrow> u64 \<Rightarrow> json_writer \<Rightarrow> json_writer" where
  "member_u64 name number w = value_u64 number (write_key name w)"

definition member_i64 :: "string \<Rightarrow> 64 word \<Rightarrow> json_writer \<Rightarrow> json_writer" where
  "member_i64 name number w = value_i64 number (write_key name w)"

definition jw_valid :: "json_writer \<Rightarrow> bool" where
  "jw_valid w \<longleftrightarrow> \<not> jw_overflowed w \<and> jw_depth w = 0"

definition jw_length :: "json_writer \<Rightarrow> nat" where
  "jw_length w = length (jw_text w)"

definition jw_reset :: "json_writer \<Rightarrow> json_writer" where
  "jw_reset w =
    w\<lparr>jw_text := [], jw_required := 0, jw_depth := 0, jw_overflowed := False,
      jw_needs_comma := False\<rparr>"

section \<open>Every operation appends one text\<close>

text \<open>
  Each operation is one \<open>put_string\<close> of a text that does not depend on the buffer, so the
  overflow behaviour of the whole writer is that of \<open>put_string\<close>.
\<close>

definition comma :: "json_writer \<Rightarrow> string" where
  "comma w = (if jw_needs_comma w then '','' else [])"

definition escape_char :: "char \<Rightarrow> string" where
  "escape_char c =
    (if c = CHR 0x22 then [CHR 0x5C, CHR 0x22]
     else if c = CHR 0x5C then [CHR 0x5C, CHR 0x5C]
     else if c = CHR 0x0A then [CHR 0x5C, CHR ''n'']
     else if c = CHR 0x0D then [CHR 0x5C, CHR ''r'']
     else if c = CHR 0x09 then [CHR 0x5C, CHR ''t'']
     else if c = CHR 0x08 then [CHR 0x5C, CHR ''b'']
     else if c = CHR 0x0C then [CHR 0x5C, CHR ''f'']
     else if char_byte c < 0x20
     then CHR 0x5C # ''u00'' @ [kHex ! unat (drop_bit 4 (char_byte c) AND 0x0F),
                                kHex ! unat (char_byte c AND 0x0F)]
     else [c])"

definition escape :: "string \<Rightarrow> string" where
  "escape s = concat (map escape_char s)"

definition quoted :: "string \<Rightarrow> string" where
  "quoted s = CHR 0x22 # escape s @ [CHR 0x22]"

definition signed_decimal :: "64 word \<Rightarrow> string" where
  "signed_decimal n =
    (if n <s 0 then CHR ''-'' # decimal (unat (- n)) else decimal (unat n))"

lemma put_string_Nil [simp]: "put_string [] w = w"
  by (simp add: put_string_def)

lemma put_string_Cons: "put_string (c # s) w = put_string s (put_char c w)"
  by (simp add: put_string_def)

lemma put_char_string: "put_char c w = put_string [c] w"
  by (simp add: put_string_def)

lemma put_string_put_string [simp]: "put_string b (put_string a w) = put_string (a @ b) w"
  by (simp add: put_string_def)

lemma put_char_comma [simp]:
  "put_char c (w\<lparr>jw_needs_comma := b\<rparr>) = (put_char c w)\<lparr>jw_needs_comma := b\<rparr>"
  by (simp add: put_char_def Let_def)

lemma put_char_depth [simp]:
  "put_char c (w\<lparr>jw_depth := n\<rparr>) = (put_char c w)\<lparr>jw_depth := n\<rparr>"
  by (simp add: put_char_def Let_def)

lemma put_char_is_object [simp]:
  "put_char c (w\<lparr>jw_is_object := io\<rparr>) = (put_char c w)\<lparr>jw_is_object := io\<rparr>"
  by (simp add: put_char_def Let_def)

lemma put_char_frame [frame_rules, simp]:
  "jw_needs_comma (put_char c w) = jw_needs_comma w" "jw_depth (put_char c w) = jw_depth w"
  "jw_is_object (put_char c w) = jw_is_object w" "jw_capacity (put_char c w) = jw_capacity w"
  by (simp_all add: put_char_def Let_def)

lemma put_string_update [simp]:
  "put_string s (w\<lparr>jw_needs_comma := b\<rparr>) = (put_string s w)\<lparr>jw_needs_comma := b\<rparr>"
  "put_string s (w\<lparr>jw_depth := n\<rparr>) = (put_string s w)\<lparr>jw_depth := n\<rparr>"
  "put_string s (w\<lparr>jw_is_object := io\<rparr>) = (put_string s w)\<lparr>jw_is_object := io\<rparr>"
  by (induction s arbitrary: w) (simp_all add: put_string_Cons)

lemma put_string_frame [frame_rules, simp]:
  "jw_needs_comma (put_string s w) = jw_needs_comma w" "jw_depth (put_string s w) = jw_depth w"
  "jw_is_object (put_string s w) = jw_is_object w" "jw_capacity (put_string s w) = jw_capacity w"
  by (induction s arbitrary: w) (simp_all add: put_string_Cons)

text \<open>What \<open>put_string\<close> does to the buffer.\<close>

lemma put_string_fits:
  "\<not> jw_overflowed w \<Longrightarrow> length (jw_text w) + length s \<le> jw_capacity w \<Longrightarrow>
   put_string s w = w\<lparr>jw_text := jw_text w @ s, jw_required := jw_required w + length s\<rparr>"
  by (induction s arbitrary: w) (simp_all add: put_string_Cons put_char_def Let_def)

lemma put_string_overflowed:
  "jw_overflowed w \<Longrightarrow>
   put_string s w = w\<lparr>jw_required := jw_required w + length s, jw_overflowed := True\<rparr>"
  by (induction s arbitrary: w) (simp_all add: put_string_Cons put_char_def Let_def)

lemma put_string_too_long:
  "length (jw_text w) \<le> jw_capacity w \<Longrightarrow> \<not> jw_overflowed w \<Longrightarrow>
   jw_capacity w < length (jw_text w) + length s \<Longrightarrow>
   put_string s w = w\<lparr>jw_text := jw_text w @ take (jw_capacity w - length (jw_text w)) s,
     jw_required := jw_required w + length s, jw_overflowed := True\<rparr>"
proof (induction s arbitrary: w)
  case (Cons c s)
  show ?case
  proof (cases "length (jw_text w) < jw_capacity w")
    case True
    then have p: "put_char c w = w\<lparr>jw_text := jw_text w @ [c], jw_required := jw_required w + 1\<rparr>"
      using Cons.prems by (simp add: put_char_def)
    have "jw_capacity w - length (jw_text w) = Suc (jw_capacity w - Suc (length (jw_text w)))"
      using True by simp
    then show ?thesis
      using Cons.IH [of "put_char c w"] Cons.prems True
      by (simp add: put_string_Cons p)
  next
    case False
    then have "put_char c w = w\<lparr>jw_required := jw_required w + 1, jw_overflowed := True\<rparr>"
      using Cons.prems by (simp add: put_char_def)
    with False show ?thesis by (simp add: put_string_Cons put_string_overflowed)
  qed
qed simp

text \<open>An escaped character takes at most six bytes.\<close>

lemma escape_char_length: "length (escape_char c) \<le> 6"
  by (simp add: escape_char_def)

lemma escape_length: "length (escape s) \<le> 6 * length s"
proof (induction s)
  case (Cons c s)
  then show ?case using escape_char_length [of c] by (simp add: escape_def)
qed (simp add: escape_def)

lemma put_escaped_char_string: "put_escaped_char c w = put_string (escape_char c) w"
  by (simp add: put_escaped_char_def escape_char_def put_char_string Let_def)

lemma put_escaped_string [simp]: "put_escaped s w = put_string (quoted s) w"
proof -
  have "fold put_escaped_char s v = put_string (escape s) v" for v
    by (induction s arbitrary: v) (simp_all add: escape_def put_escaped_char_string)
  then show ?thesis by (simp add: put_escaped_def quoted_def put_char_string)
qed

lemma separate_string: "separate w = put_string (comma w) w"
  by (simp add: separate_def comma_def put_char_string)

lemma value_u64_string:
  "value_u64 n w = (put_string (comma w @ decimal (unat n)) w)\<lparr>jw_needs_comma := True\<rparr>"
  by (simp add: value_u64_def Let_def separate_string decimal_def put_char_string unat_eq_zero)

lemma value_i64_string:
  "value_i64 n w = (put_string (comma w @ signed_decimal n) w)\<lparr>jw_needs_comma := True\<rparr>"
  by (simp add: value_i64_def Let_def value_u64_string separate_string put_char_string
      signed_decimal_def comma_def)

lemma writer_strings:
  "value_string s w = (put_string (comma w @ quoted s) w)\<lparr>jw_needs_comma := True\<rparr>"
  "value_bool b w =
    (put_string (comma w @ (if b then ''true'' else ''false'')) w)\<lparr>jw_needs_comma := True\<rparr>"
  "null_value w = (put_string (comma w @ ''null'') w)\<lparr>jw_needs_comma := True\<rparr>"
  "raw_json s w = (put_string (comma w @ s) w)\<lparr>jw_needs_comma := True\<rparr>"
  "write_key s w = (put_string (comma w @ quoted s @ '':'') w)\<lparr>jw_needs_comma := False\<rparr>"
  by (simp_all add: value_string_def value_bool_def null_value_def raw_json_def write_key_def
      separate_string put_char_string)

section \<open>The invariant of the writer\<close>

definition jw_wf :: "json_writer \<Rightarrow> bool" where
  "jw_wf w \<longleftrightarrow>
    length (jw_text w) \<le> jw_capacity w \<and> jw_depth w \<le> kMaxDepth \<and>
    length (jw_is_object w) = kMaxDepth \<and> length (jw_text w) \<le> jw_required w \<and>
    (\<not> jw_overflowed w \<longrightarrow> jw_required w = length (jw_text w))"

lemma jw_wf_put_string [invariant_rules]: "jw_wf w \<Longrightarrow> jw_wf (put_string s w)"
  by (cases "jw_overflowed w"; cases "length (jw_text w) + length s \<le> jw_capacity w")
    (auto simp: jw_wf_def put_string_overflowed put_string_fits put_string_too_long)

lemma jw_wf_comma [invariant_rules, simp]: "jw_wf (w\<lparr>jw_needs_comma := b\<rparr>) = jw_wf w"
  by (simp add: jw_wf_def)

lemma jw_wf_new [invariant_rules]: "jw_wf (json_writer capacity)"
  by (simp add: jw_wf_def json_writer_def kMaxDepth_def)

lemma jw_wf_reset [invariant_rules]: "jw_wf w \<Longrightarrow> jw_wf (jw_reset w)"
  by (simp add: jw_wf_def jw_reset_def kMaxDepth_def)

lemma jw_wf_open [invariant_rules]: "jw_wf w \<Longrightarrow> jw_wf (open_bracket c b w)"
proof -
  assume "jw_wf w"
  then have s: "jw_wf (put_string (comma w) w)" by (rule jw_wf_put_string)
  then have "jw_wf ((put_string (comma w) w)\<lparr>jw_overflowed := True\<rparr>)"
    by (simp add: jw_wf_def)
  moreover have "\<not> kMaxDepth \<le> jw_depth w \<Longrightarrow>
      jw_wf ((put_string (comma w) w)\<lparr>jw_is_object := io[d := b], jw_depth := Suc (jw_depth w)\<rparr>)"
    if "length io = kMaxDepth" for io d
    using s that by (simp add: jw_wf_def)
  moreover have "length (jw_is_object w) = kMaxDepth" using \<open>jw_wf w\<close> by (simp add: jw_wf_def)
  ultimately show ?thesis
    by (auto simp: open_bracket_def separate_string Let_def put_char_string
        simp del: put_string_update put_string_put_string intro: jw_wf_put_string)
qed

lemma jw_wf_close [invariant_rules]: "jw_wf w \<Longrightarrow> jw_wf (close_bracket c b w)"
proof -
  assume w: "jw_wf w"
  then have "jw_wf (w\<lparr>jw_overflowed := True\<rparr>)" "jw_wf (w\<lparr>jw_depth := jw_depth w - 1\<rparr>)"
    by (auto simp: jw_wf_def)
  then show ?thesis
    by (auto simp: close_bracket_def put_char_string simp del: put_string_update
        intro: jw_wf_put_string)
qed

text \<open>An overflow is never forgotten.\<close>

lemma put_string_sticky: "jw_overflowed w \<Longrightarrow> jw_overflowed (put_string s w)"
  by (simp add: put_string_overflowed)

lemma open_bracket_sticky: "jw_overflowed w \<Longrightarrow> jw_overflowed (open_bracket c b w)"
  by (auto simp: open_bracket_def separate_string Let_def put_char_string put_string_overflowed)

lemma close_bracket_sticky: "jw_overflowed w \<Longrightarrow> jw_overflowed (close_bracket c b w)"
  by (auto simp: close_bracket_def put_char_string put_string_overflowed)

section \<open>Writing a whole document\<close>

text \<open>
  A document as a tree, the calls that write it in the order the program makes them, and the
  text it stands for. \<open>JRaw\<close> is a document spliced in by \<open>raw_json\<close>.
\<close>

datatype jtree =
    JText string
  | JBool bool
  | JUnsigned u64
  | JSigned "64 word"
  | JNull
  | JRaw string
  | JArray "jtree list"
  | JObject "(string \<times> jtree) list"

fun write_json :: "jtree \<Rightarrow> json_writer \<Rightarrow> json_writer"
  and write_items :: "jtree list \<Rightarrow> json_writer \<Rightarrow> json_writer"
  and write_members :: "(string \<times> jtree) list \<Rightarrow> json_writer \<Rightarrow> json_writer" where
  "write_json (JText s) w = value_string s w"
| "write_json (JBool b) w = value_bool b w"
| "write_json (JUnsigned n) w = value_u64 n w"
| "write_json (JSigned n) w = value_i64 n w"
| "write_json JNull w = null_value w"
| "write_json (JRaw s) w = raw_json s w"
| "write_json (JArray js) w = end_array (write_items js (begin_array w))"
| "write_json (JObject ms) w = end_object (write_members ms (begin_object w))"
| "write_items [] w = w"
| "write_items (j # js) w = write_items js (write_json j w)"
| "write_members [] w = w"
| "write_members ((n, j) # ms) w = write_members ms (write_json j (write_key n w))"

fun with_commas :: "string list \<Rightarrow> string" where
  "with_commas [] = []"
| "with_commas [x] = x"
| "with_commas (x # y # rest) = x @ '','' @ with_commas (y # rest)"

fun render :: "jtree \<Rightarrow> string"
  and item_texts :: "jtree list \<Rightarrow> string list"
  and member_texts :: "(string \<times> jtree) list \<Rightarrow> string list" where
  "render (JText s) = quoted s"
| "render (JBool b) = (if b then ''true'' else ''false'')"
| "render (JUnsigned n) = decimal (unat n)"
| "render (JSigned n) = signed_decimal n"
| "render JNull = ''null''"
| "render (JRaw s) = s"
| "render (JArray js) = CHR 0x5B # with_commas (item_texts js) @ [CHR 0x5D]"
| "render (JObject ms) = CHR 0x7B # with_commas (member_texts ms) @ [CHR 0x7D]"
| "item_texts [] = []"
| "item_texts (j # js) = render j # item_texts js"
| "member_texts [] = []"
| "member_texts ((n, j) # ms) = (quoted n @ '':'' @ render j) # member_texts ms"

fun height :: "jtree \<Rightarrow> nat"
  and items_height :: "jtree list \<Rightarrow> nat"
  and members_height :: "(string \<times> jtree) list \<Rightarrow> nat" where
  "height (JArray js) = Suc (items_height js)"
| "height (JObject ms) = Suc (members_height ms)"
| "height j = 0"
| "items_height [] = 0"
| "items_height (j # js) = max (height j) (items_height js)"
| "members_height [] = 0"
| "members_height ((n, j) # ms) = max (height j) (members_height ms)"

text \<open>
  \<open>appends s w w'\<close>: \<open>w'\<close> is \<open>w\<close> after the text \<open>s\<close>, ready for a comma when \<open>b\<close>; what is
  recorded of levels that are closed again may differ.
\<close>

definition appends :: "string \<Rightarrow> bool \<Rightarrow> json_writer \<Rightarrow> json_writer \<Rightarrow> bool" where
  "appends s b w w' \<longleftrightarrow>
    (\<exists>io. length io = kMaxDepth \<and> take (jw_depth w) io = take (jw_depth w) (jw_is_object w)
      \<and> w' = (put_string s w)\<lparr>jw_is_object := io, jw_needs_comma := b\<rparr>)"

definition separated :: "json_writer \<Rightarrow> string list \<Rightarrow> string" where
  "separated w texts = (if texts = [] then [] else comma w @ with_commas texts)"

lemma appends_frame:
  assumes "appends s b w w'"
  shows "jw_depth w' = jw_depth w" "jw_needs_comma w' = b" "length (jw_is_object w') = kMaxDepth"
    "jw_capacity w' = jw_capacity w" "comma w' = (if b then '','' else [])"
    "take (jw_depth w) (jw_is_object w') = take (jw_depth w) (jw_is_object w)"
  using assms by (auto simp: appends_def comma_def)

lemma appends_trans:
  assumes "appends s b w w'" and "appends t c w' w''"
  shows "appends (s @ t) c w w''"
  using assms by (fastforce simp: appends_def)

lemma appends_refl: "length (jw_is_object w) = kMaxDepth \<Longrightarrow> appends [] (jw_needs_comma w) w w"
  by (auto simp: appends_def intro!: exI [of _ "jw_is_object w"])

lemma appends_string:
  "length (jw_is_object w) = kMaxDepth \<Longrightarrow>
   appends s b w ((put_string s w)\<lparr>jw_needs_comma := b\<rparr>)"
  by (auto simp: appends_def intro!: exI [of _ "jw_is_object w"])

lemma open_bracket_string:
  "jw_depth w < kMaxDepth \<Longrightarrow>
   open_bracket c b w = (put_string (comma w @ [c]) w)\<lparr>jw_is_object := (jw_is_object w)[jw_depth w := b],
     jw_depth := Suc (jw_depth w), jw_needs_comma := False\<rparr>"
  by (simp add: open_bracket_def separate_string Let_def put_char_string)

text \<open>A bracketed run of texts: open, the run, close.\<close>

lemma appends_bracketed:
  assumes "jw_depth w < kMaxDepth" and "length (jw_is_object w) = kMaxDepth"
    and "appends s c (open_bracket l b w) w'"
  shows "appends (comma w @ l # s @ [r]) True w (close_bracket r b w')"
proof -
  let ?o = "open_bracket l b w"
  have d: "jw_depth ?o = Suc (jw_depth w)" and io: "jw_is_object ?o = (jw_is_object w)[jw_depth w := b]"
    using assms(1) by (simp_all add: open_bracket_string)
  obtain io where io': "length io = kMaxDepth"
    "take (Suc (jw_depth w)) io = take (Suc (jw_depth w)) ((jw_is_object w)[jw_depth w := b])"
    and w': "w' = (put_string s ?o)\<lparr>jw_is_object := io, jw_needs_comma := c\<rparr>"
    using assms(3) d io by (auto simp: appends_def)
  have "io ! jw_depth w = (jw_is_object w)[jw_depth w := b] ! jw_depth w"
    using io'(2) by (metis lessI nth_take)
  then have b: "io ! jw_depth w = b" using assms(1,2) by simp
  have "take (jw_depth w) io = take (jw_depth w) ((jw_is_object w)[jw_depth w := b])"
    using arg_cong [OF io'(2), of "take (jw_depth w)"] by (simp add: min_def)
  then have t: "take (jw_depth w) io = take (jw_depth w) (jw_is_object w)" by simp
  have "close_bracket r b w' =
      (put_string (comma w @ l # s @ [r]) w)\<lparr>jw_is_object := io, jw_needs_comma := True\<rparr>"
    using assms(1) b unfolding w'
    by (simp add: close_bracket_def open_bracket_string put_char_string)
  with io'(1) t show ?thesis by (auto simp: appends_def)
qed

lemma with_commas_Cons:
  "with_commas (x # xs) = (if xs = [] then x else x @ '','' @ with_commas xs)"
  by (cases xs) simp_all

lemma item_texts_Nil [simp]: "item_texts js = [] \<longleftrightarrow> js = []"
  by (cases js) simp_all

lemma member_texts_Nil [simp]: "member_texts ms = [] \<longleftrightarrow> ms = []"
  by (cases ms; cases "hd ms") auto

lemma write_json_appends:
  "jw_depth w + height j \<le> kMaxDepth \<Longrightarrow> length (jw_is_object w) = kMaxDepth \<Longrightarrow>
   appends (comma w @ render j) True w (write_json j w)"
  "jw_depth w + items_height js \<le> kMaxDepth \<Longrightarrow> length (jw_is_object w) = kMaxDepth \<Longrightarrow>
   appends (separated w (item_texts js)) (js \<noteq> [] \<or> jw_needs_comma w) w (write_items js w)"
  "jw_depth w + members_height ms \<le> kMaxDepth \<Longrightarrow> length (jw_is_object w) = kMaxDepth \<Longrightarrow>
   appends (separated w (member_texts ms)) (ms \<noteq> [] \<or> jw_needs_comma w) w (write_members ms w)"
proof (induction j w and js w and ms w rule: write_json_write_items_write_members.induct)
  case (7 js w)
  let ?o = "open_bracket (CHR 0x5B) False w"
  have "jw_depth w < kMaxDepth" using "7.prems" by simp
  moreover from this have "appends (with_commas (item_texts js)) (js \<noteq> []) ?o (write_items js ?o)"
    using 7 by (simp add: begin_array_def open_bracket_string separated_def comma_def
        split: if_splits)
  ultimately show ?case
    using appends_bracketed [of w] "7.prems" by (simp add: begin_array_def end_array_def)
next
  case (8 ms w)
  let ?o = "open_bracket (CHR 0x7B) True w"
  have "jw_depth w < kMaxDepth" using "8.prems" by simp
  moreover from this have "appends (with_commas (member_texts ms)) (ms \<noteq> []) ?o (write_members ms ?o)"
    using 8 by (simp add: begin_object_def open_bracket_string separated_def comma_def
        split: if_splits)
  ultimately show ?case
    using appends_bracketed [of w] "8.prems" by (simp add: begin_object_def end_object_def)
next
  case (9 w)
  then show ?case by (simp add: separated_def appends_refl)
next
  case (10 j js w)
  let ?w = "write_json j w"
  have a: "appends (comma w @ render j) True w ?w" using 10 by simp
  note f = appends_frame [OF a]
  have "appends (separated ?w (item_texts js)) (js \<noteq> [] \<or> jw_needs_comma ?w) ?w (write_items js ?w)"
    using 10 f by simp
  from appends_trans [OF a this] f show ?case
    by (cases "js = []") (simp_all add: separated_def with_commas_Cons)
next
  case (11 w)
  then show ?case by (simp add: separated_def appends_refl)
next
  case (12 n j ms w)
  let ?k = "write_key n w"
  let ?w = "write_json j ?k"
  have k: "appends (comma w @ quoted n @ '':'') False w ?k"
    using "12.prems" by (simp add: writer_strings appends_string)
  note fk = appends_frame [OF k]
  have "appends (comma ?k @ render j) True ?k ?w" using 12 fk by simp
  from appends_trans [OF k this] fk
  have a: "appends (comma w @ quoted n @ '':'' @ render j) True w ?w" by simp
  note f = appends_frame [OF a]
  have "appends (separated ?w (member_texts ms)) (ms \<noteq> [] \<or> jw_needs_comma ?w) ?w (write_members ms ?w)"
    using 12 f by simp
  from appends_trans [OF a this] f show ?case
    by (cases "ms = []") (simp_all add: separated_def with_commas_Cons)
qed (auto simp: writer_strings value_u64_string value_i64_string intro!: appends_string)

lemma write_json_sticky:
  "jw_overflowed w \<Longrightarrow> jw_overflowed (write_json j w)"
  "jw_overflowed w \<Longrightarrow> jw_overflowed (write_items js w)"
  "jw_overflowed w \<Longrightarrow> jw_overflowed (write_members ms w)"
  by (induction j w and js w and ms w rule: write_json_write_items_write_members.induct)
    (simp_all add: writer_strings value_u64_string value_i64_string put_string_sticky
      begin_object_def end_object_def begin_array_def end_array_def open_bracket_sticky
      close_bracket_sticky)

lemma open_too_deep: "kMaxDepth \<le> jw_depth w \<Longrightarrow> jw_overflowed (open_bracket c b w)"
  by (simp add: open_bracket_def separate_string Let_def)

lemma bracketed_too_deep:
  assumes "\<not> jw_depth w + Suc h \<le> kMaxDepth" and "length (jw_is_object w) = kMaxDepth"
    and "\<And>v. jw_overflowed v \<Longrightarrow> jw_overflowed (f v)"
    and "jw_depth w < kMaxDepth \<Longrightarrow> jw_overflowed (f (open_bracket l b w))"
  shows "jw_overflowed (close_bracket r b (f (open_bracket l b w)))"
proof (rule close_bracket_sticky, cases "jw_depth w < kMaxDepth")
  case False
  then show "jw_overflowed (f (open_bracket l b w))" by (intro assms(3) open_too_deep) simp
qed (rule assms(4))

lemma write_json_too_deep:
  "jw_depth w \<le> kMaxDepth \<Longrightarrow> \<not> jw_depth w + height j \<le> kMaxDepth \<Longrightarrow>
   length (jw_is_object w) = kMaxDepth \<Longrightarrow> jw_overflowed (write_json j w)"
  "jw_depth w \<le> kMaxDepth \<Longrightarrow> \<not> jw_depth w + items_height js \<le> kMaxDepth \<Longrightarrow>
   length (jw_is_object w) = kMaxDepth \<Longrightarrow> jw_overflowed (write_items js w)"
  "jw_depth w \<le> kMaxDepth \<Longrightarrow> \<not> jw_depth w + members_height ms \<le> kMaxDepth \<Longrightarrow>
   length (jw_is_object w) = kMaxDepth \<Longrightarrow> jw_overflowed (write_members ms w)"
proof (induction j w and js w and ms w rule: write_json_write_items_write_members.induct)
  case (7 js w)
  show ?case
    unfolding write_json.simps end_array_def begin_array_def
    using 7 by (intro bracketed_too_deep [where h = "items_height js"])
      (auto simp: write_json_sticky begin_array_def open_bracket_string)
next
  case (8 ms w)
  show ?case
    unfolding write_json.simps end_object_def begin_object_def
    using 8 by (intro bracketed_too_deep [where h = "members_height ms"])
      (auto simp: write_json_sticky begin_object_def open_bracket_string)
next
  case (10 j js w)
  show ?case
  proof (cases "jw_depth w + height j \<le> kMaxDepth")
    case True
    then have "appends (comma w @ render j) True w (write_json j w)"
      using 10 by (simp add: write_json_appends)
    from appends_frame [OF this] 10 True show ?thesis by simp
  qed (use 10 in \<open>simp add: write_json_sticky\<close>)
next
  case (12 n j ms w)
  have k: "jw_depth (write_key n w) = jw_depth w"
    "length (jw_is_object (write_key n w)) = kMaxDepth"
    using "12.prems" by (simp_all add: writer_strings)
  show ?case
  proof (cases "jw_depth w + height j \<le> kMaxDepth")
    case True
    then have "appends (comma (write_key n w) @ render j) True (write_key n w)
        (write_json j (write_key n w))"
      using k by (simp add: write_json_appends)
    from appends_frame [OF this] 12 True k show ?thesis by simp
  qed (use 12 k in \<open>simp add: write_json_sticky\<close>)
qed simp_all

text \<open>
  A tree written into a fresh writer is valid exactly when it is not too deep and its text
  fits, and then the text is the whole document.
\<close>

lemma write_json_exact:
  "jw_valid (write_json j (json_writer capacity)) \<longleftrightarrow>
     height j \<le> kMaxDepth \<and> length (render j) \<le> capacity"
  "jw_valid (write_json j (json_writer capacity)) \<Longrightarrow>
     jw_text (write_json j (json_writer capacity)) = render j"
proof -
  let ?w = "json_writer capacity" and ?v = "write_json j (json_writer capacity)"
  have w: "jw_depth ?w = 0" "length (jw_is_object ?w) = kMaxDepth" "comma ?w = []"
    "\<not> jw_overflowed ?w" "jw_text ?w = []" "jw_capacity ?w = capacity"
    by (simp_all add: json_writer_def comma_def)
  have "(jw_valid ?v \<longleftrightarrow> height j \<le> kMaxDepth \<and> length (render j) \<le> capacity)
      \<and> (jw_valid ?v \<longrightarrow> jw_text ?v = render j)"
  proof (cases "height j \<le> kMaxDepth")
    case True
    then obtain io where
      v: "?v = (put_string (render j) ?w)\<lparr>jw_is_object := io, jw_needs_comma := True\<rparr>"
      using write_json_appends(1) [of ?w j] w by (auto simp: appends_def)
    show ?thesis
    proof (cases "length (render j) \<le> capacity")
      case fits: True
      have "put_string (render j) ?w = ?w\<lparr>jw_text := render j, jw_required := jw_required ?w + length (render j)\<rparr>"
        using fits w by (simp add: put_string_fits)
      with v w True fits show ?thesis by (simp add: jw_valid_def)
    next
      case False
      then have "jw_overflowed (put_string (render j) ?w)"
        using w put_string_too_long [of ?w "render j"] by simp
      with v False show ?thesis by (simp add: jw_valid_def)
    qed
  next
    case False
    then have "jw_overflowed ?v" using w by (simp add: write_json_too_deep)
    with False show ?thesis by (simp add: jw_valid_def)
  qed
  then show "jw_valid ?v \<longleftrightarrow> height j \<le> kMaxDepth \<and> length (render j) \<le> capacity"
    and "jw_valid ?v \<Longrightarrow> jw_text ?v = render j" by blast+
qed

section \<open>Properties\<close>

text \<open>C27: a document written to a new writer is valid exactly when it nests at most as deep as the
  writer tracks and its text fits the buffer, and then the buffer holds that text.\<close>
theorem writer_exact:
  "if height j \<le> kMaxDepth \<and> length (render j) \<le> capacity
   then jw_valid (write_json j (json_writer capacity)) \<and> jw_text (write_json j (json_writer capacity)) = render j
   else \<not> jw_valid (write_json j (json_writer capacity))"
  using write_json_exact [of j capacity] by simp

end
