(* ===== verification/Json_Documents.thy ===== *)
theory Json_Documents
  imports Json_Writer Json_Grammar
begin

text \<open>
  The writer against the reader's grammar: the text of a tree is a JSON value of
  \<open>Json_Grammar\<close>, so what one side of the device sends is what the other side calls JSON.
\<close>

section \<open>Strings and numbers\<close>

lemma body_append: "jstring_body u s \<Longrightarrow> jstring_body u t \<Longrightarrow> jstring_body u (s @ t)"
  by (induction u s rule: jstring_body.induct) (auto intro: jstring_body.intros)

lemma control_char: "char_byte c < 0x20 \<longleftrightarrow> c < CHR 0x20"
  by (simp add: word_less_nat_alt less_char_def)

lemma hex_digit_char: "n < 16 \<Longrightarrow> is_hex_digit (kHex ! n)"
proof -
  assume "n < 16"
  then have "n \<in> set [0..<16]" by simp
  then show ?thesis
    by (auto simp: upt_rec kHex_def is_hex_digit_def is_digit_def less_eq_char_def)
qed

lemma nibble: "unat (w AND 0x0F) < 16" for w :: u8
proof -
  have "w AND 0x0F \<le> 0x0F" by (rule word_and_le1)
  then show ?thesis by (simp add: word_le_nat_alt)
qed

definition short_escape :: "char \<Rightarrow> bool" where
  "short_escape c \<longleftrightarrow> c = CHR 0x22 \<or> c = CHR 0x5C \<or> c = CHR 0x0A \<or> c = CHR 0x0D \<or> c = CHR 0x09 \<or>
    c = CHR 0x08 \<or> c = CHR 0x0C"

lemma short_escape_body:
  assumes "short_escape c"
  shows "jstring_body u (escape_char c)"
proof -
  have "\<exists>e. escape_char c = [CHR 0x5C, e] \<and> is_simple_escape e"
    using assms unfolding short_escape_def
    by (elim disjE) (simp_all add: escape_char_def is_simple_escape_def)
  then show ?thesis using body_escape [of _ u "[]"] body_empty by auto
qed

lemma plain_char_body:
  assumes "\<not> short_escape c" and "\<not> c < CHR 0x20"
  shows "jstring_body u (escape_char c)"
proof -
  have "escape_char c = [c]"
    using assms by (simp add: escape_char_def short_escape_def control_char)
  then show ?thesis
    using body_plain [of c u "[]"] assms body_empty by (simp add: short_escape_def)
qed

lemma escape_char_body: "jstring_body True (escape_char c)"
proof (cases "short_escape c \<or> \<not> c < CHR 0x20")
  case True
  then show ?thesis using short_escape_body plain_char_body by blast
next
  case False
  have z: "is_hex_digit (CHR ''0'')" by (simp add: is_hex_digit_def is_digit_def)
  have "escape_char c = CHR 0x5C # CHR ''u'' # CHR ''0'' # CHR ''0'' #
      (kHex ! unat (drop_bit 4 (char_byte c) AND 0x0F)) # (kHex ! unat (char_byte c AND 0x0F)) # []"
    using False by (simp add: escape_char_def short_escape_def control_char)
  then show ?thesis
    using body_unicode [OF z z hex_digit_char [OF nibble] hex_digit_char [OF nibble] body_empty]
    by metis
qed

lemma escape_body: "jstring_body True (escape s)"
  by (induction s) (auto simp: escape_def intro: body_append escape_char_body body_empty)

text \<open>A key without control characters needs no unicode escape, which the checked reader refuses.\<close>

definition key_ok :: "string \<Rightarrow> bool" where
  "key_ok k \<longleftrightarrow> (\<forall>c\<in>set k. CHR 0x20 \<le> c)"

lemma escape_key_char: "CHR 0x20 \<le> c \<Longrightarrow> jstring_body False (escape_char c)"
  using short_escape_body plain_char_body by (metis not_less)

lemma escape_key: "key_ok k \<Longrightarrow> jstring_body False (escape k)"
  by (induction k) (auto simp: escape_def key_ok_def intro: body_append escape_key_char body_empty)

lemma last_digits_rev: "n > 0 \<Longrightarrow> last (digits_rev n) \<noteq> CHR ''0''"
proof (induction n rule: digits_rev.induct)
  case (1 n)
  show ?case
  proof (cases "n < 10")
    case True
    with 1 have "digits_rev n = [digit_char n]" by (simp add: digits_rev_pos)
    moreover have "digit_char n = CHR ''0'' \<Longrightarrow> n = 0"
      using True digit_value_digit_char [of n] by (simp add: digit_value_def)
    ultimately show ?thesis using 1 by auto
  next
    case False
    then have "digits_rev (n div 10) \<noteq> []" by (simp add: digits_rev_pos)
    with False 1 show ?thesis by (simp add: digits_rev_pos [of n])
  qed
qed

lemma decimal_integer: "jinteger (decimal n)"
proof (cases "n = 0")
  case False
  then have "hd (decimal n) \<noteq> CHR ''0''"
    using last_digits_rev [of n] by (simp add: decimal_def hd_rev)
  then show ?thesis by (simp add: jinteger_def digits_def decimal_digits)
qed (simp add: jinteger_def decimal_def)

lemma decimal_number: "jnumber (decimal n)" "jnumber (CHR ''-'' # decimal n)"
proof -
  have "jnumber (sg @ decimal n)" if "sg \<in> {[], ''-''}" for sg
    unfolding jnumber_def
    by (intro exI [of _ sg] exI [of _ "decimal n"] exI [of _ "[]"])
      (use that decimal_integer in \<open>simp add: jfraction_def jexponent_def\<close>)
  from this [of "[]"] this [of "''-''"] show "jnumber (decimal n)" "jnumber (CHR ''-'' # decimal n)"
    by simp_all
qed

section \<open>Trees\<close>

fun tree_ok :: "bool \<Rightarrow> nat \<Rightarrow> jtree \<Rightarrow> bool"
  and items_ok :: "bool \<Rightarrow> nat \<Rightarrow> jtree list \<Rightarrow> bool"
  and members_ok :: "bool \<Rightarrow> nat \<Rightarrow> (string \<times> jtree) list \<Rightarrow> bool" where
  "tree_ok u l (JRaw s) \<longleftrightarrow> jvalue u l s"
| "tree_ok u l (JArray js) \<longleftrightarrow> 0 < l \<and> items_ok u (l - 1) js"
| "tree_ok u l (JObject ms) \<longleftrightarrow> 0 < l \<and> members_ok u (l - 1) ms \<and>
     (u \<longrightarrow> distinct (map (\<lambda>m. escape (fst m)) ms))"
| "tree_ok u l (JText s) \<longleftrightarrow> True"
| "tree_ok u l (JBool b) \<longleftrightarrow> True"
| "tree_ok u l (JUnsigned n) \<longleftrightarrow> True"
| "tree_ok u l (JSigned m) \<longleftrightarrow> True"
| "tree_ok u l JNull \<longleftrightarrow> True"
| "items_ok u l [] \<longleftrightarrow> True"
| "items_ok u l (j # js) \<longleftrightarrow> tree_ok u l j \<and> items_ok u l js"
| "members_ok u l [] \<longleftrightarrow> True"
| "members_ok u l ((n, j) # ms) \<longleftrightarrow> key_ok n \<and> tree_ok u l j \<and> members_ok u l ms"

definition member_keys :: "(string \<times> jtree) list \<Rightarrow> (string \<times> string) list" where
  "member_keys ms = map (\<lambda>m. (escape (fst m), render (snd m))) ms"

lemma ws_Nil: "ws []"
  by (simp add: ws_def)

lemma with_commas_step: "with_commas (x # xs) = (if xs = [] then x else x @ '','' @ with_commas xs)"
  by (cases xs) simp_all

lemma tree_ok_value:
  "tree_ok u l j \<Longrightarrow> jvalue u l (render j)"
  "items_ok u l js \<Longrightarrow> js \<noteq> [] \<Longrightarrow> jelements u l (with_commas (item_texts js))"
  "members_ok u l ms \<Longrightarrow> ms \<noteq> [] \<Longrightarrow> jmembers u l (member_keys ms) (with_commas (member_texts ms))"
proof (induction u l j and u l js and u l ms rule: tree_ok_items_ok_members_ok.induct)
  case (2 u l js)
  then obtain k where l: "l = Suc k" by (cases l) auto
  show ?case
  proof (cases "js = []")
    case True
    then show ?thesis using jv_empty_array [OF ws_Nil, of u k] l by simp
  next
    case False
    then show ?thesis using 2 jv_array [OF ws_Nil, of u k] l by simp
  qed
next
  case (3 u l ms)
  then obtain k where l: "l = Suc k" by (cases l) auto
  show ?case
  proof (cases "ms = []")
    case True
    then show ?thesis using jv_empty_object [OF ws_Nil, of u k] l by simp
  next
    case False
    moreover have "map fst (member_keys ms) = map (\<lambda>m. escape (fst m)) ms"
      by (simp add: member_keys_def)
    ultimately show ?thesis using 3 jv_object [OF ws_Nil, of u k "member_keys ms"] l by simp
  qed
next
  case (4 u l s)
  then show ?case using jv_string [OF escape_body] by (simp add: quoted_def)
next
  case (5 u l b)
  then show ?case using jv_keyword by (cases b) simp_all
next
  case (6 u l n)
  then show ?case using jv_number decimal_number by simp
next
  case (7 u l n)
  then show ?case using jv_number decimal_number by (simp add: signed_decimal_def)
next
  case (8 u l)
  then show ?case using jv_keyword by simp
next
  case (10 u l j js)
  then show ?case
    using je_last [OF _ ws_Nil, of u l "render j"] je_more [OF _ ws_Nil ws_Nil, of u l "render j"]
    by (cases "js = []") (simp_all add: with_commas_step item_texts_Nil)
next
  case (12 u l n j ms)
  have k: "jstring_body False (escape n)" "jvalue u l (render j)" using 12 escape_key by simp_all
  show ?case
  proof (cases "ms = []")
    case True
    then show ?thesis
      using jm_last [OF k(1) ws_Nil ws_Nil k(2) ws_Nil]
      by (simp add: member_keys_def quoted_def)
  next
    case False
    then have m: "jmembers u l (member_keys ms) (with_commas (member_texts ms))" using 12 by simp
    show ?thesis
      using jm_more [OF k(1) ws_Nil ws_Nil k(2) ws_Nil ws_Nil m] False
      by (simp add: member_keys_def quoted_def with_commas_step member_texts_Nil)
  qed
qed simp_all

text \<open>Whatever the writer calls valid is one complete value.\<close>

lemma valid_document:
  "tree_ok u l j \<Longrightarrow> jw_valid (write_json j (json_writer capacity)) \<Longrightarrow>
   jvalue u l (jw_text (write_json j (json_writer capacity)))"
  using write_json_exact(2) tree_ok_value(1) by simp

lemma unescape_loop_escape:
  assumes "\<forall>c\<in>set s. CHR 0x20 \<le> c \<or> short_escape c" and "length out + length s \<le> capacity"
  shows "unescape_loop capacity (escape s) out = (out @ s, True)"
  using assms
proof (induction s arbitrary: out)
  case (Cons c s)
  have "unescape_loop capacity (escape_char c @ escape s) out = unescape_loop capacity (escape s) (out @ [c])"
  proof (cases "short_escape c")
    case True
    then show ?thesis
      using Cons.prems(2) unfolding short_escape_def
      by (elim disjE) (simp_all add: escape_char_def unescaped_char_def)
  next
    case False
    then have "escape_char c = [c]" "c \<noteq> backslash"
      using Cons.prems(1) control_char [of c] by (auto simp: escape_char_def short_escape_def)
    with Cons.prems(2) show ?thesis by simp
  qed
  with Cons show ?case by (simp add: escape_def)
qed (simp add: escape_def)

section \<open>Properties\<close>

text \<open>C28: a document of valid keys and values, written to a buffer it fits, is a JSON text of the
  grammar the checked reader accepts, nested as deep as the tree and with distinct keys when its
  objects have them.\<close>
theorem written_document_parses:
  assumes "tree_ok distinct_keys levels j" and "jw_valid (write_json j (json_writer capacity))"
  shows "jvalue distinct_keys levels (jw_text (write_json j (json_writer capacity)))"
  by (rule valid_document [OF assms])

definition sample_tree :: jtree where
  "sample_tree = JObject [(''text'', JText [CHR 0x22, CHR 0x0A, CHR 0x01]), (''items'', JArray [JSigned (- 5), JNull])]"

lemma written_document_parses_witness:
  "jvalue True 2 (jw_text (write_json sample_tree (json_writer 100)))"
proof -
  have "tree_ok True 2 sample_tree" by (simp add: sample_tree_def key_ok_def escape_def escape_char_def)
  moreover have "jw_valid (write_json sample_tree (json_writer 100))" by code_simp
  ultimately show ?thesis by (rule written_document_parses)
qed

text \<open>Text that is written escaped and read back unescaped is the same text, when the buffer holds
  it and its control characters are those with a short escape.\<close>
theorem unescape_escape:
  assumes "\<forall>c\<in>set s. CHR 0x20 \<le> c \<or> short_escape c" and "length s \<le> capacity"
  shows "json_unescape (escape s) True capacity = (s, Some (length s))"
  using unescape_loop_escape [of s "[]" capacity] assms by (simp add: json_unescape_def)

lemma unescape_escape_witness:
  "json_unescape (escape [CHR 0x22, CHR ''a'', CHR 0x0A]) True 3 = ([CHR 0x22, CHR ''a'', CHR 0x0A], Some 3)"
  using unescape_escape [of "[CHR 0x22, CHR ''a'', CHR 0x0A]" 3] by (simp add: short_escape_def)

end
