(* ===== verification/Sse.thy ===== *)
theory Sse
  imports Prelude
begin

text \<open>
  \<open>sse.cpp\<close>: the reader of server-sent events. Bytes are assembled into lines, data lines into
  events, and complete events wait, packed as a two-byte length and a body, in a queue of fixed
  size. The fixed arrays are modelled by the text in use: \<open>sr_line\<close> is \<open>line_[0..line_len_)\<close>,
  \<open>sr_event\<close> is \<open>event_[0..event_len_)\<close>, \<open>sr_fifo\<close> is \<open>fifo_[0..fifo_write_)\<close>.
\<close>

definition kMaxEventBytes :: nat where
  "kMaxEventBytes = 8192"

definition kSseFifoBytes :: nat where
  "kSseFifoBytes = kMaxEventBytes * 2"

abbreviation CR :: char where "CR \<equiv> CHR 0x0D"
abbreviation LF :: char where "LF \<equiv> CHR 0x0A"

record sse_reader =
  sr_line :: string
  sr_line_overflow :: bool
  sr_last_was_cr :: bool
  sr_event :: string
  sr_event_has_data :: bool
  sr_event_overflow :: bool
  sr_fifo :: string
  sr_fifo_read :: nat
  sr_dropped :: nat

definition sse_reader :: sse_reader where
  "sse_reader =
    \<lparr>sr_line = [], sr_line_overflow = False, sr_last_was_cr = False, sr_event = [],
     sr_event_has_data = False, sr_event_overflow = False, sr_fifo = [], sr_fifo_read = 0,
     sr_dropped = 0\<rparr>"

definition split_field :: "string \<Rightarrow> string \<times> string" where
  "split_field line =
    (if CHR '':'' \<notin> set line then (line, [])
     else
       (let name = takeWhile (\<lambda>c. c \<noteq> CHR '':'') line;
            val = drop (length name + 1) line
        in (name, if val \<noteq> [] \<and> hd val = CHR '' '' then tl val else val)))"

definition dispatch :: "sse_reader \<Rightarrow> sse_reader" where
  "dispatch r =
    (let had_data = sr_event_has_data r;
         overflow = sr_event_overflow r;
         event = sr_event r;
         r = r\<lparr>sr_event := [], sr_event_has_data := False, sr_event_overflow := False\<rparr>
     in if \<not> had_data then r
        else if overflow then r\<lparr>sr_dropped := sr_dropped r + 1\<rparr>
        else
          (let len = length event;
               need = 2 + len
           in if length (sr_fifo r) + need > kSseFifoBytes
              then r\<lparr>sr_dropped := sr_dropped r + 1\<rparr>
              else r\<lparr>sr_fifo := sr_fifo r @ [char_of (len mod 256), char_of (len div 256 mod 256)]
                       @ event\<rparr>))"

text \<open>The second half of \<open>take_line\<close>, for a line that is neither blank nor a comment.\<close>

definition take_field :: "sse_reader \<Rightarrow> sse_reader" where
  "take_field r =
    (let (name, val) = split_field (sr_line r) in
     if name \<noteq> ''data'' then r
     else if sr_line_overflow r then r\<lparr>sr_event_overflow := True, sr_event_has_data := True\<rparr>
     else
       (let need = length val + (if sr_event_has_data r then 1 else 0) in
        if length (sr_event r) + need > kMaxEventBytes
        then r\<lparr>sr_event_overflow := True, sr_event_has_data := True\<rparr>
        else r\<lparr>sr_event := sr_event r @ (if sr_event_has_data r then [LF] else []) @ val,
               sr_event_has_data := True\<rparr>))"

definition take_line :: "sse_reader \<Rightarrow> sse_reader" where
  "take_line r =
    (if sr_line r = [] \<and> \<not> sr_line_overflow r then dispatch r
     else if sr_line r \<noteq> [] \<and> hd (sr_line r) = CHR '':'' then r
     else take_field r)"

definition end_line :: "sse_reader \<Rightarrow> sse_reader" where
  "end_line r = (take_line r)\<lparr>sr_line := [], sr_line_overflow := False\<rparr>"

text \<open>The body of the loop in \<open>feed\<close>.\<close>

definition feed_char :: "char \<Rightarrow> sse_reader \<Rightarrow> sse_reader" where
  "feed_char c r =
    (if c = CR then (end_line r)\<lparr>sr_last_was_cr := True\<rparr>
     else if c = LF then
       (if sr_last_was_cr r then r\<lparr>sr_last_was_cr := False\<rparr> else end_line r)
     else
       (let r = r\<lparr>sr_last_was_cr := False\<rparr>
        in if length (sr_line r) < kMaxEventBytes then r\<lparr>sr_line := sr_line r @ [c]\<rparr>
           else r\<lparr>sr_line_overflow := True\<rparr>))"

definition sse_rewind :: "sse_reader \<Rightarrow> sse_reader" where
  "sse_rewind r =
    (if sr_fifo_read r = length (sr_fifo r) then r\<lparr>sr_fifo_read := 0, sr_fifo := []\<rparr> else r)"

definition sse_feed :: "string \<Rightarrow> sse_reader \<Rightarrow> sse_reader" where
  "sse_feed bytes r = fold feed_char bytes (sse_rewind r)"

definition next_event :: "sse_reader \<Rightarrow> string option \<times> sse_reader" where
  "next_event r =
    (if sr_fifo_read r = length (sr_fifo r) then (None, r)
     else
       (let low = of_char (sr_fifo r ! sr_fifo_read r) :: nat;
            high = of_char (sr_fifo r ! (sr_fifo_read r + 1)) :: nat;
            len = low + 256 * high
        in (Some (substr (sr_fifo r) (sr_fifo_read r + 2) len),
            r\<lparr>sr_fifo_read := sr_fifo_read r + (2 + len)\<rparr>)))"

definition sse_finish :: "sse_reader \<Rightarrow> sse_reader" where
  "sse_finish r = dispatch (if sr_line r \<noteq> [] \<or> sr_line_overflow r then end_line r else r)"

text \<open>
  The two length bytes are below 256, so the \<open>low | (high << 8)\<close> of the code is the sum here.
\<close>

section \<open>The queue of events\<close>

definition pack :: "string \<Rightarrow> string" where
  "pack e = [char_of (length e mod 256), char_of (length e div 256 mod 256)] @ e"

text \<open>\<open>sse_queue r es\<close>: the events waiting in \<open>r\<close> are \<open>es\<close>.\<close>

definition sse_queue :: "sse_reader \<Rightarrow> string list \<Rightarrow> bool" where
  "sse_queue r es \<longleftrightarrow>
    sr_fifo_read r \<le> length (sr_fifo r) \<and> drop (sr_fifo_read r) (sr_fifo r) = concat (map pack es)
    \<and> (\<forall>e\<in>set es. length e \<le> kMaxEventBytes)"

definition sse_wf :: "sse_reader \<Rightarrow> bool" where
  "sse_wf r \<longleftrightarrow>
    length (sr_line r) \<le> kMaxEventBytes \<and> length (sr_event r) \<le> kMaxEventBytes \<and>
    length (sr_fifo r) \<le> kSseFifoBytes \<and> (sr_line_overflow r \<longrightarrow> sr_line r \<noteq> []) \<and>
    (\<not> sr_event_has_data r \<longrightarrow> sr_event r = [] \<and> \<not> sr_event_overflow r)"

lemma sse_wf_initial [invariant_rules]: "sse_wf sse_reader"
  by (simp add: sse_wf_def sse_reader_def)

lemma sse_queue_initial: "sse_queue sse_reader []"
  by (simp add: sse_queue_def sse_reader_def)

lemma pack_length [simp]: "length (pack e) = 2 + length e"
  by (simp add: pack_def)

lemma dispatch_cases:
  "dispatch r =
    (let r' = r\<lparr>sr_event := [], sr_event_has_data := False, sr_event_overflow := False\<rparr>
     in if \<not> sr_event_has_data r then r'
        else if sr_event_overflow r \<or> length (sr_fifo r) + length (pack (sr_event r)) > kSseFifoBytes
        then r'\<lparr>sr_dropped := sr_dropped r + 1\<rparr>
        else r'\<lparr>sr_fifo := sr_fifo r @ pack (sr_event r)\<rparr>)"
  by (simp add: dispatch_def Let_def pack_def)

lemma sse_wf_dispatch [invariant_rules]: "sse_wf r \<Longrightarrow> sse_wf (dispatch r)"
  by (auto simp: sse_wf_def dispatch_cases Let_def)

lemma sse_wf_take_field [invariant_rules]: "sse_wf r \<Longrightarrow> sse_wf (take_field r)"
  by (auto simp: take_field_def Let_def sse_wf_def split: prod.splits)

lemma sse_wf_take_line [invariant_rules]: "sse_wf r \<Longrightarrow> sse_wf (take_line r)"
  by (simp add: take_line_def sse_wf_dispatch sse_wf_take_field)

lemma sse_wf_feed_char [invariant_rules]: "sse_wf r \<Longrightarrow> sse_wf (feed_char c r)"
  using sse_wf_take_line [of r]
  by (auto simp: feed_char_def end_line_def Let_def sse_wf_def kMaxEventBytes_def)

lemma sse_wf_feed [invariant_rules]: "sse_wf r \<Longrightarrow> sse_wf (sse_feed bytes r)"
proof -
  assume "sse_wf r"
  then have "sse_wf (sse_rewind r)" by (simp add: sse_wf_def sse_rewind_def)
  then have "sse_wf (fold feed_char bytes (sse_rewind r))"
    by (induction bytes arbitrary: r rule: rev_induct) (auto intro: sse_wf_feed_char)
  then show ?thesis by (simp add: sse_feed_def)
qed

lemma sse_wf_next [invariant_rules]: "sse_wf r \<Longrightarrow> sse_wf (snd (next_event r))"
  by (simp add: sse_wf_def next_event_def Let_def)

lemma sse_wf_finish [invariant_rules]: "sse_wf r \<Longrightarrow> sse_wf (sse_finish r)"
  using sse_wf_take_line [of r]
  by (auto simp: sse_finish_def end_line_def sse_wf_def intro!: sse_wf_dispatch [unfolded sse_wf_def])

text \<open>\<open>next_event\<close> takes the oldest event off the queue, whole.\<close>

lemma next_event_pack:
  assumes "drop n f = pack e @ rest" and "length e \<le> kMaxEventBytes" and "n \<le> length f"
  shows "of_char (f ! n) + 256 * of_char (f ! (n + 1)) = length e"
    and "substr f (n + 2) (length e) = e" and "drop (n + (2 + length e)) f = rest"
    and "n + (2 + length e) \<le> length f" and "n < length f"
proof -
  have at: "f ! (n + i) = (pack e @ rest) ! i" for i
    using assms(1,3) by (metis nth_drop)
  have "length e div 256 < 256" using assms(2) by (simp add: kMaxEventBytes_def)
  then have "length e mod 256 + 256 * (length e div 256 mod 256) = length e" by simp
  then show "of_char (f ! n) + 256 * of_char (f ! (n + 1)) = length e"
    using at [of 0] at [of 1] by (simp add: pack_def)
  have "drop (n + i) f = drop i (pack e @ rest)" for i
    using assms(1) by (metis add.commute drop_drop)
  from this [of 2] this [of "2 + length e"]
  show "substr f (n + 2) (length e) = e" and "drop (n + (2 + length e)) f = rest"
    by (simp_all add: substr_def pack_def)
  have "length (drop n f) = 2 + length e + length rest" using assms(1) by simp
  then show "n + (2 + length e) \<le> length f" "n < length f" using assms(3) by (auto simp: length_drop)
qed

lemma next_event_queue:
  assumes "sse_queue r es"
  shows "(es = [] \<longrightarrow> next_event r = (None, r)) \<and>
    (\<forall>e es'. es = e # es' \<longrightarrow>
       (\<exists>r'. next_event r = (Some e, r') \<and> sse_queue r' es' \<and> sr_fifo r' = sr_fifo r
         \<and> r' = r\<lparr>sr_fifo_read := sr_fifo_read r'\<rparr>))"
proof (cases es)
  case Nil
  then show ?thesis using assms by (auto simp: sse_queue_def next_event_def)
next
  case (Cons e es')
  then have d: "drop (sr_fifo_read r) (sr_fifo r) = pack e @ concat (map pack es')"
    and l: "length e \<le> kMaxEventBytes" "sr_fifo_read r \<le> length (sr_fifo r)"
    using assms by (auto simp: sse_queue_def)
  note p = next_event_pack [OF d l]
  have "next_event r = (Some e, r\<lparr>sr_fifo_read := sr_fifo_read r + (2 + length e)\<rparr>)"
    using p(5) p(1,2) by (simp add: next_event_def Let_def)
  moreover have "sse_queue (r\<lparr>sr_fifo_read := sr_fifo_read r + (2 + length e)\<rparr>) es'"
    using p(3,4) assms Cons by (simp add: sse_queue_def)
  ultimately show ?thesis using Cons by auto
qed

section \<open>Any cut of the stream\<close>

lemma dispatch_frame [frame_rules]:
  "sr_fifo_read (dispatch r) = sr_fifo_read r" "length (sr_fifo r) \<le> length (sr_fifo (dispatch r))"
  by (simp_all add: dispatch_cases Let_def)

lemma take_field_frame [frame_rules, simp]:
  "sr_fifo_read (take_field r) = sr_fifo_read r" "sr_fifo (take_field r) = sr_fifo r"
  "sr_dropped (take_field r) = sr_dropped r" "sr_line (take_field r) = sr_line r"
  "sr_last_was_cr (take_field r) = sr_last_was_cr r"
  by (simp_all add: take_field_def Let_def split: prod.splits)

lemma take_line_frame [frame_rules]:
  "sr_fifo_read (take_line r) = sr_fifo_read r"
  "length (sr_fifo r) \<le> length (sr_fifo (take_line r))"
  by (simp_all add: take_line_def dispatch_frame)

interpretation sse_stream: chunked_feed feed_char sse_rewind sr_fifo_read "\<lambda>r. length (sr_fifo r)"
  by unfold_locales
    (auto simp: sse_rewind_def feed_char_def end_line_def Let_def take_line_frame)

lemma sse_feed_stream: "sse_feed = sse_stream.feed"
  by (simp add: sse_feed_def sse_stream.feed_def fun_eq_iff)

section \<open>What a byte makes ready\<close>

datatype sse_out = Sse_quiet | Sse_ready string | Sse_oversize

definition dispatch_out :: "sse_reader \<Rightarrow> sse_out" where
  "dispatch_out r =
    (if \<not> sr_event_has_data r then Sse_quiet
     else if sr_event_overflow r then Sse_oversize else Sse_ready (sr_event r))"

definition line_out :: "sse_reader \<Rightarrow> sse_out" where
  "line_out r = (if sr_line r = [] \<and> \<not> sr_line_overflow r then dispatch_out r else Sse_quiet)"

definition char_out :: "char \<Rightarrow> sse_reader \<Rightarrow> sse_out" where
  "char_out c r = (if c = CR \<or> c = LF \<and> \<not> sr_last_was_cr r then line_out r else Sse_quiet)"

fun stream_outs :: "string \<Rightarrow> sse_reader \<Rightarrow> sse_out list" where
  "stream_outs [] r = []"
| "stream_outs (c # cs) r = char_out c r # stream_outs cs (feed_char c r)"

definition out_events :: "sse_out list \<Rightarrow> string list" where
  "out_events outs = concat (map (\<lambda>x. case x of Sse_ready e \<Rightarrow> [e] | _ \<Rightarrow> []) outs)"

definition out_oversize :: "sse_out list \<Rightarrow> nat" where
  "out_oversize outs = length (filter (\<lambda>x. x = Sse_oversize) outs)"

text \<open>The parts of the state that decide what becomes ready; the queue is not among them.\<close>

definition core :: "sse_reader \<Rightarrow> sse_reader" where
  "core r = r\<lparr>sr_fifo := [], sr_fifo_read := 0, sr_dropped := 0\<rparr>"

lemma core_fields [simp]:
  "sr_line (core r) = sr_line r" "sr_line_overflow (core r) = sr_line_overflow r"
  "sr_last_was_cr (core r) = sr_last_was_cr r" "sr_event (core r) = sr_event r"
  "sr_event_has_data (core r) = sr_event_has_data r"
  "sr_event_overflow (core r) = sr_event_overflow r"
  by (simp_all add: core_def)

lemma core_core [simp]: "core (core r) = core r"
  by (simp add: core_def)

lemma core_dispatch: "core (dispatch r) = core (dispatch (core r))"
  unfolding dispatch_cases Let_def by (simp add: core_def)

lemma core_take_field: "core (take_field r) = core (take_field (core r))"
proof -
  obtain name val where "split_field (sr_line r) = (name, val)" by fastforce
  then show ?thesis by (simp add: take_field_def Let_def) (simp add: core_def)
qed

lemma core_take_line: "core (take_line r) = core (take_line (core r))"
  using core_dispatch [of r] core_take_field [of r] by (simp add: take_line_def)

lemma core_updates:
  "core (r\<lparr>sr_last_was_cr := b\<rparr>) = (core r)\<lparr>sr_last_was_cr := b\<rparr>"
  "core (r\<lparr>sr_line := l\<rparr>) = (core r)\<lparr>sr_line := l\<rparr>"
  "core (r\<lparr>sr_line_overflow := b\<rparr>) = (core r)\<lparr>sr_line_overflow := b\<rparr>"
  by (simp_all add: core_def)

lemma core_feed_char_core: "core (feed_char c r) = core (feed_char c (core r))"
  using core_take_line [of r] by (simp add: feed_char_def end_line_def core_updates Let_def)

lemma core_feed_char: "core r = core r' \<Longrightarrow> core (feed_char c r) = core (feed_char c r')"
  by (metis core_feed_char_core)

lemma char_out_core_core: "char_out c r = char_out c (core r)"
  by (simp add: char_out_def line_out_def dispatch_out_def)

lemma char_out_core: "core r = core r' \<Longrightarrow> char_out c r = char_out c r'"
  by (metis char_out_core_core)

lemma stream_outs_core: "core r = core r' \<Longrightarrow> stream_outs bytes r = stream_outs bytes r'"
proof (induction bytes arbitrary: r r')
  case (Cons c bytes)
  have "char_out c r = char_out c r'" for c using Cons.prems by (rule char_out_core)
  moreover have "stream_outs bytes (feed_char c r) = stream_outs bytes (feed_char c r')"
    using Cons.prems by (intro Cons.IH core_feed_char)
  ultimately show ?case by simp
qed simp

lemma stream_outs_append:
  "stream_outs (a @ b) r = stream_outs a r @ stream_outs b (fold feed_char a r)"
  by (induction a arbitrary: r) simp_all

definition queue_after :: "sse_out \<Rightarrow> string \<Rightarrow> string" where
  "queue_after out fifo =
    (case out of
       Sse_ready e \<Rightarrow> if length fifo + length (pack e) > kSseFifoBytes then fifo else fifo @ pack e
     | _ \<Rightarrow> fifo)"

definition dropped_after :: "sse_out \<Rightarrow> string \<Rightarrow> nat \<Rightarrow> nat" where
  "dropped_after out fifo n =
    (case out of
       Sse_ready e \<Rightarrow> if length fifo + length (pack e) > kSseFifoBytes then n + 1 else n
     | Sse_oversize \<Rightarrow> n + 1
     | Sse_quiet \<Rightarrow> n)"

lemma out_after_quiet [simp]:
  "queue_after Sse_quiet fifo = fifo" "dropped_after Sse_quiet fifo n = n"
  by (simp_all add: queue_after_def dropped_after_def)

lemma dispatch_queue:
  "sr_fifo (dispatch r) = queue_after (dispatch_out r) (sr_fifo r)"
  "sr_dropped (dispatch r) = dropped_after (dispatch_out r) (sr_fifo r) (sr_dropped r)"
  by (simp_all add: dispatch_cases dispatch_out_def queue_after_def dropped_after_def Let_def)

lemma take_line_queue:
  "sr_fifo (take_line r) = queue_after (line_out r) (sr_fifo r)"
  "sr_dropped (take_line r) = dropped_after (line_out r) (sr_fifo r) (sr_dropped r)"
proof -
  have "sr_fifo (take_line r) = queue_after (line_out r) (sr_fifo r) \<and>
      sr_dropped (take_line r) = dropped_after (line_out r) (sr_fifo r) (sr_dropped r)"
  proof (cases "sr_line r = [] \<and> \<not> sr_line_overflow r")
    case True
    then have "take_line r = dispatch r" "line_out r = dispatch_out r"
      by (simp_all add: take_line_def line_out_def)
    then show ?thesis using dispatch_queue by simp
  next
    case False
    then have "line_out r = Sse_quiet" by (auto simp: line_out_def)
    with False show ?thesis by (auto simp: take_line_def)
  qed
  then show "sr_fifo (take_line r) = queue_after (line_out r) (sr_fifo r)"
    "sr_dropped (take_line r) = dropped_after (line_out r) (sr_fifo r) (sr_dropped r)" by blast+
qed

lemma feed_char_queue:
  "sr_fifo (feed_char c r) = queue_after (char_out c r) (sr_fifo r)"
  "sr_dropped (feed_char c r) = dropped_after (char_out c r) (sr_fifo r) (sr_dropped r)"
  using take_line_queue [of r]
  by (simp_all add: feed_char_def char_out_def end_line_def Let_def)

text \<open>
  Room in the queue: a byte adds at most one to what is waiting in the line and the event, so
  after the first event the queue grows no faster than the stream.
\<close>

definition packed :: "sse_out list \<Rightarrow> nat" where
  "packed outs = sum_list (map (\<lambda>e. length (pack e)) (out_events outs))"

definition carried :: "sse_reader \<Rightarrow> nat" where
  "carried r = length (sr_line r) + (if sr_event_has_data r then length (sr_event r) + 2 else 0)"

lemma split_field_length:
  "split_field line = (name, val) \<Longrightarrow> length name + length val \<le> length line"
  using length_takeWhile_le [of "\<lambda>c. c \<noteq> CHR '':''" line]
  by (auto simp: split_field_def Let_def split: if_splits)

lemma carried_end_line:
  assumes "sse_wf r" and "sr_line r \<noteq> []"
  shows "carried (end_line r) \<le> carried r"
proof -
  obtain name val where f: "split_field (sr_line r) = (name, val)" by fastforce
  then have "name = ''data'' \<Longrightarrow> length val + 4 \<le> length (sr_line r)"
    using split_field_length [OF f] by simp
  with assms f show ?thesis
    by (auto simp: carried_def end_line_def take_line_def take_field_def sse_wf_def Let_def)
qed

lemma carried_feed_char:
  assumes "sse_wf r"
  shows "carried (feed_char c r) + packed [char_out c r] \<le> carried r + 1"
    and "char_out c r = Sse_ready e \<Longrightarrow> carried (feed_char c r) = 0 \<and> length e \<le> kMaxEventBytes"
proof -
  have line: "carried (end_line r) + packed [line_out r] \<le> carried r"
    and zero: "line_out r = Sse_ready e \<Longrightarrow> carried (end_line r) = 0 \<and> length e \<le> kMaxEventBytes" for e
  proof -
    consider "sr_line r \<noteq> []" | "sr_line r = []" "\<not> sr_line_overflow r"
      using assms by (auto simp: sse_wf_def)
    then show "carried (end_line r) + packed [line_out r] \<le> carried r"
    proof cases
      case 1
      then show ?thesis
        using carried_end_line [OF assms 1] by (simp add: line_out_def packed_def out_events_def)
    next
      case 2
      then show ?thesis
        by (auto simp: line_out_def packed_def out_events_def carried_def end_line_def take_line_def
            dispatch_cases dispatch_out_def Let_def)
    qed
    show "line_out r = Sse_ready e \<Longrightarrow> carried (end_line r) = 0 \<and> length e \<le> kMaxEventBytes"
      using assms
      by (auto simp: line_out_def carried_def end_line_def take_line_def dispatch_cases
          dispatch_out_def sse_wf_def Let_def split: if_splits)
  qed
  have cr: "carried (r\<lparr>sr_last_was_cr := b\<rparr>) = carried r" for r b by (simp add: carried_def)
  have quiet: "packed [Sse_quiet] = 0" by (simp add: packed_def out_events_def)
  consider "c = CR" | "c = LF" "sr_last_was_cr r" | "c = LF" "\<not> sr_last_was_cr r"
    | "c \<noteq> CR" "c \<noteq> LF" by blast
  then show "carried (feed_char c r) + packed [char_out c r] \<le> carried r + 1"
  proof cases
    case 4
    then show ?thesis by (simp add: feed_char_def char_out_def quiet Let_def) (simp add: carried_def)
  qed (use line in \<open>simp_all add: feed_char_def char_out_def cr quiet\<close>)
  show "char_out c r = Sse_ready e \<Longrightarrow> carried (feed_char c r) = 0 \<and> length e \<le> kMaxEventBytes"
    using zero [of e] by (auto simp: feed_char_def char_out_def cr split: if_splits)
qed

lemma packed_Cons: "packed (x # xs) = packed [x] + packed xs"
  by (simp add: packed_def out_events_def)

lemma packed_bound: "sse_wf r \<Longrightarrow> packed (stream_outs bytes r) \<le> carried r + length bytes"
proof (induction bytes arbitrary: r)
  case (Cons c bytes)
  have "packed (stream_outs bytes (feed_char c r)) \<le> carried (feed_char c r) + length bytes"
    using Cons by (blast intro: sse_wf_feed_char)
  with carried_feed_char(1) [OF Cons.prems, of c] show ?case
    using packed_Cons [of "char_out c r" "stream_outs bytes (feed_char c r)"] by simp
qed (simp add: packed_def out_events_def)

lemma packed_first: "sse_wf r \<Longrightarrow> packed (stream_outs bytes r) \<le> kMaxEventBytes + 2 + length bytes"
proof (induction bytes arbitrary: r)
  case (Cons c bytes)
  have wf: "sse_wf (feed_char c r)" using Cons.prems by (rule sse_wf_feed_char)
  show ?case
  proof (cases "char_out c r")
    case (Sse_ready e)
    from carried_feed_char(2) [OF Cons.prems this] packed_bound [OF wf, of bytes] Sse_ready
    show ?thesis by (simp add: packed_def out_events_def)
  qed (use Cons.IH [OF wf] in \<open>simp_all add: packed_def out_events_def\<close>)
qed (simp add: packed_def out_events_def)

text \<open>Feeding a reader with room: everything that became ready is in the queue.\<close>

lemma fold_feed_queue:
  "sse_wf r \<Longrightarrow> sse_queue r es \<Longrightarrow> length (sr_fifo r) + packed (stream_outs bytes r) \<le> kSseFifoBytes \<Longrightarrow>
   sse_queue (fold feed_char bytes r) (es @ out_events (stream_outs bytes r)) \<and>
   sr_dropped (fold feed_char bytes r) = sr_dropped r + out_oversize (stream_outs bytes r)"
proof (induction bytes arbitrary: r es)
  case Nil
  then show ?case by (simp add: out_events_def out_oversize_def)
next
  case (Cons c bytes)
  let ?r = "feed_char c r"
  have wf: "sse_wf ?r" using Cons.prems(1) by (rule sse_wf_feed_char)
  have p: "packed (stream_outs (c # bytes) r) = packed [char_out c r] + packed (stream_outs bytes ?r)"
    using packed_Cons [of "char_out c r" "stream_outs bytes ?r"] by simp
  have read: "sr_fifo_read ?r = sr_fifo_read r" by (rule sse_stream.step_read)
  have q: "sse_queue ?r (es @ out_events [char_out c r]) \<and>
      length (sr_fifo ?r) = length (sr_fifo r) + packed [char_out c r] \<and>
      sr_dropped ?r = sr_dropped r + out_oversize [char_out c r]"
    using Cons.prems p feed_char_queue [of c r] read carried_feed_char(2) [OF Cons.prems(1), of c]
    by (cases "char_out c r")
      (auto simp: sse_queue_def queue_after_def dropped_after_def out_events_def out_oversize_def packed_def)
  have "sse_queue (fold feed_char bytes ?r)
        ((es @ out_events [char_out c r]) @ out_events (stream_outs bytes ?r)) \<and>
      sr_dropped (fold feed_char bytes ?r) = sr_dropped ?r + out_oversize (stream_outs bytes ?r)"
    using q p Cons.prems by (intro Cons.IH wf) auto
  with q show ?case by (simp add: out_events_def out_oversize_def)
qed

section \<open>A session: feed a block, take every event, feed the next\<close>

text \<open>The consumer's loop \<open>while (next_event(data))\<close>, on fuel; the queue's bytes are enough.\<close>

fun drain :: "nat \<Rightarrow> sse_reader \<Rightarrow> string list \<times> sse_reader" where
  "drain 0 r = ([], r)"
| "drain (Suc n) r =
    (case next_event r of
       (None, r') \<Rightarrow> ([], r')
     | (Some e, r') \<Rightarrow> (let (es, r'') = drain n r' in (e # es, r'')))"

fun sse_session :: "string list \<Rightarrow> sse_reader \<Rightarrow> string list \<times> sse_reader" where
  "sse_session [] r = ([], r)"
| "sse_session (block # blocks) r =
    (let r = sse_feed block r;
         (es, r) = drain (length (sr_fifo r) + 1) r;
         (es', r) = sse_session blocks r
     in (es @ es', r))"

lemma drain_queue:
  "sse_queue r es \<Longrightarrow> length es < n \<Longrightarrow>
   \<exists>k. drain n r = (es, r\<lparr>sr_fifo_read := k\<rparr>) \<and> sse_queue (r\<lparr>sr_fifo_read := k\<rparr>) []"
proof (induction es arbitrary: r n)
  case Nil
  then obtain m where m: "n = Suc m" by (cases n) auto
  have "r = r\<lparr>sr_fifo_read := sr_fifo_read r\<rparr>" by simp
  with Nil next_event_queue [OF Nil(1)] m show ?case
    by (intro exI [of _ "sr_fifo_read r"]) simp
next
  case (Cons e es)
  then obtain m where m: "n = Suc m" by (cases n) auto
  obtain r' where r': "next_event r = (Some e, r')" "sse_queue r' es"
    "r' = r\<lparr>sr_fifo_read := sr_fifo_read r'\<rparr>"
    using next_event_queue [OF Cons.prems(1)] by auto
  obtain k where "drain m r' = (es, r'\<lparr>sr_fifo_read := k\<rparr>)" "sse_queue (r'\<lparr>sr_fifo_read := k\<rparr>) []"
    using Cons.IH [OF r'(2), of m] Cons.prems m by auto
  moreover have "r'\<lparr>sr_fifo_read := k\<rparr> = r\<lparr>sr_fifo_read := k\<rparr>" for k
    by (subst r'(3)) simp
  ultimately show ?case using r'(1) m by (intro exI [of _ k]) simp
qed

lemma queue_length: "sse_queue r es \<Longrightarrow> length es \<le> length (sr_fifo r)"
proof -
  assume q: "sse_queue r es"
  have "length es \<le> length (concat (map pack es))" by (induction es) simp_all
  also have "\<dots> \<le> length (sr_fifo r)" using q by (metis diff_le_self length_drop sse_queue_def)
  finally show ?thesis .
qed

lemma core_wf: "core r = core r' \<Longrightarrow> length (sr_fifo r') \<le> kSseFifoBytes \<Longrightarrow> sse_wf r \<Longrightarrow> sse_wf r'"
  unfolding sse_wf_def by (metis core_fields)

lemma core_fold: "core r = core r' \<Longrightarrow> core (fold feed_char bytes r) = core (fold feed_char bytes r')"
proof (induction bytes arbitrary: r r')
  case (Cons c bytes)
  show ?case unfolding fold_simps using Cons.prems by (intro Cons.IH core_feed_char)
qed simp

text \<open>
  A block of at most 8190 bytes fed to a drained reader leaves room for every event it completes.
\<close>

lemma sse_feed_block:
  assumes "sse_wf r" and "sse_queue r []" and "length b \<le> kMaxEventBytes - 2"
  shows "sse_wf (sse_feed b r)" and "sse_queue (sse_feed b r) (out_events (stream_outs b r))"
    and "core (sse_feed b r) = core (fold feed_char b r)"
    and "sr_dropped (sse_feed b r) = sr_dropped r + out_oversize (stream_outs b r)"
proof -
  show "sse_wf (sse_feed b r)" using assms(1) by (rule sse_wf_feed)
  have rw: "sse_rewind r = r\<lparr>sr_fifo_read := 0, sr_fifo := []\<rparr>"
    using assms(2) by (simp add: sse_rewind_def sse_queue_def)
  let ?r0 = "sse_rewind r"
  have c0: "core ?r0 = core r" and d0: "sr_dropped ?r0 = sr_dropped r" by (simp_all add: rw core_def)
  have wf0: "sse_wf ?r0" using assms(1) by (simp add: rw sse_wf_def)
  have q0: "sse_queue ?r0 []" by (simp add: rw sse_queue_def)
  have outs0: "stream_outs b ?r0 = stream_outs b r" using c0 by (rule stream_outs_core)
  have "length (sr_fifo ?r0) + packed (stream_outs b ?r0) \<le> kSseFifoBytes"
    using packed_first [OF wf0, of b] assms(3) by (simp add: rw kSseFifoBytes_def kMaxEventBytes_def)
  from fold_feed_queue [OF wf0 q0 this] outs0
  show "sse_queue (sse_feed b r) (out_events (stream_outs b r))"
    and "sr_dropped (sse_feed b r) = sr_dropped r + out_oversize (stream_outs b r)"
    by (simp_all add: sse_feed_def d0)
  show "core (sse_feed b r) = core (fold feed_char b r)"
    unfolding sse_feed_def using c0 by (rule core_fold)
qed

text \<open>A session of such blocks delivers what becomes ready and loses only what is oversize.\<close>

lemma sse_session_delivers:
  "sse_wf r \<Longrightarrow> sse_queue r [] \<Longrightarrow> \<forall>b\<in>set blocks. length b \<le> kMaxEventBytes - 2 \<Longrightarrow>
   \<exists>r'. sse_session blocks r = (out_events (stream_outs (concat blocks) r), r') \<and>
     sse_wf r' \<and> sse_queue r' [] \<and> core r' = core (fold feed_char (concat blocks) r) \<and>
     sr_dropped r' = sr_dropped r + out_oversize (stream_outs (concat blocks) r)"
proof (induction blocks arbitrary: r)
  case Nil
  then show ?case by (simp add: out_events_def out_oversize_def)
next
  case (Cons b blocks)
  let ?r1 = "sse_feed b r"
  have b: "length b \<le> kMaxEventBytes - 2" using Cons.prems(3) by simp
  note fed = sse_feed_block [OF Cons.prems(1,2) b]
  obtain k where k: "drain (length (sr_fifo ?r1) + 1) ?r1
        = (out_events (stream_outs b r), ?r1\<lparr>sr_fifo_read := k\<rparr>)"
    and q2: "sse_queue (?r1\<lparr>sr_fifo_read := k\<rparr>) []"
    using drain_queue [OF fed(2)] queue_length [OF fed(2)] by (metis le_imp_less_Suc Suc_eq_plus1)
  let ?r2 = "?r1\<lparr>sr_fifo_read := k\<rparr>"
  have c2: "core ?r2 = core (fold feed_char b r)" using fed(3) by (simp add: core_def)
  have wf2: "sse_wf ?r2" using fed(1) by (simp add: sse_wf_def)
  obtain r' where r': "sse_session blocks ?r2 = (out_events (stream_outs (concat blocks) ?r2), r')"
    "sse_wf r'" "sse_queue r' []" "core r' = core (fold feed_char (concat blocks) ?r2)"
    "sr_dropped r' = sr_dropped ?r2 + out_oversize (stream_outs (concat blocks) ?r2)"
    using Cons.IH [OF wf2 q2] Cons.prems(3) by auto
  have outs2: "stream_outs (concat blocks) ?r2 = stream_outs (concat blocks) (fold feed_char b r)"
    using c2 by (rule stream_outs_core)
  have "sse_session (b # blocks) r = (out_events (stream_outs (concat (b # blocks)) r), r')"
    using k r'(1) outs2 by (simp add: Let_def stream_outs_append out_events_def)
  moreover have "core r' = core (fold feed_char (concat (b # blocks)) r)"
    using r'(4) core_fold [OF c2] by simp
  moreover have "sr_dropped r' = sr_dropped r + out_oversize (stream_outs (concat (b # blocks)) r)"
    using r'(5) fed(4) outs2 by (simp add: stream_outs_append out_oversize_def)
  ultimately show ?case using r'(2,3) by blast
qed

section \<open>The reference parser\<close>

text \<open>
  Lines end with CR LF, CR or LF; \<open>cur\<close> is the line under way. The data lines up to a blank
  line, joined with LF, are one event.
\<close>

definition drop_lf :: "string \<Rightarrow> string" where
  "drop_lf bytes = (if bytes \<noteq> [] \<and> hd bytes = LF then tl bytes else bytes)"

lemma drop_lf_length [termination_simp]: "length (drop_lf bytes) \<le> length bytes"
  by (simp add: drop_lf_def)

function ref_lines :: "string \<Rightarrow> string \<Rightarrow> string list" where
  "ref_lines cur [] = []"
| "ref_lines cur (c # rest) =
    (if c = CR then cur # ref_lines [] (drop_lf rest)
     else if c = LF then cur # ref_lines [] rest
     else ref_lines (cur @ [c]) rest)"
  by pat_completeness auto
termination
  by (relation "measure (\<lambda>(cur, bytes). length bytes)") (auto simp: drop_lf_def)

definition data_value :: "string \<Rightarrow> string option" where
  "data_value line =
    (if line \<noteq> [] \<and> hd line = CHR '':'' then None
     else let (name, val) = split_field line in if name = ''data'' then Some val else None)"

definition add_data :: "string option \<Rightarrow> string \<Rightarrow> string option" where
  "add_data d line =
    (case data_value line of
       None \<Rightarrow> d
     | Some v \<Rightarrow> Some (case d of None \<Rightarrow> v | Some e \<Rightarrow> e @ [LF] @ v))"

fun ref_events :: "string option \<Rightarrow> string list \<Rightarrow> string list" where
  "ref_events d [] = []"
| "ref_events d (line # lines) =
    (if line = [] then (case d of None \<Rightarrow> [] | Some e \<Rightarrow> [e]) @ ref_events None lines
     else ref_events (add_data d line) lines)"

text \<open>Nothing is oversize: neither a line nor an event under assembly.\<close>

fun ref_fits :: "string option \<Rightarrow> string list \<Rightarrow> bool" where
  "ref_fits d [] = True"
| "ref_fits d (line # lines) =
    (length line \<le> kMaxEventBytes \<and>
     (if line = [] then ref_fits None lines
      else (case add_data d line of None \<Rightarrow> True | Some e \<Rightarrow> length e \<le> kMaxEventBytes) \<and>
        ref_fits (add_data d line) lines))"

text \<open>The line that is still open at the end.\<close>

function ref_rest :: "string \<Rightarrow> string \<Rightarrow> string" where
  "ref_rest cur [] = cur"
| "ref_rest cur (c # rest) =
    (if c = CR then ref_rest [] (drop_lf rest)
     else if c = LF then ref_rest [] rest
     else ref_rest (cur @ [c]) rest)"
  by pat_completeness auto
termination
  by (relation "measure (\<lambda>(cur, bytes). length bytes)") (auto simp: drop_lf_def)

lemma ref_first:
  "length cur \<le> length (if ref_lines cur bytes = [] then ref_rest cur bytes else hd (ref_lines cur bytes))"
proof (induction cur bytes rule: ref_lines.induct)
  case (2 cur c rest)
  then show ?case by (cases "c = CR"; cases "c = LF") auto
qed simp

lemma ref_fits_first: "ref_fits d lines \<Longrightarrow> lines \<noteq> [] \<Longrightarrow> length (hd lines) \<le> kMaxEventBytes"
  by (cases lines) simp_all

definition holds_data :: "sse_reader \<Rightarrow> string option \<Rightarrow> bool" where
  "holds_data r d \<longleftrightarrow>
    \<not> sr_event_overflow r \<and> \<not> sr_line_overflow r \<and> sr_event_has_data r = (d \<noteq> None) \<and>
    sr_event r = (case d of None \<Rightarrow> [] | Some e \<Rightarrow> e)"

lemma end_line_data:
  assumes "holds_data r d"
    and "sr_line r \<noteq> [] \<Longrightarrow> (case add_data d (sr_line r) of None \<Rightarrow> True | Some e \<Rightarrow> length e \<le> kMaxEventBytes)"
  shows "holds_data (end_line r) (if sr_line r = [] then None else add_data d (sr_line r))"
    and "sr_line (end_line r) = []"
    and "line_out r = (if sr_line r = [] then case d of None \<Rightarrow> Sse_quiet | Some e \<Rightarrow> Sse_ready e
      else Sse_quiet)"
proof -
  show "sr_line (end_line r) = []" by (simp add: end_line_def)
  show "line_out r = (if sr_line r = [] then case d of None \<Rightarrow> Sse_quiet | Some e \<Rightarrow> Sse_ready e
      else Sse_quiet)"
    using assms(1) by (auto simp: line_out_def dispatch_out_def holds_data_def split: option.splits)
  show "holds_data (end_line r) (if sr_line r = [] then None else add_data d (sr_line r))"
  proof (cases "sr_line r = []")
    case True
    with assms(1) show ?thesis
      by (simp add: holds_data_def end_line_def take_line_def dispatch_cases Let_def)
  next
    case False
    obtain name val where "split_field (sr_line r) = (name, val)" by fastforce
    with False assms(1) assms(2) [OF False] show ?thesis
      by (cases d; cases "hd (sr_line r) = CHR '':''")
        (auto simp: holds_data_def end_line_def take_line_def take_field_def add_data_def
          data_value_def Let_def)
  qed
qed

lemma out_events_Cons:
  "out_events (x # xs) = (case x of Sse_ready e \<Rightarrow> [e] | _ \<Rightarrow> []) @ out_events xs"
  by (simp add: out_events_def)

lemma out_events_Nil [simp]: "out_events [] = []"
  by (simp add: out_events_def)

lemma ref_events_line:
  "ref_events d (l # ls) = (if l = [] then case d of None \<Rightarrow> [] | Some e \<Rightarrow> [e] else [])
     @ ref_events (if l = [] then None else add_data d l) ls"
  by simp

lemma out_oversize_Cons: "x \<noteq> Sse_oversize \<Longrightarrow> out_oversize (x # xs) = out_oversize xs"
  by (simp add: out_oversize_def)

lemma dispatch_last_cr [simp]: "sr_last_was_cr (dispatch r) = sr_last_was_cr r"
  by (simp add: dispatch_cases Let_def)

lemma end_line_last_cr [simp]: "sr_last_was_cr (end_line r) = sr_last_was_cr r"
  by (simp add: end_line_def take_line_def)

lemma stream_outs_ref:
  "holds_data r d \<Longrightarrow>
   todo = (if sr_last_was_cr r then drop_lf bytes else bytes) \<Longrightarrow>
   ref_fits d (ref_lines (sr_line r) todo) \<Longrightarrow>
   length (ref_rest (sr_line r) todo) \<le> kMaxEventBytes \<Longrightarrow>
   out_events (stream_outs bytes r) = ref_events d (ref_lines (sr_line r) todo)
   \<and> out_oversize (stream_outs bytes r) = 0"
proof (induction bytes arbitrary: r d todo)
  case Nil
  then show ?case by (simp add: drop_lf_def out_oversize_def split: if_splits)
next
  case (Cons c bytes)
  consider (cr) "c = CR" | (crlf) "c = LF" "sr_last_was_cr r" | (lf) "c = LF" "\<not> sr_last_was_cr r"
    | (char) "c \<noteq> CR" "c \<noteq> LF" by blast
  then show ?case
  proof cases
    case crlf
    then have "todo = bytes" using Cons.prems(2) by (simp add: drop_lf_def)
    moreover have "holds_data (r\<lparr>sr_last_was_cr := False\<rparr>) d"
      using Cons.prems(1) by (simp add: holds_data_def)
    ultimately show ?thesis
      using Cons.IH [of "r\<lparr>sr_last_was_cr := False\<rparr>" d todo] Cons.prems(3,4) crlf
      by (simp add: feed_char_def char_out_def out_events_Cons out_oversize_Cons)
  next
    case char
    then have t: "todo = c # bytes" using Cons.prems(2) by (simp add: drop_lf_def)
    have "length (sr_line r @ [c]) \<le> kMaxEventBytes"
      using ref_first [of "sr_line r @ [c]" bytes] Cons.prems(3,4) char
        ref_fits_first [of d "ref_lines (sr_line r @ [c]) bytes"]
      by (auto simp: t split: if_splits)
    then have f: "feed_char c r = r\<lparr>sr_last_was_cr := False, sr_line := sr_line r @ [c]\<rparr>"
      using char by (simp add: feed_char_def Let_def)
    have "holds_data (feed_char c r) d" using Cons.prems(1) by (simp add: f holds_data_def)
    then show ?thesis
      using Cons.IH [of "feed_char c r" d bytes] Cons.prems(3,4) char
      by (simp add: f t char_out_def out_events_Cons out_oversize_Cons)
  next
    case cr
    then have t: "todo = CR # bytes" using Cons.prems(2) by (simp add: drop_lf_def)
    let ?r = "(end_line r)\<lparr>sr_last_was_cr := True\<rparr>"
    let ?d = "if sr_line r = [] then None else add_data d (sr_line r)"
    have fits: "sr_line r \<noteq> [] \<Longrightarrow>
        (case add_data d (sr_line r) of None \<Rightarrow> True | Some e \<Rightarrow> length e \<le> kMaxEventBytes)"
      using Cons.prems(3) by (simp add: t)
    note e = end_line_data [OF Cons.prems(1) fits]
    have f: "ref_fits ?d (ref_lines [] (drop_lf bytes))"
      "length (ref_rest [] (drop_lf bytes)) \<le> kMaxEventBytes"
      using Cons.prems(3,4) by (simp_all add: t split: if_splits)
    have "holds_data ?r ?d" using e(1) by (simp add: holds_data_def)
    then have "out_events (stream_outs bytes ?r) = ref_events ?d (ref_lines [] (drop_lf bytes)) \<and>
        out_oversize (stream_outs bytes ?r) = 0"
      using Cons.IH [of ?r ?d "drop_lf bytes"] f e(2) by simp
    then show ?thesis
      using e(3) cr
      by (simp add: t feed_char_def char_out_def out_events_Cons out_oversize_Cons split: option.split)
  next
    case lf
    then have t: "todo = LF # bytes" using Cons.prems(2) by simp
    let ?d = "if sr_line r = [] then None else add_data d (sr_line r)"
    have fits: "sr_line r \<noteq> [] \<Longrightarrow>
        (case add_data d (sr_line r) of None \<Rightarrow> True | Some e \<Rightarrow> length e \<le> kMaxEventBytes)"
      using Cons.prems(3) by (simp add: t)
    note e = end_line_data [OF Cons.prems(1) fits]
    have f: "ref_fits ?d (ref_lines [] bytes)" "length (ref_rest [] bytes) \<le> kMaxEventBytes"
      using Cons.prems(3,4) by (simp_all add: t split: if_splits)
    have "out_events (stream_outs bytes (end_line r)) = ref_events ?d (ref_lines [] bytes) \<and>
        out_oversize (stream_outs bytes (end_line r)) = 0"
      using Cons.IH [of "end_line r" ?d bytes] f e(1,2) lf by simp
    then show ?thesis
      using e(3) lf
      by (simp add: t feed_char_def char_out_def out_events_Cons out_oversize_Cons split: option.split)
  qed
qed

section \<open>Properties\<close>

text \<open>C19: a body whose lines and events fit the limits is split into exactly the events the reference
  parser finds, in whatever blocks it arrives, with nothing dropped.\<close>
theorem sse_session_reference:
  assumes "\<forall>b\<in>set blocks. length b \<le> kMaxEventBytes - 2"
    and "ref_fits None (ref_lines [] (concat blocks))"
    and "length (ref_rest [] (concat blocks)) \<le> kMaxEventBytes"
  shows "fst (sse_session blocks sse_reader) = ref_events None (ref_lines [] (concat blocks)) \<and>
    sr_dropped (snd (sse_session blocks sse_reader)) = 0"
proof -
  have h: "holds_data sse_reader None" by (simp add: holds_data_def sse_reader_def)
  have l: "sr_line sse_reader = []" "\<not> sr_last_was_cr sse_reader" "sr_dropped sse_reader = 0"
    by (simp_all add: sse_reader_def)
  have outs: "out_events (stream_outs (concat blocks) sse_reader) = ref_events None (ref_lines [] (concat blocks))
      \<and> out_oversize (stream_outs (concat blocks) sse_reader) = 0"
    using stream_outs_ref [OF h, of "concat blocks" "concat blocks"] assms(2,3) l by simp
  obtain r' where "sse_session blocks sse_reader = (out_events (stream_outs (concat blocks) sse_reader), r')"
    "sr_dropped r' = sr_dropped sse_reader + out_oversize (stream_outs (concat blocks) sse_reader)"
    using sse_session_delivers [OF sse_wf_initial sse_queue_initial assms(1)] by auto
  with outs l show ?thesis by simp
qed

lemma sse_session_reference_witness:
  "fst (sse_session [''data: a'', [LF, LF]] sse_reader) = [''a'']"
  using sse_session_reference [of "[''data: a'', [LF, LF]]"]
  by (simp add: kMaxEventBytes_def add_data_def data_value_def split_field_def)

lemma feed_plain:
  "CR \<notin> set s \<Longrightarrow> LF \<notin> set s \<Longrightarrow> \<not> sr_last_was_cr r \<Longrightarrow> length (sr_line r) \<le> kMaxEventBytes \<Longrightarrow>
   fold feed_char s r = r\<lparr>sr_line := sr_line r @ take (kMaxEventBytes - length (sr_line r)) s,
     sr_line_overflow := (sr_line_overflow r \<or> kMaxEventBytes < length (sr_line r) + length s)\<rparr>"
proof (induction s arbitrary: r)
  case (Cons c s)
  have c: "feed_char c r = (if length (sr_line r) < kMaxEventBytes then r\<lparr>sr_line := sr_line r @ [c]\<rparr>
      else r\<lparr>sr_line_overflow := True\<rparr>)"
    using Cons.prems(1-3) by (cases r) (auto simp: feed_char_def)
  show ?case
  proof (cases "length (sr_line r) < kMaxEventBytes")
    case True
    then obtain k where k: "kMaxEventBytes = length (sr_line r) + Suc k"
      using less_imp_Suc_add [of "length (sr_line r)" kMaxEventBytes] by auto
    then have k': "kMaxEventBytes - Suc (length (sr_line r)) = k"
      "kMaxEventBytes - length (sr_line r) = Suc k" by simp_all
    have "fold feed_char s (feed_char c r) = (r\<lparr>sr_line := sr_line r @ [c]\<rparr>)
        \<lparr>sr_line := (sr_line r @ [c]) @ take k s, sr_line_overflow :=
          (sr_line_overflow r \<or> kMaxEventBytes < length (sr_line r) + Suc (length s))\<rparr>"
      using Cons.IH [of "r\<lparr>sr_line := sr_line r @ [c]\<rparr>"] Cons.prems True c k' by simp
    then show ?thesis using k' by simp
  next
    case False
    then show ?thesis
      using Cons.IH [of "r\<lparr>sr_line_overflow := True\<rparr>"] Cons.prems c by simp
  qed
qed simp

text \<open>An event of one \<open>data\<close> line longer than 8,186 bytes is dropped, because the field name is
  held in the line buffer with it; the limit meant for the data is 8,192.\<close>
theorem sse_long_line_dropped:
  assumes "8186 < length e" and "length e \<le> 8192" and "CR \<notin> set e" and "LF \<notin> set e"
  shows "fst (sse_session [''data: '' @ e @ [LF, LF]] sse_reader) = [] \<and>
    sr_dropped (snd (sse_session [''data: '' @ e @ [LF, LF]] sse_reader)) = 1"
proof -
  define line where "line = take kMaxEventBytes (''data: '' @ e)"
  have "fold feed_char (''data: '' @ e) sse_reader = sse_reader\<lparr>sr_line := line, sr_line_overflow := True\<rparr>"
    using assms by (subst feed_plain) (auto simp: sse_reader_def line_def kMaxEventBytes_def)
  moreover have "end_line (sse_reader\<lparr>sr_line := line, sr_line_overflow := True\<rparr>) =
      sse_reader\<lparr>sr_event_overflow := True, sr_event_has_data := True\<rparr>"
    by (simp add: end_line_def take_line_def take_field_def split_field_def sse_reader_def line_def
      kMaxEventBytes_def)
  moreover have "end_line (sse_reader\<lparr>sr_event_overflow := True, sr_event_has_data := True\<rparr>) =
      sse_reader\<lparr>sr_dropped := 1\<rparr>"
    by (simp add: end_line_def take_line_def dispatch_def sse_reader_def)
  ultimately have "sse_feed (''data: '' @ e @ [LF, LF]) sse_reader = sse_reader\<lparr>sr_dropped := 1\<rparr>"
    unfolding sse_feed_def by (simp add: sse_rewind_def feed_char_def sse_reader_def)
  then show ?thesis by (simp add: next_event_def sse_reader_def)
qed

lemma sse_long_line_dropped_witness:
  "fst (sse_session [''data: '' @ replicate 8190 (CHR ''x'') @ [LF, LF]] sse_reader) = [] \<and>
   sr_dropped (snd (sse_session [''data: '' @ replicate 8190 (CHR ''x'') @ [LF, LF]] sse_reader)) = 1"
  by (rule sse_long_line_dropped) simp_all

end
