(* ===== verification/Speech.thy ===== *)
theory Speech
  imports Protocol
begin

unbundle bit_operations_syntax

text \<open>
  \<open>speech.cpp\<close>: cutting streamed UTF-8 text into sentences, each with the expression in force.
  As in the SSE reader the fixed arrays are modelled by the text in use; finished sentences wait
  packed as a length byte, an expression byte and the body.
\<close>

definition kMaxSegmentCapacity :: nat where
  "kMaxSegmentCapacity = 200"

definition kMaxMarkerBytes :: nat where
  "kMaxMarkerBytes = 1 + 7"

definition kSpeechFifoBytes :: nat where
  "kSpeechFifoBytes = 512"

record speech =
  sp_max_bytes :: nat
  sp_expression :: Expression
  sp_pending :: string
  sp_marker :: string
  sp_dot_pending :: bool
  sp_fifo :: string
  sp_fifo_read :: nat
  sp_dropped :: nat

definition clamp :: "nat \<Rightarrow> nat \<Rightarrow> nat \<Rightarrow> nat" where
  "clamp v low high = (if v < low then low else if high < v then high else v)"

definition speech_segmenter :: "nat \<Rightarrow> speech" where
  "speech_segmenter max_segment_bytes =
    \<lparr>sp_max_bytes = clamp max_segment_bytes 8 kMaxSegmentCapacity,
     sp_expression = Expression_neutral, sp_pending = [], sp_marker = [], sp_dot_pending = False,
     sp_fifo = [], sp_fifo_read = 0, sp_dropped = 0\<rparr>"

definition kTerminators :: "string list" where
  "kTerminators =
    [[CHR 0xE3, CHR 0x80, CHR 0x82], [CHR 0xEF, CHR 0xBC, CHR 0x81],
     [CHR 0xEF, CHR 0xBC, CHR 0x9F]]"

definition is_marker_char :: "char \<Rightarrow> bool" where
  "is_marker_char c \<longleftrightarrow> CHR ''a'' \<le> c \<and> c \<le> CHR ''z''"

definition is_space :: "char \<Rightarrow> bool" where
  "is_space c \<longleftrightarrow> c = CHR '' '' \<or> c = CHR 0x09"

definition utf8_length :: "char \<Rightarrow> nat" where
  "utf8_length c =
    (let lead = char_byte c in
     if lead < 0x80 then 1
     else if lead AND 0xE0 = 0xC0 then 2
     else if lead AND 0xF0 = 0xE0 then 3
     else if lead AND 0xF8 = 0xF0 then 4
     else 0)"

definition emit :: "speech \<Rightarrow> speech" where
  "emit s =
    (let s = s\<lparr>sp_dot_pending := False\<rparr> in
     if sp_pending s = [] then s
     else
       (let need = 2 + length (sp_pending s) in
        if length (sp_fifo s) + need > kSpeechFifoBytes
        then s\<lparr>sp_dropped := sp_dropped s + 1, sp_pending := []\<rparr>
        else s\<lparr>sp_fifo := sp_fifo s
                 @ [char_of (length (sp_pending s)), char_of (expression_index (sp_expression s))]
                 @ sp_pending s,
               sp_pending := []\<rparr>))"

text \<open>The loop that walks back over continuation bytes.\<close>

primrec lead_from :: "string \<Rightarrow> nat \<Rightarrow> nat" where
  "lead_from p 0 = 0"
| "lead_from p (Suc n) = (if utf8_length (p ! n) = 0 then lead_from p n else Suc n)"

definition cut_at :: "string \<Rightarrow> nat" where
  "cut_at p =
    (let lead = lead_from p (length p) in
     if lead > 0 \<and> lead - 1 + utf8_length (p ! (lead - 1)) > length p then lead - 1 else length p)"

definition append_text :: "char \<Rightarrow> speech \<Rightarrow> speech" where
  "append_text c s =
    (let s = s\<lparr>sp_pending := sp_pending s @ [c]\<rparr> in
     if length (sp_pending s) < sp_max_bytes s then s
     else
       (let cut = cut_at (sp_pending s) in
        if cut = 0 then s
        else
          (let keep = drop cut (sp_pending s);
               s = emit (s\<lparr>sp_pending := take cut (sp_pending s)\<rparr>)
           in s\<lparr>sp_pending := keep\<rparr>)))"

definition dump_marker_as_text :: "speech \<Rightarrow> speech" where
  "dump_marker_as_text s = fold append_text (sp_marker s) (s\<lparr>sp_marker := []\<rparr>)"

definition resolve_pending_dot :: "char \<Rightarrow> speech \<Rightarrow> bool \<times> speech" where
  "resolve_pending_dot c s =
    (let s = s\<lparr>sp_dot_pending := False\<rparr> in
     if is_space c \<or> c = CHR 0x0A \<or> c = CHR 0x0D then (is_space c, emit s) else (False, s))"

definition consume_into_marker :: "char \<Rightarrow> speech \<Rightarrow> bool \<times> speech" where
  "consume_into_marker c s =
    (if c = CHR 0x5D then
       (let name = tl (sp_marker s);
            s = s\<lparr>sp_marker := []\<rparr>
        in case parse_expression name of
             Some e \<Rightarrow> (True, (emit s)\<lparr>sp_expression := e\<rparr>)
           | None \<Rightarrow> (True, append_text (CHR 0x5D) (fold append_text name (append_text (CHR 0x5B) s))))
     else if is_marker_char c \<and> length (sp_marker s) < kMaxMarkerBytes then
       (True, s\<lparr>sp_marker := sp_marker s @ [c]\<rparr>)
     else (False, dump_marker_as_text s))"

definition tail_is_terminator :: "speech \<Rightarrow> bool" where
  "tail_is_terminator s \<longleftrightarrow>
    list_ex (\<lambda>t. length t \<le> length (sp_pending s) \<and>
        drop (length (sp_pending s) - length t) (sp_pending s) = t) kTerminators"

text \<open>\<open>put_char\<close> once no dot and no marker claims the character.\<close>

definition put_plain :: "char \<Rightarrow> speech \<Rightarrow> speech" where
  "put_plain c s =
    (if c = CHR 0x5B then s\<lparr>sp_marker := [CHR 0x5B]\<rparr>
     else if c = CHR 0x0A \<or> c = CHR 0x0D then emit s
     else if sp_pending s = [] \<and> is_space c then s
     else
       (let s = append_text c s in
        if c = CHR ''!'' \<or> c = CHR ''?'' then emit s
        else if c = CHR ''.'' then s\<lparr>sp_dot_pending := True\<rparr>
        else if tail_is_terminator s then emit s
        else s))"

definition speech_put_char :: "char \<Rightarrow> speech \<Rightarrow> speech" where
  "speech_put_char c s =
    (let (done1, s) = (if sp_dot_pending s then resolve_pending_dot c s else (False, s)) in
     if done1 then s
     else
       (let (done2, s) = (if sp_marker s \<noteq> [] then consume_into_marker c s else (False, s)) in
        if done2 then s else put_plain c s))"

definition speech_rewind :: "speech \<Rightarrow> speech" where
  "speech_rewind s =
    (if sp_fifo_read s = length (sp_fifo s) then s\<lparr>sp_fifo_read := 0, sp_fifo := []\<rparr> else s)"

definition speech_feed :: "string \<Rightarrow> speech \<Rightarrow> speech" where
  "speech_feed bytes s = fold speech_put_char bytes (speech_rewind s)"

definition speech_flush :: "speech \<Rightarrow> speech" where
  "speech_flush s =
    (let s = speech_rewind s;
         s = (if sp_marker s \<noteq> [] then dump_marker_as_text s else s)
     in emit s)"

type_synonym segment = "Expression \<times> string"

definition next_segment :: "speech \<Rightarrow> segment option \<times> speech" where
  "next_segment s =
    (if sp_fifo_read s = length (sp_fifo s) then (None, s)
     else
       (let len = of_char (sp_fifo s ! sp_fifo_read s);
            e = expression_of_index (of_char (sp_fifo s ! (sp_fifo_read s + 1)))
        in (Some (e, substr (sp_fifo s) (sp_fifo_read s + 2) len),
            s\<lparr>sp_fifo_read := sp_fifo_read s + (2 + len)\<rparr>)))"

section \<open>Any cut of the stream\<close>

lemma emit_frame [frame_rules, simp]:
  "sp_fifo_read (emit s) = sp_fifo_read s" "sp_max_bytes (emit s) = sp_max_bytes s"
  "sp_marker (emit s) = sp_marker s" "sp_expression (emit s) = sp_expression s"
  "sp_pending (emit s) = []" "sp_dot_pending (emit s) = False"
  "length (sp_fifo s) \<le> length (sp_fifo (emit s))"
  by (auto simp: emit_def Let_def)

lemma append_text_frame [frame_rules, simp]:
  "sp_fifo_read (append_text c s) = sp_fifo_read s"
  "sp_max_bytes (append_text c s) = sp_max_bytes s"
  "sp_marker (append_text c s) = sp_marker s" "sp_expression (append_text c s) = sp_expression s"
  "length (sp_fifo s) \<le> length (sp_fifo (append_text c s))"
proof -
  have "length (sp_fifo s) \<le> length (sp_fifo (emit (s\<lparr>sp_pending := p\<rparr>)))" for p
    using emit_frame(7) [of "s\<lparr>sp_pending := p\<rparr>"] by simp
  then show "length (sp_fifo s) \<le> length (sp_fifo (append_text c s))"
    by (simp add: append_text_def Let_def)
qed (simp_all add: append_text_def Let_def)

lemma fold_append_text_frame [frame_rules, simp]:
  "sp_fifo_read (fold append_text t s) = sp_fifo_read s"
  "sp_max_bytes (fold append_text t s) = sp_max_bytes s"
  "sp_marker (fold append_text t s) = sp_marker s"
  "sp_expression (fold append_text t s) = sp_expression s"
  "length (sp_fifo s) \<le> length (sp_fifo (fold append_text t s))"
proof -
  show "length (sp_fifo s) \<le> length (sp_fifo (fold append_text t s))"
  proof (induction t arbitrary: s)
    case (Cons c t)
    have "length (sp_fifo s) \<le> length (sp_fifo (append_text c s))" by simp
    also have "\<dots> \<le> length (sp_fifo (fold append_text t (append_text c s)))" by (rule Cons)
    finally show ?case by simp
  qed simp
qed (induction t arbitrary: s; simp)+

lemma dump_marker_frame [frame_rules, simp]:
  "sp_fifo_read (dump_marker_as_text s) = sp_fifo_read s"
  "sp_max_bytes (dump_marker_as_text s) = sp_max_bytes s" "sp_marker (dump_marker_as_text s) = []"
  "sp_expression (dump_marker_as_text s) = sp_expression s"
  "length (sp_fifo s) \<le> length (sp_fifo (dump_marker_as_text s))"
  using fold_append_text_frame(5) [of "s\<lparr>sp_marker := []\<rparr>" "sp_marker s"]
  by (simp_all add: dump_marker_as_text_def)

lemma resolve_pending_dot_frame [frame_rules, simp]:
  "sp_fifo_read (snd (resolve_pending_dot c s)) = sp_fifo_read s"
  "length (sp_fifo s) \<le> length (sp_fifo (snd (resolve_pending_dot c s)))"
  using emit_frame(7) [of "s\<lparr>sp_dot_pending := False\<rparr>"]
  by (simp_all add: resolve_pending_dot_def Let_def)

lemma consume_into_marker_frame [frame_rules, simp]:
  "sp_fifo_read (snd (consume_into_marker c s)) = sp_fifo_read s"
  "length (sp_fifo s) \<le> length (sp_fifo (snd (consume_into_marker c s)))"
proof -
  let ?s = "s\<lparr>sp_marker := []\<rparr>"
  have "length (sp_fifo ?s) \<le> length (sp_fifo (append_text (CHR 0x5B) ?s))"
    by (rule append_text_frame(5))
  also have "\<dots> \<le> length (sp_fifo (fold append_text (tl (sp_marker s)) (append_text (CHR 0x5B) ?s)))"
    by simp
  also have "\<dots> \<le> length (sp_fifo (append_text (CHR 0x5D)
      (fold append_text (tl (sp_marker s)) (append_text (CHR 0x5B) ?s))))" by simp
  finally show "length (sp_fifo s) \<le> length (sp_fifo (snd (consume_into_marker c s)))"
    using emit_frame(7) [of ?s]
    by (simp add: consume_into_marker_def Let_def split: option.split)
qed (simp add: consume_into_marker_def Let_def split: option.split)

lemma put_plain_frame [frame_rules, simp]:
  "sp_fifo_read (put_plain c s) = sp_fifo_read s"
  "length (sp_fifo s) \<le> length (sp_fifo (put_plain c s))"
proof -
  have "length (sp_fifo s) \<le> length (sp_fifo (emit (append_text c s)))"
    using append_text_frame(5) [of s c] emit_frame(7) [of "append_text c s"] by linarith
  then show "length (sp_fifo s) \<le> length (sp_fifo (put_plain c s))"
    by (simp add: put_plain_def Let_def)
qed (simp add: put_plain_def Let_def)

lemma put_char_cases:
  "speech_put_char c s =
    (let (done1, s1) = (if sp_dot_pending s then resolve_pending_dot c s else (False, s));
         (done2, s2) = (if sp_marker s1 \<noteq> [] then consume_into_marker c s1 else (False, s1))
     in if done1 then s1 else if done2 then s2 else put_plain c s2)"
  by (simp add: speech_put_char_def Let_def case_prod_beta)

lemma speech_put_char_frame [frame_rules]:
  "sp_fifo_read (speech_put_char c s) = sp_fifo_read s"
  "length (sp_fifo s) \<le> length (sp_fifo (speech_put_char c s))"
proof -
  define s1 where "s1 = snd (if sp_dot_pending s then resolve_pending_dot c s else (False, s))"
  define s2 where "s2 = snd (if sp_marker s1 \<noteq> [] then consume_into_marker c s1 else (False, s1))"
  have 1: "sp_fifo_read s1 = sp_fifo_read s" "length (sp_fifo s) \<le> length (sp_fifo s1)"
    by (simp_all add: s1_def)
  have 2: "sp_fifo_read s2 = sp_fifo_read s1" "length (sp_fifo s1) \<le> length (sp_fifo s2)"
    by (simp_all add: s2_def)
  have 3: "length (sp_fifo s) \<le> length (sp_fifo (put_plain c s2))"
    using 1(2) 2(2) put_plain_frame(2) [of s2 c] by linarith
  have "speech_put_char c s \<in> {s1, s2, put_plain c s2}"
    by (auto simp: put_char_cases s1_def s2_def Let_def case_prod_beta)
  then show "sp_fifo_read (speech_put_char c s) = sp_fifo_read s"
    "length (sp_fifo s) \<le> length (sp_fifo (speech_put_char c s))"
    using 1 2 3 by auto
qed

interpretation speech_stream:
  chunked_feed speech_put_char speech_rewind sp_fifo_read "\<lambda>s. length (sp_fifo s)"
  by unfold_locales (auto simp: speech_rewind_def speech_put_char_frame)

lemma speech_feed_stream: "speech_feed = speech_stream.feed"
  by (simp add: speech_feed_def speech_stream.feed_def fun_eq_iff)

section \<open>UTF-8 and the cut\<close>

definition is_continuation :: "char \<Rightarrow> bool" where
  "is_continuation c \<longleftrightarrow> 0x80 \<le> char_byte c \<and> char_byte c < 0xC0"

text \<open>Reading UTF-8: the continuation bytes still missing after a text, from \<open>k\<close> missing before.\<close>

fun utf8_run :: "nat \<Rightarrow> string \<Rightarrow> nat option" where
  "utf8_run k [] = Some k"
| "utf8_run k (c # cs) =
    (if k = 0 then (if utf8_length c = 0 then None else utf8_run (utf8_length c - 1) cs)
     else if is_continuation c then utf8_run (k - 1) cs
     else None)"

abbreviation whole :: "string \<Rightarrow> bool" where
  "whole t \<equiv> utf8_run 0 t = Some 0"

lemma utf8_run_append:
  "utf8_run k (a @ b) = (case utf8_run k a of None \<Rightarrow> None | Some j \<Rightarrow> utf8_run j b)"
  by (induction a arbitrary: k) auto

lemma utf8_length_props:
  "utf8_length c \<le> 4" "is_continuation c \<Longrightarrow> utf8_length c = 0"
  "(of_char c :: nat) < 128 \<Longrightarrow> utf8_length c = 1"
proof -
  show "utf8_length c \<le> 4" by (simp add: utf8_length_def Let_def)
  show "(of_char c :: nat) < 128 \<Longrightarrow> utf8_length c = 1"
    by (simp add: utf8_length_def Let_def word_less_nat_alt)
  assume "is_continuation c"
  then have b: "0x80 \<le> char_byte c" "char_byte c < 0xC0" by (simp_all add: is_continuation_def)
  have "char_byte c AND m \<noteq> v" if "0xC0 \<le> v" for m v
  proof -
    have "char_byte c AND m < 0xC0" using word_and_le2 b(2) by (rule le_less_trans)
    with that show ?thesis by auto
  qed
  with b show "utf8_length c = 0" by (simp add: utf8_length_def Let_def)
qed

lemma utf8_last_char:
  "utf8_run 0 p = Some k \<Longrightarrow> p \<noteq> [] \<Longrightarrow>
   \<exists>q l t. p = q @ l # t \<and> whole q \<and> (\<forall>c\<in>set t. is_continuation c) \<and>
     utf8_length l = 1 + length t + k"
proof (induction p arbitrary: k rule: rev_induct)
  case (snoc c p)
  obtain j where j: "utf8_run 0 p = Some j" "utf8_run j [c] = Some k"
    using snoc.prems by (auto simp: utf8_run_append split: option.splits)
  show ?case
  proof (cases "j = 0")
    case True
    with j show ?thesis by (intro exI [of _ p] exI [of _ c] exI [of _ "[]"]) (auto split: if_splits)
  next
    case False
    then have "p \<noteq> []" using j(1) by auto
    then obtain q l t where "p = q @ l # t" "whole q" "\<forall>c\<in>set t. is_continuation c"
      "utf8_length l = 1 + length t + j"
      using snoc.IH [OF j(1)] by blast
    with False j(2) show ?thesis
      by (intro exI [of _ q] exI [of _ l] exI [of _ "t @ [c]"]) (auto split: if_splits)
  qed
qed simp

lemma lead_from_tail:
  "\<forall>c\<in>set t. is_continuation c \<Longrightarrow> 0 < utf8_length l \<Longrightarrow>
   lead_from (q @ l # t @ u) (length q + 1 + length t) = length q + 1"
proof (induction t arbitrary: u rule: rev_induct)
  case (snoc c t)
  have "(q @ l # (t @ [c]) @ u) ! (length q + 1 + length t) = c"
    by (simp add: nth_append)
  with snoc show ?case by (simp add: utf8_length_props)
qed simp

lemma cut_at_utf8:
  assumes "utf8_run 0 p = Some k" and "p \<noteq> []"
  obtains "k = 0" "cut_at p = length p"
  | q r where "0 < k" "p = q @ r" "cut_at p = length q" "whole q" "utf8_run 0 r = Some k"
      "length r \<le> 3" "r \<noteq> []"
proof -
  obtain q l t where p: "p = q @ l # t" "whole q" "\<forall>c\<in>set t. is_continuation c"
    "utf8_length l = 1 + length t + k"
    using utf8_last_char [OF assms] by blast
  have lead: "lead_from p (length p) = length q + 1"
    using lead_from_tail [of t l q "[]"] p by simp
  have at: "p ! length q = l" by (simp add: p(1))
  have cut: "cut_at p = (if k > 0 then length q else length p)"
    using p(4) by (simp add: cut_at_def Let_def lead at) (simp add: p(1))
  show thesis
  proof (cases "k = 0")
    case True
    then show thesis using cut that(1) by simp
  next
    case False
    have "utf8_run 0 (l # t) = Some k"
      using assms(1) p(1,2) by (simp add: utf8_run_append)
    moreover have "length (l # t) \<le> 3" using p(4) utf8_length_props(1) [of l] False by simp
    ultimately show thesis using that(2) [of q "l # t"] p cut False by simp
  qed
qed

section \<open>The invariant\<close>

definition pack_segment :: "segment \<Rightarrow> string" where
  "pack_segment seg =
    [char_of (length (snd seg)), char_of (expression_index (fst seg))] @ snd seg"

text \<open>\<open>speech_queue s segs\<close>: the sentences waiting in \<open>s\<close>.\<close>

definition speech_queue :: "speech \<Rightarrow> segment list \<Rightarrow> bool" where
  "speech_queue s segs \<longleftrightarrow>
    sp_fifo_read s \<le> length (sp_fifo s) \<and>
    drop (sp_fifo_read s) (sp_fifo s) = concat (map pack_segment segs) \<and>
    (\<forall>seg\<in>set segs. snd seg \<noteq> [] \<and> length (snd seg) \<le> sp_max_bytes s \<and> whole (snd seg))"

text \<open>\<open>text_invar k s\<close>: the bounds, and \<open>k\<close> continuation bytes missing at the end of \<open>sp_pending\<close>.\<close>

definition text_invar :: "nat \<Rightarrow> speech \<Rightarrow> bool" where
  "text_invar k s \<longleftrightarrow>
    8 \<le> sp_max_bytes s \<and> sp_max_bytes s \<le> kMaxSegmentCapacity \<and>
    length (sp_pending s) < sp_max_bytes s \<and> utf8_run 0 (sp_pending s) = Some k \<and>
    length (sp_fifo s) \<le> kSpeechFifoBytes \<and> (\<exists>segs. speech_queue s segs)"

definition marker_invar :: "nat \<Rightarrow> speech \<Rightarrow> bool" where
  "marker_invar k s \<longleftrightarrow>
    length (sp_marker s) \<le> kMaxMarkerBytes \<and> (sp_dot_pending s \<longrightarrow> k = 0) \<and>
    (sp_marker s \<noteq> [] \<longrightarrow> k = 0 \<and> hd (sp_marker s) = CHR 0x5B \<and>
      (\<forall>c\<in>set (tl (sp_marker s)). is_marker_char c))"

definition speech_invar :: "nat \<Rightarrow> speech \<Rightarrow> bool" where
  "speech_invar k s \<longleftrightarrow> text_invar k s \<and> marker_invar k s"

lemma speech_invar_initial [invariant_rules]: "speech_invar 0 (speech_segmenter n)"
  by (auto simp: speech_invar_def text_invar_def marker_invar_def speech_segmenter_def clamp_def
      kMaxSegmentCapacity_def speech_queue_def intro!: exI [of _ "[]"])

text \<open>A full sentence that ends with a character is queued, or counted as dropped.\<close>

lemma emit_queue:
  assumes "speech_queue s segs" and "whole (sp_pending s)"
    and "length (sp_pending s) \<le> sp_max_bytes s"
  shows "\<exists>segs'. speech_queue (emit s) segs' \<and>
      (segs' = segs \<or> segs' = segs @ [(sp_expression s, sp_pending s)] \<and> sp_pending s \<noteq> [])"
proof (cases "sp_pending s = [] \<or> length (sp_fifo s) + (2 + length (sp_pending s)) > kSpeechFifoBytes")
  case True
  then have "speech_queue (emit s) segs"
    using assms by (auto simp: emit_def Let_def speech_queue_def)
  then show ?thesis by blast
next
  case False
  let ?seg = "(sp_expression s, sp_pending s)"
  have "speech_queue (emit s) (segs @ [?seg])"
    using False assms by (auto simp: emit_def Let_def speech_queue_def pack_segment_def)
  with False show ?thesis by blast
qed

lemma emit_fifo: "length (sp_fifo s) \<le> kSpeechFifoBytes \<Longrightarrow> length (sp_fifo (emit s)) \<le> kSpeechFifoBytes"
  by (simp add: emit_def Let_def)

lemma text_invar_emit [invariant_rules]: "text_invar 0 s \<Longrightarrow> text_invar 0 (emit s)"
  using emit_queue [of s] emit_fifo [of s] by (auto simp: text_invar_def)

lemma text_invar_append [invariant_rules]:
  assumes "text_invar k s" and "utf8_run k [c] = Some k'"
  shows "text_invar k' (append_text c s)"
proof -
  let ?p = "sp_pending s @ [c]"
  have run: "utf8_run 0 ?p = Some k'" using assms by (simp add: text_invar_def utf8_run_append)
  have max: "length ?p \<le> sp_max_bytes s" "8 \<le> sp_max_bytes s" using assms by (auto simp: text_invar_def)
  obtain segs where segs: "speech_queue s segs" using assms(1) by (auto simp: text_invar_def)
  show ?thesis
  proof (cases "length ?p < sp_max_bytes s")
    case True
    then show ?thesis using assms(1) run
      by (auto simp: append_text_def text_invar_def speech_queue_def)
  next
    case False
    then have full: "length ?p = sp_max_bytes s" using max by simp
    obtain q r where qr: "?p = q @ r" "cut_at ?p = length q" "whole q" "utf8_run 0 r = Some k'"
      "length r \<le> 3"
    proof (cases rule: cut_at_utf8 [OF run, simplified])
      case 1
      then show thesis using that [of ?p "[]"] run by simp
    next
      case (2 q r)
      then show thesis using that by simp
    qed
    have q: "length q \<noteq> 0" "length q \<le> sp_max_bytes s"
      using full qr(1,5) max(2) by auto
    let ?e = "emit (s\<lparr>sp_pending := q\<rparr>)"
    have a: "append_text c s = ?e\<lparr>sp_pending := r\<rparr>"
      using False q(1) qr(1,2) by (simp add: append_text_def Let_def)
    have "speech_queue (s\<lparr>sp_pending := q\<rparr>) segs" using segs by (simp add: speech_queue_def)
    from emit_queue [OF this] qr(3) q obtain segs' where "speech_queue ?e segs'" by auto
    then have "speech_queue (?e\<lparr>sp_pending := r\<rparr>) segs'" by (simp add: speech_queue_def)
    moreover have "length (sp_fifo ?e) \<le> kSpeechFifoBytes"
      using assms(1) by (intro emit_fifo) (simp add: text_invar_def)
    ultimately show ?thesis
      using assms(1) qr(4,5) max(2) unfolding a by (auto simp: text_invar_def)
  qed
qed

lemma ascii_run: "(of_char c :: nat) < 128 \<Longrightarrow> utf8_run 0 [c] = Some 0"
  by (simp add: utf8_length_props)

lemma text_invar_append_ascii:
  "text_invar 0 s \<Longrightarrow> (of_char c :: nat) < 128 \<Longrightarrow> text_invar 0 (append_text c s)"
  using text_invar_append ascii_run by blast

lemma text_invar_fold_ascii:
  "text_invar 0 s \<Longrightarrow> \<forall>c\<in>set t. (of_char c :: nat) < 128 \<Longrightarrow> text_invar 0 (fold append_text t s)"
  by (induction t arbitrary: s) (auto intro: text_invar_append_ascii)

lemma text_invar_fields [simp]:
  "text_invar k (s\<lparr>sp_marker := m\<rparr>) = text_invar k s"
  "text_invar k (s\<lparr>sp_dot_pending := d\<rparr>) = text_invar k s"
  "text_invar k (s\<lparr>sp_expression := e\<rparr>) = text_invar k s"
  by (simp_all add: text_invar_def speech_queue_def)

lemma marker_char_ascii: "is_marker_char c \<Longrightarrow> (of_char c :: nat) < 128"
  by (simp add: is_marker_char_def less_eq_char_def)

lemma marker_ascii:
  "marker_invar k s \<Longrightarrow> sp_marker s \<noteq> [] \<Longrightarrow> \<forall>c\<in>set (sp_marker s). (of_char c :: nat) < 128"
  by (cases "sp_marker s") (auto simp: marker_invar_def marker_char_ascii)

lemma text_invar_dump:
  "text_invar 0 s \<Longrightarrow> marker_invar 0 s \<Longrightarrow> text_invar 0 (dump_marker_as_text s)"
  using marker_ascii [of 0 s] unfolding dump_marker_as_text_def
  by (cases "sp_marker s = []") (auto intro!: text_invar_fold_ascii)

text \<open>One character, by where it stands in the UTF-8 stream.\<close>

lemma continuation_high: "is_continuation c \<Longrightarrow> 128 \<le> (of_char c :: nat)"
  by (simp add: is_continuation_def word_le_nat_alt)

lemma run_zero_step: "utf8_run k [c] = Some k' \<Longrightarrow> 0 < k \<or> 0 < k' \<Longrightarrow> 128 \<le> (of_char c :: nat)"
  using utf8_length_props(3) [of c] continuation_high [of c] by (force split: if_splits)

lemma high_char:
  "128 \<le> (of_char c :: nat) \<Longrightarrow>
   \<not> is_space c \<and> \<not> is_marker_char c \<and>
   c \<notin> {CHR 0x0A, CHR 0x0D, CHR 0x5B, CHR 0x5D, CHR ''!'', CHR ''?'', CHR ''.''}"
  by (auto simp: is_space_def is_marker_char_def less_eq_char_def)

lemma terminator_whole:
  assumes "tail_is_terminator s" and "utf8_run 0 (sp_pending s) = Some k"
  shows "k = 0"
proof -
  obtain t where t: "t \<in> set kTerminators"
    "drop (length (sp_pending s) - length t) (sp_pending s) = t"
    using assms(1) by (auto simp: tail_is_terminator_def list_ex_iff)
  then obtain a b c where abc: "t = [a, b, c]" "a = CHR 0xE3 \<or> a = CHR 0xEF"
    by (auto simp: kTerminators_def)
  obtain q where p: "sp_pending s = q @ [a, b, c]" using t(2) abc(1) by (metis append_take_drop_id)
  have "utf8_length (CHR 0xE3) = 3" "\<not> is_continuation (CHR 0xE3)"
    "utf8_length (CHR 0xEF) = 3" "\<not> is_continuation (CHR 0xEF)"
    by (simp_all add: utf8_length_def is_continuation_def char_byte_def Let_def)
  then have "utf8_length a = 3" "\<not> is_continuation a" using abc(2) by auto
  then show ?thesis
    using assms(2) by (auto simp: p utf8_run_append split: option.splits if_splits)
qed

lemma text_invar_zero: "text_invar k s \<Longrightarrow> text_invar 0 s \<Longrightarrow> k = 0"
  by (simp add: text_invar_def)

lemma marker_invar_append [simp]:
  "marker_invar k (append_text c s) \<longleftrightarrow> length (sp_marker s) \<le> kMaxMarkerBytes \<and>
    (sp_dot_pending (append_text c s) \<longrightarrow> k = 0) \<and>
    (sp_marker s \<noteq> [] \<longrightarrow> k = 0 \<and> hd (sp_marker s) = CHR 0x5B \<and>
      (\<forall>c\<in>set (tl (sp_marker s)). is_marker_char c))"
  by (simp add: marker_invar_def)

lemma append_text_dot: "sp_dot_pending (append_text c s) \<Longrightarrow> sp_dot_pending s"
  by (auto simp: append_text_def Let_def split: if_splits)

lemma fold_append_text_dot: "sp_dot_pending (fold append_text t s) \<Longrightarrow> sp_dot_pending s"
  by (induction t arbitrary: s) (auto dest: append_text_dot)

lemma put_plain_invar:
  assumes "text_invar k s" and "utf8_run k [c] = Some k'" and "sp_marker s = []"
    and "\<not> sp_dot_pending s"
  shows "speech_invar k' (put_plain c s)"
proof -
  have app: "text_invar k' (append_text c s)" using assms(1,2) by (rule text_invar_append)
  have nodot: "\<not> sp_dot_pending (append_text c s)" using assms(4) append_text_dot by blast
  show ?thesis
  proof (cases "0 < k \<or> 0 < k'")
    case True
    note c = high_char [OF run_zero_step [OF assms(2) True]]
    show ?thesis
    proof (cases "tail_is_terminator (append_text c s)")
      case t: True
      have "utf8_run 0 (sp_pending (append_text c s)) = Some k'" using app by (simp add: text_invar_def)
      with t have "k' = 0" by (rule terminator_whole)
      with c t app assms(3) show ?thesis
        by (auto simp: put_plain_def Let_def speech_invar_def marker_invar_def intro: text_invar_emit)
    next
      case False
      with c app assms(3) nodot show ?thesis
        by (auto simp: put_plain_def Let_def speech_invar_def marker_invar_def)
    qed
  next
    case False
    with assms app nodot show ?thesis
      by (auto simp: put_plain_def Let_def speech_invar_def marker_invar_def kMaxMarkerBytes_def
          intro: text_invar_emit)
  qed
qed

lemma resolve_dot_invar:
  assumes "speech_invar 0 s"
  shows "speech_invar 0 (snd (resolve_pending_dot c s)) \<and>
    \<not> sp_dot_pending (snd (resolve_pending_dot c s))"
  using assms
  by (auto simp: resolve_pending_dot_def Let_def speech_invar_def marker_invar_def
      intro!: text_invar_emit)

lemma consume_marker_invar:
  assumes "speech_invar 0 s" and "sp_marker s \<noteq> []" and "\<not> sp_dot_pending s"
    and "consume_into_marker c s = (consumed, s')"
  shows "speech_invar 0 s' \<and> \<not> sp_dot_pending s' \<and> (\<not> consumed \<longrightarrow> sp_marker s' = [])"
proof -
  have t: "text_invar 0 s" and m: "marker_invar 0 s" using assms(1) by (simp_all add: speech_invar_def)
  have nodot: "\<not> sp_dot_pending (fold append_text x s0)" if "\<not> sp_dot_pending s0" for x s0
    using that fold_append_text_dot by blast
  consider (close) e where "c = CHR 0x5D" "parse_expression (tl (sp_marker s)) = Some e"
    | (unknown) "c = CHR 0x5D" "parse_expression (tl (sp_marker s)) = None"
    | (more) "c \<noteq> CHR 0x5D" "is_marker_char c" "length (sp_marker s) < kMaxMarkerBytes"
    | (dump) "c \<noteq> CHR 0x5D" "\<not> (is_marker_char c \<and> length (sp_marker s) < kMaxMarkerBytes)"
    by (cases "parse_expression (tl (sp_marker s))") auto
  then show ?thesis
  proof cases
    case close
    then have "s' = (emit (s\<lparr>sp_marker := []\<rparr>))\<lparr>sp_expression := e\<rparr>" "consumed"
      using assms(4) by (auto simp: consume_into_marker_def Let_def)
    with t show ?thesis
      by (auto simp: speech_invar_def marker_invar_def intro!: text_invar_emit)
  next
    case unknown
    let ?a = "fold append_text (CHR 0x5B # tl (sp_marker s) @ [CHR 0x5D]) (s\<lparr>sp_marker := []\<rparr>)"
    have s': "s' = ?a" "consumed" using unknown assms(4) by (auto simp: consume_into_marker_def Let_def)
    have "\<forall>x\<in>set (CHR 0x5B # tl (sp_marker s) @ [CHR 0x5D]). (of_char x :: nat) < 128"
      using marker_ascii [OF m assms(2)] assms(2) by (auto dest: list.set_sel(2))
    then have "text_invar 0 ?a" using t by (intro text_invar_fold_ascii) simp_all
    moreover have "\<not> sp_dot_pending ?a" using assms(3) by (intro nodot) simp
    ultimately show ?thesis unfolding s' using s'(2)
      by (simp add: speech_invar_def marker_invar_def del: fold_simps)
  next
    case more
    then have "s' = s\<lparr>sp_marker := sp_marker s @ [c]\<rparr>" "consumed"
      using assms(4) by (auto simp: consume_into_marker_def Let_def)
    with t m more assms(2,3) show ?thesis
      by (auto simp: speech_invar_def marker_invar_def)
  next
    case dump
    then have s': "s' = dump_marker_as_text s" "\<not> consumed"
      using assms(4) by (auto simp: consume_into_marker_def Let_def)
    have "\<not> sp_dot_pending s'"
      unfolding s' dump_marker_as_text_def using assms(3) by (intro nodot) simp
    with text_invar_dump [OF t m] s' show ?thesis
      by (simp add: speech_invar_def marker_invar_def)
  qed
qed

lemma speech_put_char_invar [invariant_rules]:
  assumes "speech_invar k s" and "utf8_run k [c] = Some k'"
  shows "speech_invar k' (speech_put_char c s)"
proof (cases "sp_dot_pending s \<or> sp_marker s \<noteq> []")
  case False
  then show ?thesis
    using assms put_plain_invar [of k s c k']
    by (simp add: put_char_cases speech_invar_def)
next
  case True
  then have k: "k = 0" using assms(1) by (auto simp: speech_invar_def marker_invar_def)
  define s1 where "s1 = snd (if sp_dot_pending s then resolve_pending_dot c s else (False, s))"
  define done1 where "done1 = fst (if sp_dot_pending s then resolve_pending_dot c s else (False, s))"
  have s1: "speech_invar 0 s1" "\<not> sp_dot_pending s1"
    using resolve_dot_invar [of s c] assms(1) k by (auto simp: s1_def)
  have done1: "done1 \<Longrightarrow> k' = 0"
  proof -
    assume "done1"
    then have "is_space c" by (auto simp: done1_def resolve_pending_dot_def Let_def split: if_splits)
    then have "\<not> 128 \<le> (of_char c :: nat)" by (auto simp: is_space_def)
    then show "k' = 0" using run_zero_step [OF assms(2)] by blast
  qed
  define r2 where "r2 = (if sp_marker s1 \<noteq> [] then consume_into_marker c s1 else (False, s1))"
  have put: "speech_put_char c s = (if done1 then s1 else if fst r2 then snd r2 else put_plain c (snd r2))"
    by (simp add: put_char_cases s1_def done1_def r2_def Let_def case_prod_beta)
  have r2: "speech_invar 0 (snd r2)" "\<not> sp_dot_pending (snd r2)" "\<not> fst r2 \<longrightarrow> sp_marker (snd r2) = []"
    using consume_marker_invar [OF s1(1) _ s1(2), of c "fst r2" "snd r2"] s1 by (auto simp: r2_def)
  have done2: "fst r2 \<Longrightarrow> k' = 0"
  proof -
    assume "fst r2"
    then have "c = CHR 0x5D \<or> is_marker_char c"
      by (auto simp: r2_def consume_into_marker_def Let_def split: if_splits option.splits)
    then have "\<not> 128 \<le> (of_char c :: nat)" using high_char by auto
    then show "k' = 0" using run_zero_step [OF assms(2)] by blast
  qed
  have "speech_invar k' (put_plain c (snd r2))" if "\<not> fst r2"
    using r2 that assms(2) k by (intro put_plain_invar) (auto simp: speech_invar_def)
  with s1 r2 done1 done2 show ?thesis by (auto simp: put)
qed

lemma speech_fold_invar:
  "speech_invar k s \<Longrightarrow> utf8_run k bytes = Some k' \<Longrightarrow> speech_invar k' (fold speech_put_char bytes s)"
proof (induction bytes arbitrary: k s)
  case (Cons c bytes)
  then obtain j where "utf8_run k [c] = Some j" "utf8_run j bytes = Some k'"
    by (auto split: if_splits)
  with Cons show ?case using speech_put_char_invar by fastforce
qed simp

lemma speech_rewind_invar: "speech_invar k s \<Longrightarrow> speech_invar k (speech_rewind s)"
  by (auto simp: speech_invar_def text_invar_def marker_invar_def speech_rewind_def speech_queue_def
      intro!: exI [of _ "[]"])

lemma speech_feed_invar [invariant_rules]:
  "speech_invar k s \<Longrightarrow> utf8_run k bytes = Some k' \<Longrightarrow> speech_invar k' (speech_feed bytes s)"
  unfolding speech_feed_def by (intro speech_fold_invar speech_rewind_invar)

section \<open>What the consumer takes\<close>

lemma next_segment_pack:
  assumes "drop n f = pack_segment (e, t) @ rest" and "length t \<le> kMaxSegmentCapacity" and "n \<le> length f"
  shows "of_char (f ! n) = length t" and "expression_of_index (of_char (f ! (n + 1))) = e"
    and "substr f (n + 2) (length t) = t" and "drop (n + (2 + length t)) f = rest"
    and "n + (2 + length t) \<le> length f" and "n < length f"
proof -
  have at: "f ! (n + i) = (pack_segment (e, t) @ rest) ! i" for i
    using assms(1,3) by (metis nth_drop)
  have "expression_index e < 256" by (cases e) simp_all
  then show "of_char (f ! n) = length t" "expression_of_index (of_char (f ! (n + 1))) = e"
    using at [of 0] at [of 1] assms(2) by (simp_all add: pack_segment_def kMaxSegmentCapacity_def)
  have d: "drop (n + i) f = drop i (pack_segment (e, t) @ rest)" for i
    using assms(1) by (metis add.commute drop_drop)
  from d [of 2] d [of "2 + length t"]
  show "substr f (n + 2) (length t) = t" and "drop (n + (2 + length t)) f = rest"
    by (simp_all add: substr_def pack_segment_def)
  have "length (drop n f) = 2 + length t + length rest" using assms(1) by (simp add: pack_segment_def)
  then show "n + (2 + length t) \<le> length f" "n < length f" using assms(3) by auto
qed

lemma next_segment_queue:
  assumes "speech_queue s segs" and "sp_max_bytes s \<le> kMaxSegmentCapacity"
  shows "(segs = [] \<longrightarrow> next_segment s = (None, s)) \<and>
    (\<forall>seg segs'. segs = seg # segs' \<longrightarrow>
       (\<exists>s'. next_segment s = (Some seg, s') \<and> speech_queue s' segs'))"
proof (cases segs)
  case Nil
  then show ?thesis using assms by (auto simp: speech_queue_def next_segment_def)
next
  case (Cons seg segs')
  obtain e t where seg: "seg = (e, t)" by fastforce
  have d: "drop (sp_fifo_read s) (sp_fifo s) = pack_segment (e, t) @ concat (map pack_segment segs')"
    and l: "length t \<le> kMaxSegmentCapacity" "sp_fifo_read s \<le> length (sp_fifo s)"
    using assms Cons seg by (auto simp: speech_queue_def)
  note p = next_segment_pack [OF d l]
  have "next_segment s = (Some (e, t), s\<lparr>sp_fifo_read := sp_fifo_read s + (2 + length t)\<rparr>)"
    using p(6) p(1-3) by (simp add: next_segment_def Let_def)
  moreover have "speech_queue (s\<lparr>sp_fifo_read := sp_fifo_read s + (2 + length t)\<rparr>) segs'"
    using p(4,5) assms Cons by (simp add: speech_queue_def)
  ultimately show ?thesis using Cons seg by auto
qed

lemma next_segment_invar [invariant_rules]:
  assumes "speech_invar k s"
  shows "speech_invar k (snd (next_segment s)) \<and>
    (\<forall>seg. fst (next_segment s) = Some seg \<longrightarrow>
       whole (snd seg) \<and> snd seg \<noteq> [] \<and> length (snd seg) \<le> sp_max_bytes s)"
proof -
  obtain segs where segs: "speech_queue s segs" and max: "sp_max_bytes s \<le> kMaxSegmentCapacity"
    using assms by (auto simp: speech_invar_def text_invar_def)
  have frame: "\<exists>n. snd (next_segment s) = s\<lparr>sp_fifo_read := n\<rparr>"
    by (auto simp: next_segment_def Let_def intro: exI [of _ "sp_fifo_read s"])
  show ?thesis
  proof (cases segs)
    case Nil
    then show ?thesis using next_segment_queue [OF segs max] assms by simp
  next
    case (Cons seg segs')
    then obtain s' where s': "next_segment s = (Some seg, s')" "speech_queue s' segs'"
      using next_segment_queue [OF segs max] by blast
    obtain n where n: "s' = s\<lparr>sp_fifo_read := n\<rparr>" using frame s'(1) by auto
    have "speech_invar k s'"
      using assms s'(2) unfolding n by (auto simp: speech_invar_def text_invar_def marker_invar_def)
    with s'(1) segs Cons show ?thesis by (auto simp: speech_queue_def)
  qed
qed

lemma speech_flush_invar [invariant_rules]:
  "speech_invar 0 s \<Longrightarrow> speech_invar 0 (speech_flush s)"
proof -
  assume "speech_invar 0 s"
  then have r: "text_invar 0 (speech_rewind s)" "marker_invar 0 (speech_rewind s)"
    using speech_rewind_invar [of 0 s] by (simp_all add: speech_invar_def)
  then have "text_invar 0 (emit (dump_marker_as_text (speech_rewind s)))"
    "text_invar 0 (emit (speech_rewind s))"
    by (blast intro: text_invar_emit text_invar_dump)+
  then show ?thesis
    using r(2) by (auto simp: speech_flush_def Let_def speech_invar_def marker_invar_def kMaxMarkerBytes_def)
qed

text \<open>After a flush nothing is held back.\<close>

lemma speech_flush_empty:
  "sp_pending (speech_flush s) = [] \<and> sp_marker (speech_flush s) = [] \<and>
   \<not> sp_dot_pending (speech_flush s)"
  by (simp add: speech_flush_def Let_def)

section \<open>Markers\<close>

lemma put_marker_chars:
  "\<forall>c\<in>set name. is_marker_char c \<Longrightarrow> length pre + length name < kMaxMarkerBytes \<Longrightarrow>
   \<not> sp_dot_pending s \<Longrightarrow> sp_marker s = CHR 0x5B # pre \<Longrightarrow>
   fold speech_put_char name s = s\<lparr>sp_marker := CHR 0x5B # pre @ name\<rparr>"
proof (induction name arbitrary: s pre)
  case (Cons c name)
  have "c \<noteq> CHR 0x5D" using Cons.prems(1) by (auto simp: is_marker_char_def less_eq_char_def)
  then have "speech_put_char c s = s\<lparr>sp_marker := CHR 0x5B # pre @ [c]\<rparr>"
    using Cons.prems by (simp add: put_char_cases consume_into_marker_def)
  with Cons.IH [of "pre @ [c]" "s\<lparr>sp_marker := CHR 0x5B # pre @ [c]\<rparr>"] Cons.prems show ?case by simp
qed simp

lemma expression_marker_chars: "\<forall>c\<in>set (expression_to_string e). is_marker_char c"
  by (cases e) (simp_all add: expression_tables is_marker_char_def less_eq_char_def)

definition marker_text :: "string \<Rightarrow> string" where
  "marker_text name = CHR 0x5B # name @ [CHR 0x5D]"

text \<open>A known marker ends the sentence before it and selects the expression of the next.\<close>

lemma put_known_marker:
  assumes "sp_marker s = []" and "\<not> sp_dot_pending s"
  shows "fold speech_put_char (marker_text (expression_to_string e)) s =
    (emit s)\<lparr>sp_expression := e\<rparr>"
proof -
  let ?n = "expression_to_string e"
  let ?m = "s\<lparr>sp_marker := CHR 0x5B # ?n\<rparr>"
  have "speech_put_char (CHR 0x5B) s = s\<lparr>sp_marker := [CHR 0x5B]\<rparr>"
    using assms by (simp add: put_char_cases put_plain_def)
  moreover have "fold speech_put_char ?n (s\<lparr>sp_marker := [CHR 0x5B]\<rparr>) = ?m"
    using put_marker_chars [of ?n "[]" "s\<lparr>sp_marker := [CHR 0x5B]\<rparr>"] assms expression_marker_chars
      expression_name_bounds [of e] by (simp add: kMaxMarkerBytes_def)
  moreover have "speech_put_char (CHR 0x5D) ?m = (emit (s\<lparr>sp_marker := []\<rparr>))\<lparr>sp_expression := e\<rparr>"
    using assms by (simp add: put_char_cases consume_into_marker_def expression_names.parse_to_name Let_def)
  moreover have "s\<lparr>sp_marker := []\<rparr> = s" using assms(1) by simp
  ultimately show ?thesis by (simp add: marker_text_def)
qed

text \<open>Brackets round anything else stay in the text.\<close>

lemma put_unknown_marker:
  assumes "sp_marker s = []" and "\<not> sp_dot_pending s" and "\<forall>c\<in>set name. is_marker_char c"
    and "length name < kMaxMarkerBytes" and "parse_expression name = None"
  shows "fold speech_put_char (marker_text name) s = fold append_text (marker_text name) s"
proof -
  let ?m = "s\<lparr>sp_marker := CHR 0x5B # name\<rparr>"
  have "speech_put_char (CHR 0x5B) s = s\<lparr>sp_marker := [CHR 0x5B]\<rparr>"
    using assms by (simp add: put_char_cases put_plain_def)
  moreover have "fold speech_put_char name (s\<lparr>sp_marker := [CHR 0x5B]\<rparr>) = ?m"
    using put_marker_chars [of name "[]" "s\<lparr>sp_marker := [CHR 0x5B]\<rparr>"] assms by simp
  moreover have "speech_put_char (CHR 0x5D) ?m = fold append_text (marker_text name) (s\<lparr>sp_marker := []\<rparr>)"
    using assms by (simp add: put_char_cases consume_into_marker_def marker_text_def Let_def)
  moreover have "s\<lparr>sp_marker := []\<rparr> = s" using assms(1) by simp
  ultimately show ?thesis by (simp add: marker_text_def)
qed

end
