(* ===== verification/Speech_Session.thy ===== *)
theory Speech_Session
  imports Speech "HOL-Library.Sublist"
begin

text \<open>
  Whole sessions of the speech segmenter: blocks of reply text are fed, the sentences taken after
  each, and the rest flushed at the end, the way a conversation drives it. What is spoken is text of
  the reply, in order.
\<close>

section \<open>What one step speaks\<close>

text \<open>\<open>speaks input s s'\<close>: from \<open>s\<close> to \<open>s'\<close> sentences were added to the queue, and they and what is
  still being assembled are parts, in order, of what was being assembled and the input.\<close>

definition speaks :: "string \<Rightarrow> speech \<Rightarrow> speech \<Rightarrow> bool" where
  "speaks input s s' \<longleftrightarrow>
    (\<forall>segs. speech_queue s segs \<longrightarrow>
      (\<exists>new. speech_queue s' (segs @ new) \<and>
        subseq (concat (map snd new) @ sp_pending s' @ sp_marker s') (sp_pending s @ sp_marker s @ input)))"

lemma speaksI:
  assumes "\<And>segs. speech_queue s segs \<Longrightarrow> \<exists>new. speech_queue s' (segs @ new) \<and>
    subseq (concat (map snd new) @ sp_pending s' @ sp_marker s') (sp_pending s @ sp_marker s @ input)"
  shows "speaks input s s'"
  using assms by (simp add: speaks_def)

lemma speaks_trans:
  assumes "speaks a s s'" and "speaks b s' s''"
  shows "speaks (a @ b) s s''"
proof (rule speaksI)
  fix segs assume "speech_queue s segs"
  with assms(1) obtain new where new: "speech_queue s' (segs @ new)"
    "subseq (concat (map snd new) @ sp_pending s' @ sp_marker s') (sp_pending s @ sp_marker s @ a)"
    unfolding speaks_def by blast
  with assms(2) obtain more where more: "speech_queue s'' ((segs @ new) @ more)"
    "subseq (concat (map snd more) @ sp_pending s'' @ sp_marker s'') (sp_pending s' @ sp_marker s' @ b)"
    unfolding speaks_def by blast
  have "subseq (concat (map snd new) @ concat (map snd more) @ sp_pending s'' @ sp_marker s'')
      (concat (map snd new) @ sp_pending s' @ sp_marker s' @ b)"
    by (rule list_emb_append_mono [OF subseq_order.refl more(2)])
  also have "subseq \<dots> ((sp_pending s @ sp_marker s @ a) @ b)"
    using list_emb_append_mono [OF new(2), of b b] by simp
  finally show "\<exists>new. speech_queue s'' (segs @ new) \<and>
      subseq (concat (map snd new) @ sp_pending s'' @ sp_marker s'') (sp_pending s @ sp_marker s @ a @ b)"
    using more(1) by (intro exI [of _ "new @ more"]) simp
qed

lemma speaks_still:
  assumes "\<And>segs. speech_queue s segs \<Longrightarrow> speech_queue s' segs"
    and "subseq (sp_pending s' @ sp_marker s') (sp_pending s @ sp_marker s @ input)"
  shows "speaks input s s'"
  using assms by (intro speaksI exI [of _ "[]"]) simp

lemma speech_queue_fields [simp]:
  "speech_queue (s\<lparr>sp_marker := m\<rparr>) segs = speech_queue s segs"
  "speech_queue (s\<lparr>sp_dot_pending := d\<rparr>) segs = speech_queue s segs"
  "speech_queue (s\<lparr>sp_expression := e\<rparr>) segs = speech_queue s segs"
  "speech_queue (s\<lparr>sp_pending := p\<rparr>) segs = speech_queue s segs"
  by (simp_all add: speech_queue_def)

lemma speech_queue_marker: "speech_queue (s\<lparr>sp_marker := m\<rparr>) = speech_queue s"
  by (rule ext) simp

lemma speaks_fields:
  "speaks [] s (s\<lparr>sp_dot_pending := d\<rparr>)" "speaks [] s (s\<lparr>sp_expression := e\<rparr>)" "speaks [] s s"
  by (intro speaks_still; simp)+

lemma speaks_emit:
  assumes "text_invar 0 s"
  shows "speaks [] s (emit s)"
proof (rule speaksI)
  fix segs assume "speech_queue s segs"
  moreover have "whole (sp_pending s)" "length (sp_pending s) \<le> sp_max_bytes s"
    using assms by (simp_all add: text_invar_def)
  ultimately obtain segs' where q: "speech_queue (emit s) segs'"
    "segs' = segs \<or> segs' = segs @ [(sp_expression s, sp_pending s)]"
    using emit_queue by blast
  then show "\<exists>new. speech_queue (emit s) (segs @ new) \<and>
      subseq (concat (map snd new) @ sp_pending (emit s) @ sp_marker (emit s))
        (sp_pending s @ sp_marker s @ [])"
    by (elim disjE) (auto intro: exI [of _ "[]"] exI [of _ "[(sp_expression s, sp_pending s)]"])
qed

lemma speaks_append:
  assumes "text_invar k s" and "utf8_run k [c] = Some k'" and "sp_marker s = []"
  shows "speaks [c] s (append_text c s)"
proof -
  let ?p = "sp_pending s @ [c]"
  have run: "utf8_run 0 ?p = Some k'" using assms by (simp add: text_invar_def utf8_run_append)
  have max: "length ?p \<le> sp_max_bytes s" "8 \<le> sp_max_bytes s" using assms by (auto simp: text_invar_def)
  show ?thesis
  proof (cases "length ?p < sp_max_bytes s \<or> cut_at ?p = 0")
    case True
    then have "append_text c s = s\<lparr>sp_pending := ?p\<rparr>" by (auto simp: append_text_def Let_def)
    then show ?thesis using assms(3) by (intro speaks_still) simp_all
  next
    case False
    define q where "q = take (cut_at ?p) ?p"
    define r where "r = drop (cut_at ?p) ?p"
    let ?e = "emit (s\<lparr>sp_pending := q\<rparr>)"
    have pqr: "?p = q @ r" unfolding q_def r_def by (rule append_take_drop_id [symmetric])
    have a: "append_text c s = ?e\<lparr>sp_pending := r\<rparr>"
      using False by (simp add: append_text_def Let_def q_def r_def)
    have "whole q"
      using run by (cases rule: cut_at_utf8 [OF run, simplified]) (simp_all add: q_def)
    moreover have "length q \<le> sp_max_bytes s" using max(1) by (simp add: q_def)
    ultimately have e: "speech_queue s segs \<Longrightarrow> \<exists>segs'. speech_queue ?e segs' \<and>
        (segs' = segs \<or> segs' = segs @ [(sp_expression s, q)] \<and> q \<noteq> [])" for segs
      using emit_queue [of "s\<lparr>sp_pending := q\<rparr>" segs] by simp
    show ?thesis
    proof (rule speaksI)
      fix segs assume "speech_queue s segs"
      from e [OF this] obtain segs' where q: "speech_queue ?e segs'"
        "segs' = segs \<or> segs' = segs @ [(sp_expression s, q)]" by blast
      then show "\<exists>new. speech_queue (append_text c s) (segs @ new) \<and>
          subseq (concat (map snd new) @ sp_pending (append_text c s) @ sp_marker (append_text c s))
            (sp_pending s @ sp_marker s @ [c])"
        unfolding a using assms(3) pqr
        by (elim disjE)
          (auto intro: exI [of _ "[]"] exI [of _ "[(sp_expression s, q)]"] simp: list_emb_append2)
    qed
  qed
qed

lemma speaks_fold_ascii:
  "text_invar 0 s \<Longrightarrow> \<forall>c\<in>set t. (of_char c :: nat) < 128 \<Longrightarrow> sp_marker s = [] \<Longrightarrow>
   speaks t s (fold append_text t s)"
proof (induction t arbitrary: s)
  case Nil
  then show ?case by (simp add: speaks_fields)
next
  case (Cons c t)
  then have "speaks [c] s (append_text c s)" by (intro speaks_append [OF _ ascii_run]) simp_all
  moreover have "speaks t (append_text c s) (fold append_text t (append_text c s))"
    using Cons.prems by (intro Cons.IH text_invar_append_ascii) simp_all
  ultimately show ?case using speaks_trans [of "[c]" s _ t] by simp
qed

lemma speaks_from:
  assumes "speaks a s' s''" and "speech_queue s = speech_queue s'"
    and "subseq (sp_pending s' @ sp_marker s' @ a) (sp_pending s @ sp_marker s @ b)"
  shows "speaks b s s''"
  using assms unfolding speaks_def by (metis subseq_order.trans)

lemma speaks_skip: "speaks [] s s' \<Longrightarrow> speaks b s s'"
  by (rule speaks_from [OF _ refl]) (auto simp: subseq_append')

lemma speaks_from_marker:
  assumes "speaks a (s\<lparr>sp_marker := []\<rparr>) s'" and "subseq a (sp_marker s @ b)"
  shows "speaks b s s'"
  by (rule speaks_from [OF assms(1)]) (simp_all add: speech_queue_marker subseq_append' assms(2))

lemma speaks_plain:
  assumes "text_invar k s" and "utf8_run k [c] = Some k'" and "sp_marker s = []" and "\<not> sp_dot_pending s"
  shows "speaks [c] s (put_plain c s)"
proof -
  have app: "speaks [c] s (append_text c s)" by (rule speaks_append [OF assms(1,2,3)])
  have inv: "text_invar k' (append_text c s)" by (rule text_invar_append [OF assms(1,2)])
  have ascii: "k = 0 \<and> k' = 0" if "c \<in> {CHR 0x0A, CHR 0x0D, CHR ''!'', CHR ''?'', CHR ''.''}"
    by (rule ccontr) (use high_char [OF run_zero_step [OF assms(2)]] that in auto)
  have emitted: "speaks [c] s (emit (append_text c s))" if "k' = 0"
    using speaks_trans [OF app speaks_emit] inv that by simp
  have ended: "k' = 0" if "tail_is_terminator (append_text c s)"
    by (rule terminator_whole [OF that]) (use inv in \<open>simp add: text_invar_def\<close>)
  consider (marker) "c = CHR 0x5B" | (line) "c \<noteq> CHR 0x5B" "c = CHR 0x0A \<or> c = CHR 0x0D"
    | (lead) "put_plain c s = s" | (stop) "put_plain c s = emit (append_text c s)" "k' = 0"
    | (dot) "put_plain c s = (append_text c s)\<lparr>sp_dot_pending := True\<rparr>"
    | (plain) "put_plain c s = append_text c s"
  proof (cases "c = CHR 0x5B \<or> c = CHR 0x0A \<or> c = CHR 0x0D \<or> sp_pending s = [] \<and> is_space c")
    case True
    then show thesis using that(1,2,3) by (cases "c = CHR 0x5B"; cases "c = CHR 0x0A \<or> c = CHR 0x0D") (auto simp: put_plain_def)
  next
    case False
    then have "put_plain c s = (let s = append_text c s in
        if c = CHR ''!'' \<or> c = CHR ''?'' then emit s
        else if c = CHR ''.'' then s\<lparr>sp_dot_pending := True\<rparr>
        else if tail_is_terminator s then emit s else s)"
      unfolding put_plain_def by auto
    then consider "c = CHR ''!'' \<or> c = CHR ''?''" "put_plain c s = emit (append_text c s)"
      | "put_plain c s = (append_text c s)\<lparr>sp_dot_pending := True\<rparr>"
      | "tail_is_terminator (append_text c s)" "put_plain c s = emit (append_text c s)"
      | "put_plain c s = append_text c s"
      by (auto simp: Let_def split: if_splits)
    then show thesis using that(4,5,6) ascii ended by cases auto
  qed
  then show ?thesis
  proof cases
    case marker
    then show ?thesis using assms(3) by (intro speaks_still) (simp_all add: put_plain_def)
  next
    case line
    have "text_invar 0 s" using ascii line(2) assms(1) by auto
    then have "speaks [c] s (emit s)" by (rule speaks_skip [OF speaks_emit])
    then show ?thesis using line by (simp add: put_plain_def)
  next
    case lead
    then show ?thesis using speaks_skip [OF speaks_fields(3)] by simp
  next
    case stop
    then show ?thesis using emitted by simp
  next
    case dot
    then show ?thesis using speaks_trans [OF app speaks_fields(1)] by simp
  next
    case plain
    then show ?thesis using app by simp
  qed
qed

lemma speaks_marker:
  assumes "speech_invar 0 s" and "sp_marker s \<noteq> []" and "consume_into_marker c s = (consumed, s')"
  shows "speaks (if consumed then [c] else []) s s'"
proof -
  have t: "text_invar 0 s" and m: "marker_invar 0 s" using assms(1) by (simp_all add: speech_invar_def)
  have ascii: "\<forall>x\<in>set (sp_marker s). (of_char x :: nat) < 128" by (rule marker_ascii [OF m assms(2)])
  obtain name where split: "sp_marker s = CHR 0x5B # name"
    using m assms(2) by (cases "sp_marker s") (simp_all add: marker_invar_def)
  let ?s = "s\<lparr>sp_marker := []\<rparr>"
  have dump: "speaks (sp_marker s) ?s (fold append_text (sp_marker s) ?s)"
    using t ascii by (intro speaks_fold_ascii) simp_all
  consider (close) e where "c = CHR 0x5D" "parse_expression (tl (sp_marker s)) = Some e"
    | (unknown) "c = CHR 0x5D" "parse_expression (tl (sp_marker s)) = None"
    | (more) "c \<noteq> CHR 0x5D" "is_marker_char c" "length (sp_marker s) < kMaxMarkerBytes"
    | (over) "c \<noteq> CHR 0x5D" "\<not> (is_marker_char c \<and> length (sp_marker s) < kMaxMarkerBytes)"
    by (cases "parse_expression (tl (sp_marker s))") auto
  then show ?thesis
  proof cases
    case close
    then have s': "s' = (emit ?s)\<lparr>sp_expression := e\<rparr>" "consumed"
      using assms(3) by (auto simp: consume_into_marker_def Let_def)
    have "speaks [] ?s s'" using speaks_trans [OF speaks_emit speaks_fields(2), of ?s e] t s'(1) by simp
    then show ?thesis by (rule speaks_from_marker) simp
  next
    case unknown
    have "consume_into_marker c s = (True, append_text (CHR 0x5D) (fold append_text (sp_marker s) ?s))"
      unfolding consume_into_marker_def using unknown by (simp add: split)
    then have s': "s' = append_text (CHR 0x5D) (fold append_text (sp_marker s) ?s)" "consumed"
      using assms(3) by simp_all
    have "text_invar 0 (fold append_text (sp_marker s) ?s)"
      using t ascii by (intro text_invar_fold_ascii) simp_all
    then have "speaks [CHR 0x5D] (fold append_text (sp_marker s) ?s) s'"
      unfolding s'(1) by (intro speaks_append [OF _ ascii_run]) simp_all
    from speaks_trans [OF dump this] show ?thesis
      by (rule speaks_from_marker) (use s'(2) unknown(1) in simp)
  next
    case more
    then have "s' = s\<lparr>sp_marker := sp_marker s @ [c]\<rparr>" "consumed"
      using assms(3) by (auto simp: consume_into_marker_def Let_def)
    then show ?thesis by (intro speaks_still) simp_all
  next
    case over
    then have s': "s' = fold append_text (sp_marker s) ?s" "\<not> consumed"
      using assms(3) by (auto simp: consume_into_marker_def Let_def dump_marker_as_text_def)
    with dump have "speaks (sp_marker s) ?s s'" by simp
    then show ?thesis by (rule speaks_from_marker) (use s'(2) in simp)
  qed
qed

lemma speaks_put_char:
  assumes "speech_invar k s" and "utf8_run k [c] = Some k'"
  shows "speaks [c] s (speech_put_char c s)"
proof -
  obtain done1 s1 where r1: "(if sp_dot_pending s then resolve_pending_dot c s else (False, s)) = (done1, s1)"
    by fastforce
  obtain done2 s2 where r2: "(if sp_marker s1 \<noteq> [] then consume_into_marker c s1 else (False, s1)) = (done2, s2)"
    by fastforce
  have put: "speech_put_char c s = (if done1 then s1 else if done2 then s2 else put_plain c s2)"
    by (simp add: put_char_cases r1 r2)
  have dot: "sp_dot_pending s \<Longrightarrow> k = 0" and mark: "sp_marker s \<noteq> [] \<Longrightarrow> k = 0"
    using assms(1) by (auto simp: speech_invar_def marker_invar_def)
  have s1: "speaks [] s s1 \<and> speech_invar k s1 \<and> \<not> sp_dot_pending s1 \<and> (sp_marker s1 \<noteq> [] \<longrightarrow> k = 0)"
  proof (cases "sp_dot_pending s")
    case True
    then have k: "k = 0" and r: "s1 = snd (resolve_pending_dot c s)" using dot r1 by simp_all
    let ?s = "s\<lparr>sp_dot_pending := False\<rparr>"
    have "text_invar 0 ?s" using assms(1) k by (simp add: speech_invar_def)
    then have "speaks [] s (emit ?s)" using speaks_trans [OF speaks_fields(1) speaks_emit] by fastforce
    then have "speaks [] s s1"
      using speaks_fields(1) by (auto simp: r resolve_pending_dot_def Let_def)
    with resolve_dot_invar [of s c] assms(1) k r show ?thesis by simp
  next
    case False
    then show ?thesis using r1 assms(1) mark speaks_fields(3) by auto
  qed
  show ?thesis
  proof (cases "done1")
    case True
    then have "is_space c" "speech_put_char c s = s1"
      using r1 put by (auto simp: resolve_pending_dot_def Let_def split: if_splits)
    with s1 show ?thesis by (simp add: speaks_skip)
  next
    case False
    have s2: "speaks (if done2 then [c] else []) s1 s2 \<and> (\<not> done2 \<longrightarrow> text_invar k s2 \<and> sp_marker s2 = [] \<and>
        \<not> sp_dot_pending s2)"
    proof (cases "sp_marker s1 = []")
      case True
      then show ?thesis using r2 s1 speaks_fields(3) by (auto simp: speech_invar_def)
    next
      case m: False
      then have k: "k = 0" and r: "consume_into_marker c s1 = (done2, s2)" using s1 r2 by auto
      have inv: "speech_invar 0 s1" "\<not> sp_dot_pending s1" using s1 k by simp_all
      show ?thesis
        using speaks_marker [OF inv(1) m r] consume_marker_invar [OF inv(1) m inv(2) r] k
        by (simp add: speech_invar_def)
    qed
    show ?thesis
    proof (cases "done2")
      case True
      then show ?thesis using speaks_trans [of "[]" s s1 "[c]" s2] s1 s2 False put by simp
    next
      case plain: False
      then have "speaks [c] s2 (put_plain c s2)" using s2 assms(2) by (intro speaks_plain) auto
      with plain s1 s2 False put show ?thesis
        using speaks_trans [of "[]" s s1 "[]" s2] speaks_trans [of "[]" s s2 "[c]" "put_plain c s2"] by simp
    qed
  qed
qed

lemma speaks_fold:
  "speech_invar k s \<Longrightarrow> utf8_run k bytes = Some k' \<Longrightarrow> speaks bytes s (fold speech_put_char bytes s)"
proof (induction bytes arbitrary: k s)
  case Nil
  then show ?case by (simp add: speaks_fields)
next
  case (Cons c bytes)
  obtain j where j: "utf8_run k [c] = Some j" "utf8_run j bytes = Some k'"
    using Cons.prems(2) utf8_run_append [of k "[c]" bytes] by (auto split: option.splits simp del: utf8_run.simps)
  have "speaks bytes (speech_put_char c s) (fold speech_put_char bytes (speech_put_char c s))"
    by (rule Cons.IH [OF speech_put_char_invar [OF Cons.prems(1) j(1)] j(2)])
  with speaks_trans [OF speaks_put_char [OF Cons.prems(1) j(1)], of bytes] show ?case by simp
qed

section \<open>Sessions\<close>

fun speech_drain :: "nat \<Rightarrow> speech \<Rightarrow> segment list \<times> speech" where
  "speech_drain 0 s = ([], s)"
| "speech_drain (Suc n) s =
    (case next_segment s of
       (None, s') \<Rightarrow> ([], s')
     | (Some seg, s') \<Rightarrow> (let (segs, s'') = speech_drain n s' in (seg # segs, s'')))"

definition take_all :: "speech \<Rightarrow> segment list \<times> speech" where
  "take_all s = speech_drain (length (sp_fifo s) + 1) s"

fun speech_session :: "string list \<Rightarrow> speech \<Rightarrow> segment list" where
  "speech_session [] s = fst (take_all (speech_flush s))"
| "speech_session (block # blocks) s =
    (let (segs, s) = take_all (speech_feed block s) in segs @ speech_session blocks s)"

lemma speech_drain_queue:
  "speech_queue s segs \<Longrightarrow> sp_max_bytes s \<le> kMaxSegmentCapacity \<Longrightarrow> length segs < n \<Longrightarrow>
   \<exists>k. speech_drain n s = (segs, s\<lparr>sp_fifo_read := k\<rparr>) \<and> speech_queue (s\<lparr>sp_fifo_read := k\<rparr>) []"
proof (induction n arbitrary: s segs)
  case (Suc n)
  show ?case
  proof (cases segs)
    case Nil
    then have "next_segment s = (None, s)" using next_segment_queue [OF Suc.prems(1,2)] by simp
    then show ?thesis using Nil Suc.prems(1) by (intro exI [of _ "sp_fifo_read s"]) simp
  next
    case (Cons seg rest)
    then obtain s' where s': "next_segment s = (Some seg, s')" "speech_queue s' rest"
      using next_segment_queue [OF Suc.prems(1,2)] by blast
    obtain k where k: "s' = s\<lparr>sp_fifo_read := k\<rparr>" using s'(1) by (auto simp: next_segment_def Let_def split: if_splits)
    obtain m where "speech_drain n s' = (rest, s'\<lparr>sp_fifo_read := m\<rparr>)" "speech_queue (s'\<lparr>sp_fifo_read := m\<rparr>) []"
      using Suc.IH [OF s'(2)] Suc.prems(2,3) Cons k by auto
    then show ?thesis using s'(1) k Cons by (intro exI [of _ m]) simp
  qed
qed simp

lemma queue_segments_bound: "speech_queue s segs \<Longrightarrow> length segs \<le> length (sp_fifo s)"
proof -
  assume "speech_queue s segs"
  then have "length (concat (map pack_segment segs)) \<le> length (sp_fifo s)"
    unfolding speech_queue_def by (metis diff_le_self length_drop)
  moreover have "length segs \<le> length (concat (map pack_segment segs))"
    by (induction segs) (simp_all add: pack_segment_def)
  ultimately show ?thesis by simp
qed

lemma take_all_queue:
  assumes "speech_queue s segs" and "sp_max_bytes s \<le> kMaxSegmentCapacity"
  obtains k where "take_all s = (segs, s\<lparr>sp_fifo_read := k\<rparr>)" "speech_queue (s\<lparr>sp_fifo_read := k\<rparr>) []"
  using speech_drain_queue [OF assms, of "length (sp_fifo s) + 1"] queue_segments_bound [OF assms(1)]
  by (auto simp: take_all_def)

lemma rewind_queue:
  assumes "speech_queue s []"
  shows "speech_queue (speech_rewind s) []" and "sp_pending (speech_rewind s) = sp_pending s"
    and "sp_marker (speech_rewind s) = sp_marker s" and "sp_max_bytes (speech_rewind s) = sp_max_bytes s"
  using assms by (simp_all add: speech_rewind_def speech_queue_def)

lemma speech_invar_read:
  "speech_invar k s \<Longrightarrow> speech_queue (s\<lparr>sp_fifo_read := n\<rparr>) [] \<Longrightarrow> speech_invar k (s\<lparr>sp_fifo_read := n\<rparr>)"
  by (auto simp: speech_invar_def text_invar_def marker_invar_def)

definition spoken_ok :: "nat \<Rightarrow> segment list \<Rightarrow> bool" where
  "spoken_ok longest segs \<longleftrightarrow>
    (\<forall>seg\<in>set segs. whole (snd seg) \<and> snd seg \<noteq> [] \<and> length (snd seg) \<le> longest)"

lemma put_char_max_bytes [frame_rules, simp]: "sp_max_bytes (speech_put_char c s) = sp_max_bytes s"
proof -
  have "sp_max_bytes (snd (resolve_pending_dot c s)) = sp_max_bytes s" for s
    by (simp add: resolve_pending_dot_def Let_def)
  moreover have "sp_max_bytes (snd (consume_into_marker c s)) = sp_max_bytes s" for s
    by (simp add: consume_into_marker_def Let_def split: option.split)
  moreover have "sp_max_bytes (put_plain c s) = sp_max_bytes s" for s
    by (simp add: put_plain_def Let_def)
  ultimately show ?thesis by (simp add: put_char_cases Let_def split_beta)
qed

lemma fold_put_char_max_bytes [simp]: "sp_max_bytes (fold speech_put_char bytes s) = sp_max_bytes s"
  by (induction bytes arbitrary: s) simp_all

lemma take_speaks:
  assumes "speech_invar k s'" and "speaks input s s'" and "speech_queue s []"
    and "sp_max_bytes s' = sp_max_bytes s"
  obtains segs s'' where "take_all s' = (segs, s'')" "speech_invar k s''" "speech_queue s'' []"
    "subseq (concat (map snd segs) @ sp_pending s'' @ sp_marker s'') (sp_pending s @ sp_marker s @ input)"
    "spoken_ok (sp_max_bytes s) segs" "sp_max_bytes s'' = sp_max_bytes s"
proof -
  obtain segs where segs: "speech_queue s' segs"
    "subseq (concat (map snd segs) @ sp_pending s' @ sp_marker s') (sp_pending s @ sp_marker s @ input)"
    using assms(2,3) unfolding speaks_def by fastforce
  have "sp_max_bytes s' \<le> kMaxSegmentCapacity" using assms(1) by (simp add: speech_invar_def text_invar_def)
  from take_all_queue [OF segs(1) this] obtain m where m: "take_all s' = (segs, s'\<lparr>sp_fifo_read := m\<rparr>)"
    "speech_queue (s'\<lparr>sp_fifo_read := m\<rparr>) []" .
  have "spoken_ok (sp_max_bytes s) segs"
    using segs(1) assms(4) by (simp add: speech_queue_def spoken_ok_def)
  then show thesis
    using that [OF m(1) speech_invar_read [OF assms(1) m(2)] m(2)] segs(2) assms(4) by simp
qed

lemma feed_block:
  assumes "speech_invar k s" and "speech_queue s []" and "utf8_run k block = Some k'"
  obtains segs s' where "take_all (speech_feed block s) = (segs, s')" "speech_invar k' s'" "speech_queue s' []"
    "subseq (concat (map snd segs) @ sp_pending s' @ sp_marker s') (sp_pending s @ sp_marker s @ block)"
    "spoken_ok (sp_max_bytes s) segs" "sp_max_bytes s' = sp_max_bytes s"
proof -
  have r: "speech_invar k (speech_rewind s)" by (rule speech_rewind_invar [OF assms(1)])
  have "speaks block (speech_rewind s) (speech_feed block s)"
    unfolding speech_feed_def by (rule speaks_fold [OF r assms(3)])
  from take_speaks [OF speech_feed_invar [OF assms(1,3)] this] rewind_queue [OF assms(2)]
  show thesis using that by (auto simp: speech_feed_def)
qed

lemma flush_rest:
  assumes "speech_invar 0 s" and "speech_queue s []"
  obtains segs s' where "take_all (speech_flush s) = (segs, s')"
    "subseq (concat (map snd segs)) (sp_pending s @ sp_marker s)" "spoken_ok (sp_max_bytes s) segs"
proof -
  let ?r = "speech_rewind s"
  let ?d = "if sp_marker ?r \<noteq> [] then dump_marker_as_text ?r else ?r"
  have r: "text_invar 0 ?r" "marker_invar 0 ?r"
    using speech_rewind_invar [OF assms(1)] by (simp_all add: speech_invar_def)
  have "speaks [] ?r ?d \<and> text_invar 0 ?d"
  proof (cases "sp_marker ?r = []")
    case False
    have "speaks (sp_marker ?r) (?r\<lparr>sp_marker := []\<rparr>) (dump_marker_as_text ?r)"
      unfolding dump_marker_as_text_def
      using r(1) marker_ascii [OF r(2) False] by (intro speaks_fold_ascii) simp_all
    then have "speaks [] ?r (dump_marker_as_text ?r)" by (rule speaks_from_marker) simp
    then show ?thesis using False text_invar_dump [OF r] by simp
  qed (simp add: speaks_fields r)
  then have "speaks [] ?r (speech_flush s)"
    unfolding speech_flush_def Let_def using speaks_trans [of "[]" ?r ?d "[]"] speaks_emit by simp
  moreover have "sp_max_bytes (speech_flush s) = sp_max_bytes ?r" by (simp add: speech_flush_def Let_def)
  ultimately obtain segs s'' where t: "take_all (speech_flush s) = (segs, s'')"
    "spoken_ok (sp_max_bytes ?r) segs"
    "subseq (concat (map snd segs) @ sp_pending s'' @ sp_marker s'') (sp_pending ?r @ sp_marker ?r @ [])"
    using take_speaks [OF speech_flush_invar [OF assms(1)] _ rewind_queue(1) [OF assms(2)]] by metis
  have "subseq (concat (map snd segs)) (concat (map snd segs) @ sp_pending s'' @ sp_marker s'')"
    by (rule prefix_imp_subseq) simp
  from subseq_order.trans [OF this t(3)] t(1,2) show thesis
    using that rewind_queue [OF assms(2)] by simp
qed

lemma speech_session_spoken:
  "speech_invar k s \<Longrightarrow> speech_queue s [] \<Longrightarrow> utf8_run k (concat blocks) = Some 0 \<Longrightarrow>
   subseq (concat (map snd (speech_session blocks s))) (sp_pending s @ sp_marker s @ concat blocks) \<and>
   spoken_ok (sp_max_bytes s) (speech_session blocks s)"
proof (induction blocks arbitrary: k s)
  case Nil
  then have "speech_invar 0 s" by simp
  then obtain segs s' where "take_all (speech_flush s) = (segs, s')"
    "subseq (concat (map snd segs)) (sp_pending s @ sp_marker s)" "spoken_ok (sp_max_bytes s) segs"
    using flush_rest Nil.prems(2) by blast
  then show ?case by simp
next
  case (Cons block blocks)
  obtain j where j: "utf8_run k block = Some j" "utf8_run j (concat blocks) = Some 0"
    using Cons.prems(3) by (auto simp: utf8_run_append split: option.splits)
  obtain segs s' where s': "take_all (speech_feed block s) = (segs, s')" "speech_invar j s'" "speech_queue s' []"
    and t: "subseq (concat (map snd segs) @ sp_pending s' @ sp_marker s') (sp_pending s @ sp_marker s @ block)"
    and ok: "spoken_ok (sp_max_bytes s) segs" "sp_max_bytes s' = sp_max_bytes s"
    using feed_block [OF Cons.prems(1,2) j(1)] by metis
  note rest = Cons.IH [OF s'(2,3) j(2)]
  have "subseq (concat (map snd segs) @ concat (map snd (speech_session blocks s')))
      (concat (map snd segs) @ sp_pending s' @ sp_marker s' @ concat blocks)"
    using rest by (simp add: subseq_append')
  also have "subseq \<dots> ((sp_pending s @ sp_marker s @ block) @ concat blocks)"
    using list_emb_append_mono [OF t, of "concat blocks" "concat blocks"] by simp
  finally show ?case using rest s'(1) ok by (auto simp: spoken_ok_def)
qed

section \<open>Properties\<close>

text \<open>C23: the sentences spoken of a reply, however it was cut into blocks, are text of the reply in its
  order, nothing invented, repeated or moved; each is whole UTF-8, not empty and within the limit.\<close>
theorem speech_is_reply_text:
  assumes "whole (concat blocks)" and "segs = speech_session blocks (speech_segmenter limit)"
  shows "subseq (concat (map snd segs)) (concat blocks) \<and>
    list_all (\<lambda>seg. whole (snd seg) \<and> snd seg \<noteq> [] \<and> length (snd seg) \<le> clamp limit 8 kMaxSegmentCapacity) segs"
proof -
  have "speech_queue (speech_segmenter limit) []" by (simp add: speech_queue_def speech_segmenter_def)
  from speech_session_spoken [OF speech_invar_initial this assms(1)] assms(2)
  show ?thesis by (simp add: spoken_ok_def list_all_iff speech_segmenter_def)
qed

lemma speech_is_reply_text_witness:
  "subseq (concat (map snd (speech_session [''[happy]Hi. '', ''Bye!''] (speech_segmenter 60)))) ''[happy]Hi. Bye!'' \<and>
   map snd (speech_session [''[happy]Hi. '', ''Bye!''] (speech_segmenter 60)) = [''Hi.'', ''Bye!'']"
proof -
  have "map snd (speech_session [''[happy]Hi. '', ''Bye!''] (speech_segmenter 60)) = [''Hi.'', ''Bye!'']"
    by code_simp
  moreover have "whole (concat [''[happy]Hi. '', ''Bye!''])" by code_simp
  ultimately show ?thesis using speech_is_reply_text [OF _ refl, of "[''[happy]Hi. '', ''Bye!'']" 60] by simp
qed

text \<open>C24: a marker that names an expression is never spoken: it ends the sentence and sets the
  expression of the next; one that names none is spoken as it stands.\<close>
theorem markers_steer_or_speak:
  assumes "sp_marker s = []" and "\<not> sp_dot_pending s" and "\<forall>c\<in>set name. is_marker_char c"
    and "length name < kMaxMarkerBytes"
  shows "fold speech_put_char (marker_text name) s =
    (case parse_expression name of
       Some e \<Rightarrow> (emit s)\<lparr>sp_expression := e\<rparr>
     | None \<Rightarrow> fold append_text (marker_text name) s)"
proof (cases "parse_expression name")
  case None
  then show ?thesis using put_unknown_marker [OF assms] by simp
next
  case (Some e)
  then have "name = expression_to_string e" using expression_names.parse_iff by blast
  then show ?thesis using put_known_marker [OF assms(1,2), of e] Some by simp
qed

lemma markers_steer_or_speak_witness:
  "sp_expression (fold speech_put_char (marker_text ''sad'') (speech_segmenter 60)) = Expression_sad \<and>
   sp_pending (fold speech_put_char (marker_text ''sad'') (speech_segmenter 60)) = []"
proof -
  have "parse_expression ''sad'' = Some Expression_sad" by code_simp
  then show ?thesis
    using markers_steer_or_speak [of "speech_segmenter 60" "''sad''"]
    by (simp add: speech_segmenter_def is_marker_char_def kMaxMarkerBytes_def)
qed

end
