(* ===== verification/Scan_Params.thy ===== *)
theory Scan_Params
  imports Protocol Json_Scan
begin

text \<open>
  \<open>stackchan_app/scan_params\<close> and \<open>conversation_start.hpp\<close>: the arguments of a command, read from
  its payload object. Strings are unescaped into an arena; a read returns a view, that is an offset
  and a length, into it. The locale \<open>param_reader\<close> is the interface \<open>ports/param_reader.hpp\<close>.
\<close>

section \<open>What a reader of arguments promises\<close>

text \<open>
  A string read may use up room in the reader, so it returns the reader too. An empty reader has no
  arguments, and reading does not make arguments appear or disappear.
\<close>

locale param_reader =
  fixes read_string :: "string \<Rightarrow> 'p \<Rightarrow> string option \<times> 'p"
    and read_integer :: "string \<Rightarrow> 'p \<Rightarrow> integer_result"
    and read_bool :: "string \<Rightarrow> 'p \<Rightarrow> bool option"
    and is_empty :: "'p \<Rightarrow> bool"
  assumes empty_reads_nothing: "is_empty p \<Longrightarrow>
      fst (read_string k p) = None \<and> read_integer k p = Int_absent \<and> read_bool k p = None"
    and reading_keeps_empty: "is_empty (snd (read_string k p)) \<longleftrightarrow> is_empty p"
    and reading_keeps_others: "read_integer j (snd (read_string k p)) = read_integer j p"
      "read_bool j (snd (read_string k p)) = read_bool j p"
begin

definition read_all :: "string list \<Rightarrow> 'p \<Rightarrow> 'p" where
  "read_all ks p = fold (\<lambda>k p. snd (read_string k p)) ks p"

lemma found_not_empty: "fst (read_string k p) = Some s \<Longrightarrow> \<not> is_empty p"
  using empty_reads_nothing by fastforce

lemma read_all_keeps:
  "is_empty (read_all ks p) = is_empty p" "read_integer j (read_all ks p) = read_integer j p"
  "read_bool j (read_all ks p) = read_bool j p"
  by (induction ks arbitrary: p) (simp_all add: read_all_def reading_keeps_empty reading_keeps_others)

end

section \<open>The reader over a payload\<close>

definition kArenaBytes :: nat where
  "kArenaBytes = 512"

record scan_params =
  pr_payload :: string
  pr_arena :: string
  pr_arena_used :: nat

definition scan_params :: "string \<Rightarrow> scan_params" where
  "scan_params payload_object =
    \<lparr>pr_payload = payload_object, pr_arena = replicate kArenaBytes (CHR 0x00), pr_arena_used = 0\<rparr>"

text \<open>What a view, an offset and a length, shows.\<close>

definition pr_view :: "scan_params \<Rightarrow> nat \<times> nat \<Rightarrow> string" where
  "pr_view p v = substr (pr_arena p) (fst v) (snd v)"

text \<open>\<open>read_string\<close> as the code has it: the view, and the reader with its arena written.\<close>

definition read_string_view :: "string \<Rightarrow> scan_params \<Rightarrow> (nat \<times> nat) option \<times> scan_params" where
  "read_string_view k p =
    (case json_find_raw_string (pr_payload p) k of
       None \<Rightarrow> (None, p)
     | Some raw \<Rightarrow>
         (let slot = pr_arena_used p;
              room = length (pr_arena p) - pr_arena_used p;
              (bytes, written) = json_unescape raw True room;
              q = p\<lparr>pr_arena := take slot (pr_arena p) @ bytes @ drop (slot + length bytes) (pr_arena p)\<rparr>
          in case written of
               None \<Rightarrow> (None, q)
             | Some n \<Rightarrow> (Some (slot, n), q\<lparr>pr_arena_used := pr_arena_used p + n\<rparr>)))"

definition read_string :: "string \<Rightarrow> scan_params \<Rightarrow> string option \<times> scan_params" where
  "read_string k p =
    (let (v, q) = read_string_view k p in (map_option (pr_view q) v, q))"

definition read_integer :: "string \<Rightarrow> scan_params \<Rightarrow> integer_result" where
  "read_integer k p = json_find_integer (pr_payload p) k"

definition read_bool :: "string \<Rightarrow> scan_params \<Rightarrow> bool option" where
  "read_bool k p = json_find_bool (pr_payload p) k"

text \<open>The loop of \<open>empty\<close>; \<open>inside\<close> is whether the brace has been seen.\<close>

fun empty_loop :: "bool \<Rightarrow> string \<Rightarrow> bool" where
  "empty_loop inside [] = True"
| "empty_loop inside (c # cs) =
    (if \<not> inside then empty_loop (c = CHR 0x7B) cs
     else if c = CHR 0x22 then False
     else if c = CHR 0x7D then True
     else if c \<noteq> CHR '' '' \<and> c \<noteq> CHR 0x09 \<and> c \<noteq> CHR 0x0A \<and> c \<noteq> CHR 0x0D then False
     else empty_loop inside cs)"

definition params_empty :: "scan_params \<Rightarrow> bool" where
  "params_empty p \<longleftrightarrow> (if pr_payload p = [] then True else empty_loop False (pr_payload p))"

section \<open>An empty payload has no members\<close>

text \<open>In an empty payload, what follows the brace is white space up to a closing brace or the end.\<close>

lemma empty_loop_inside:
  "empty_loop True cs \<Longrightarrow> \<exists>w r. cs = w @ r \<and> (\<forall>c\<in>set w. is_ws c) \<and> (r = [] \<or> hd r = CHR 0x7D)"
proof (induction cs)
  case (Cons c cs)
  show ?case
  proof (cases "c = CHR 0x7D")
    case True
    then show ?thesis by (intro exI [of _ "[]"] exI [of _ "c # cs"]) simp
  next
    case False
    then have "is_ws c" "empty_loop True cs" using Cons.prems by (auto simp: is_ws_def split: if_splits)
    with Cons.IH obtain w r where "cs = w @ r" "\<forall>c\<in>set w. is_ws c" "r = [] \<or> hd r = CHR 0x7D"
      by blast
    with \<open>is_ws c\<close> show ?thesis by (intro exI [of _ "c # w"] exI [of _ r]) simp
  qed
qed simp

lemma empty_loop_outside:
  "\<forall>c\<in>set w. c \<noteq> CHR 0x7B \<Longrightarrow> empty_loop False (w @ CHR 0x7B # cs) = empty_loop True cs"
  by (induction w) simp_all

lemma skip_while_append:
  "\<forall>c\<in>set w. p c \<Longrightarrow> skip_while p (pre @ w @ r) (length pre) = skip_while p (pre @ w @ r) (length pre + length w)"
proof (induction w arbitrary: pre)
  case (Cons c w)
  then have "skip_while p (pre @ (c # w) @ r) (length pre) =
      skip_while p ((pre @ [c]) @ w @ r) (length (pre @ [c]))"
    by (subst skip_while.simps) simp
  also have "\<dots> = skip_while p ((pre @ [c]) @ w @ r) (length (pre @ [c]) + length w)"
    using Cons by (intro Cons.IH) simp
  finally show ?case by simp
qed simp

lemma skip_while_prefix: "\<forall>j. i \<le> j \<and> j < skip_while p s i \<longrightarrow> p (s ! j)"
proof (induction p s i rule: skip_while.induct)
  case (1 p s i)
  show ?case
  proof (cases "i < length s \<and> p (s ! i)")
    case True
    with 1 show ?thesis
      by (subst skip_while.simps) (metis Suc_leI le_neq_implies_less)
  qed (subst skip_while.simps, auto)
qed

lemma find_loop_nothing:
  assumes "\<forall>c\<in>set w. is_ws c" and "r = [] \<or> hd r = CHR 0x7D"
  shows "find_loop n (pre @ w @ r) wanted (length pre) = None"
proof -
  have d: "\<not> (is_ws (CHR 0x7D) \<or> CHR 0x7D = CHR '','')" by (simp add: is_ws_def)
  let ?p = "\<lambda>c. is_ws c \<or> c = CHR '',''"
  have "skip_while ?p (pre @ w @ r) (length pre) = skip_while ?p (pre @ w @ r) (length pre + length w)"
    using assms(1) by (intro skip_while_append) simp
  also have "\<dots> = length pre + length w"
    using assms(2) d by (subst skip_while.simps) (cases r, auto simp: nth_append)
  finally have k: "skip_while ?p (pre @ w @ r) (length pre) = length pre + length w" .
  show ?thesis
  proof (cases n)
    case (Suc m)
    have "length pre + length w < length (pre @ w @ r) \<Longrightarrow> (pre @ w @ r) ! (length pre + length w) = CHR 0x7D"
      using assms(2) by (cases r) (auto simp: nth_append)
    with k Suc show ?thesis by (auto simp: Let_def)
  qed simp
qed

lemma find_member_empty:
  assumes "params_empty p"
  shows "find_member (pr_payload p) k = None"
proof (rule ccontr)
  let ?s = "pr_payload p"
  assume found: "find_member ?s k \<noteq> None"
  let ?i = "eat_ws ?s 0"
  have i: "?i < length ?s" "?s ! ?i = CHR 0x7B"
    using found by (auto simp: find_member_def Let_def split: if_splits)
  define w where "w = take ?i ?s"
  have split: "?s = w @ CHR 0x7B # drop (Suc ?i) ?s"
    using i id_take_nth_drop [of ?i ?s] by (simp add: w_def)
  have "\<forall>c\<in>set w. is_ws c"
    using skip_while_prefix [of 0 is_ws ?s] i unfolding w_def eat_ws_def
    by (auto simp: in_set_conv_nth)
  then have "\<forall>c\<in>set w. c \<noteq> CHR 0x7B" by (auto simp: is_ws_def)
  then have "empty_loop True (drop (Suc ?i) ?s)"
    using assms split empty_loop_outside [of w "drop (Suc ?i) ?s"]
    by (auto simp: params_empty_def split: if_splits)
  then obtain v r where v: "drop (Suc ?i) ?s = v @ r" "\<forall>c\<in>set v. is_ws c" "r = [] \<or> hd r = CHR 0x7D"
    using empty_loop_inside by blast
  have "?s = (w @ [CHR 0x7B]) @ v @ r" using split v(1) by simp
  moreover have "length (w @ [CHR 0x7B]) = Suc ?i" using i by (simp add: w_def)
  ultimately have "find_loop (length ?s) ?s k (Suc ?i) = None"
    using find_loop_nothing [OF v(2,3), of "length ?s" "w @ [CHR 0x7B]" k] by simp
  with found i show False by (simp add: find_member_def Let_def)
qed

interpretation scan_reader: param_reader read_string read_integer read_bool params_empty
proof unfold_locales
  show "fst (read_string k p) = None \<and> read_integer k p = Int_absent \<and> read_bool k p = None"
    if "params_empty p" for k p
    using find_member_empty [OF that]
    by (simp add: read_string_def read_string_view_def read_integer_def read_bool_def
        json_find_raw_string_def json_find_integer_def json_find_bool_def)
  have pay: "pr_payload (snd (read_string k p)) = pr_payload p" for k p
    by (auto simp: read_string_def read_string_view_def Let_def split: option.split prod.split)
  show "params_empty (snd (read_string k p)) = params_empty p" for k p
    by (simp add: params_empty_def pay)
  show "read_integer j (snd (read_string k p)) = read_integer j p"
    "read_bool j (snd (read_string k p)) = read_bool j p" for j k p
    by (simp_all add: read_integer_def read_bool_def pay)
qed

section \<open>Views stay what they were\<close>

definition params_wf :: "scan_params \<Rightarrow> bool" where
  "params_wf p \<longleftrightarrow> length (pr_arena p) = kArenaBytes \<and> pr_arena_used p \<le> kArenaBytes"

lemma params_wf_initial [invariant_rules]: "params_wf (scan_params payload)"
  by (simp add: params_wf_def scan_params_def)

lemma json_unescape_bounds:
  "json_unescape raw True room = (bytes, written) \<Longrightarrow>
   length bytes \<le> room \<and> (\<forall>n. written = Some n \<longrightarrow> n = length bytes)"
  using unescape_loop_bounds [of "[]" room raw]
  by (auto simp: json_unescape_def split: prod.splits if_splits)

lemma read_string_view_arena:
  assumes "params_wf p" and "read_string_view k p = (v, q)"
  shows "params_wf q" and "pr_arena_used p \<le> pr_arena_used q"
    and "take (pr_arena_used p) (pr_arena q) = take (pr_arena_used p) (pr_arena p)"
    and "v = Some (i, n) \<Longrightarrow> i + n \<le> pr_arena_used q"
proof -
  have "params_wf q \<and> pr_arena_used p \<le> pr_arena_used q \<and>
      take (pr_arena_used p) (pr_arena q) = take (pr_arena_used p) (pr_arena p) \<and>
      (v = Some (i, n) \<longrightarrow> i + n \<le> pr_arena_used q)"
  proof (cases "json_find_raw_string (pr_payload p) k")
    case None
    with assms show ?thesis by (auto simp: read_string_view_def)
  next
    case (Some raw)
    obtain bytes written where u:
      "json_unescape raw True (kArenaBytes - pr_arena_used p) = (bytes, written)" by fastforce
    note b = json_unescape_bounds [OF u]
    show ?thesis
      using assms Some u b
      by (cases written) (auto simp: read_string_view_def params_wf_def Let_def)
  qed
  then show "params_wf q" and "pr_arena_used p \<le> pr_arena_used q"
    and "take (pr_arena_used p) (pr_arena q) = take (pr_arena_used p) (pr_arena p)"
    and "v = Some (i, n) \<Longrightarrow> i + n \<le> pr_arena_used q" by blast+
qed

definition read_views :: "string list \<Rightarrow> scan_params \<Rightarrow> scan_params" where
  "read_views ks p = fold (\<lambda>k p. snd (read_string_view k p)) ks p"

lemma read_views_arena:
  assumes "params_wf p"
  shows "params_wf (read_views ks p) \<and> pr_arena_used p \<le> pr_arena_used (read_views ks p) \<and>
    take (pr_arena_used p) (pr_arena (read_views ks p)) = take (pr_arena_used p) (pr_arena p)"
  using assms
proof (induction ks arbitrary: p)
  case (Cons k ks)
  obtain v q where q: "read_string_view k p = (v, q)" by fastforce
  note s = read_string_view_arena [OF Cons.prems q]
  have r: "read_views (k # ks) p = read_views ks q" using q by (simp add: read_views_def)
  note ih = Cons.IH [OF s(1), folded r]
  have "take (pr_arena_used p) (pr_arena (read_views (k # ks) p)) =
      take (pr_arena_used p) (take (pr_arena_used q) (pr_arena (read_views (k # ks) p)))"
    using s(2) by (simp add: min_absorb1)
  also have "\<dots> = take (pr_arena_used p) (pr_arena q)" using ih s(2) by (simp add: min_absorb1)
  finally show ?case using ih s(2,3) by (metis order_trans)
qed (simp add: read_views_def)

lemma view_kept:
  assumes "take m (pr_arena q) = take m (pr_arena p)" and "i + n \<le> m"
  shows "pr_view q (i, n) = pr_view p (i, n)"
proof -
  have "take n (drop i (pr_arena r)) = take n (drop i (take m (pr_arena r)))" for r
    using assms(2) by (simp add: drop_take min_absorb1)
  from this [of p] this [of q] assms(1) show ?thesis
    by (simp only: pr_view_def substr_def fst_conv snd_conv)
qed

section \<open>The arguments of \<open>conversation.start\<close>\<close>

definition kMaxConversationStartTextBytes :: nat where
  "kMaxConversationStartTextBytes = 480"

text \<open>The code, the text read (empty: listen), and the reader.\<close>

definition read_conversation_start_input :: "scan_params \<Rightarrow> ErrorCode \<times> string \<times> scan_params" where
  "read_conversation_start_input p =
    (if params_empty p then (ErrorCode_none, [], p)
     else case read_string ''text'' p of
            (None, p) \<Rightarrow> (ErrorCode_invalid_argument, [], p)
          | (Some text, p) \<Rightarrow>
              if text = [] \<or> length text > kMaxConversationStartTextBytes
              then (ErrorCode_invalid_argument, text, p)
              else (ErrorCode_none, text, p))"

definition input_listens :: "string \<Rightarrow> bool" where
  "input_listens text \<longleftrightarrow> text = []"

section \<open>Properties\<close>

text \<open>An argument once read keeps its text: a string view into the arena shows the same bytes
  after any number of further reads from the same parameters, whichever of them fit.\<close>
theorem read_arguments_stay:
  assumes "params_wf p" and "read_string_view k p = (Some v, q)"
  shows "pr_view (read_views ks q) v = pr_view q v"
proof -
  have q: "params_wf q" and v: "fst v + snd v \<le> pr_arena_used q"
    using read_string_view_arena [OF assms] by (auto intro: read_string_view_arena(4) [OF assms, of "fst v" "snd v"])
  show ?thesis using view_kept [OF _ v, of "read_views ks q"] read_views_arena [OF q, of ks] by simp
qed

definition two_members :: string where
  "two_members = ''{'' @ [quote] @ ''a'' @ [quote] @ '':'' @ [quote] @ ''hi'' @ [quote] @ '','' @ [quote] @ ''b'' @ [quote] @ '':''
     @ [quote] @ ''you'' @ [quote] @ ''}''"

lemma read_arguments_stay_witness:
  "pr_view (read_views [''b'', ''b''] (snd (read_string_view ''a'' (scan_params two_members)))) (0, 2) = ''hi''"
proof -
  have "json_find_raw_string two_members ''a'' = Some ''hi''" by code_simp
  then have r: "read_string_view ''a'' (scan_params two_members) =
      (Some (0, 2), snd (read_string_view ''a'' (scan_params two_members)))"
    "pr_view (snd (read_string_view ''a'' (scan_params two_members))) (0, 2) = ''hi''"
    by (simp_all add: read_string_view_def scan_params_def json_unescape_def kArenaBytes_def pr_view_def
      substr_def unescaped_char_def)
  show ?thesis
    using read_arguments_stay [OF params_wf_initial r(1), of "[''b'', ''b'']"] r(2) by simp
qed

end
