(* ===== verification/Command_Registry.thy ===== *)
theory Command_Registry
  imports Scan_Params Json_Writer
begin

text \<open>
  \<open>stackchan_app/command_registry\<close>: the table of operations. Handlers are values: functions from
  the state of the device they act on, the arguments and the payload writer. What the registry
  advertises and what it dispatches are the same entries.
\<close>

section \<open>Specifications and entries\<close>

record param_spec =
  ps_name :: string
  ps_choices :: "string list option"

definition param_accepts :: "param_spec \<Rightarrow> string \<Rightarrow> bool" where
  "param_accepts param v =
    (case ps_choices param of
       None \<Rightarrow> True
     | Some choices \<Rightarrow> if length choices = 0 then True else v \<in> set choices)"

record command_spec =
  cs_name :: string
  cs_is_async :: bool
  cs_params :: "param_spec list"
  cs_available :: bool
  cs_unavailable_reason :: string

definition command_spec :: "string \<Rightarrow> command_spec" where
  "command_spec name =
    \<lparr>cs_name = name, cs_is_async = False, cs_params = [], cs_available = True,
     cs_unavailable_reason = []\<rparr>"

type_synonym 'w command_handler =
  "'w \<Rightarrow> scan_params \<Rightarrow> json_writer \<Rightarrow> ErrorCode \<times> json_writer \<times> 'w"

record 'w entry =
  en_spec :: command_spec
  en_handler :: "'w command_handler"

type_synonym 'w command_registry = "'w entry list"

definition kMaxCommands :: nat where
  "kMaxCommands = 32"

fun registry_find :: "string \<Rightarrow> 'w command_registry \<Rightarrow> 'w entry option" where
  "registry_find name [] = None"
| "registry_find name (e # es) = (if cs_name (en_spec e) = name then Some e else registry_find name es)"

definition registry_contains :: "string \<Rightarrow> 'w command_registry \<Rightarrow> bool" where
  "registry_contains name registry \<longleftrightarrow> registry_find name registry \<noteq> None"

text \<open>\<open>None\<close> is a null handler.\<close>

definition registry_add ::
  "command_spec \<Rightarrow> 'w command_handler option \<Rightarrow> 'w command_registry \<Rightarrow> bool \<times> 'w command_registry"
where
  "registry_add spec handler registry =
    (case handler of
       None \<Rightarrow> (False, registry)
     | Some h \<Rightarrow>
         if cs_name spec = [] \<or> length registry = kMaxCommands then (False, registry)
         else if registry_find (cs_name spec) registry \<noteq> None then (False, registry)
         else (True, registry @ [\<lparr>en_spec = spec, en_handler = h\<rparr>]))"

definition dispatch ::
  "'w command_registry \<Rightarrow> string \<Rightarrow> scan_params \<Rightarrow> json_writer \<Rightarrow> 'w \<Rightarrow> ErrorCode \<times> json_writer \<times> 'w"
where
  "dispatch registry name params payload w =
    (case registry_find name registry of
       None \<Rightarrow> (ErrorCode_unknown_command, payload, w)
     | Some e \<Rightarrow>
         if \<not> cs_available (en_spec e) then (ErrorCode_unsupported, payload, w)
         else en_handler e w params payload)"

section \<open>The capabilities\<close>

definition write_choices :: "param_spec \<Rightarrow> json_writer \<Rightarrow> json_writer" where
  "write_choices param out =
    (case ps_choices param of
       Some choices \<Rightarrow>
         if length choices > 0 then end_array (fold value_string choices (begin_array out))
         else value_string ''string'' out
     | None \<Rightarrow> value_string ''string'' out)"

definition write_params :: "param_spec list \<Rightarrow> json_writer \<Rightarrow> json_writer" where
  "write_params params out =
    end_object (fold (\<lambda>param out. write_choices param (write_key (ps_name param) out)) params
      (begin_object (write_key ''params'' out)))"

definition write_spec :: "command_spec \<Rightarrow> json_writer \<Rightarrow> json_writer" where
  "write_spec spec out =
    (let out = begin_object out;
         out = member_string ''name'' (cs_name spec) out;
         out = (if cs_is_async spec then member_bool ''async'' True out else out);
         out = (if length (cs_params spec) > 0 then write_params (cs_params spec) out else out);
         out = (if \<not> cs_available spec
                then member_string ''reason'' (cs_unavailable_reason spec)
                       (member_bool ''available'' False out)
                else out)
     in end_object out)"

text \<open>\<open>write_capabilities\<close>, over the specifications of the entries in order.\<close>

definition write_capabilities :: "command_spec list \<Rightarrow> json_writer \<Rightarrow> json_writer" where
  "write_capabilities specs out =
    end_array (fold write_spec specs (begin_array (write_key ''capabilities'' out)))"

section \<open>The table has no two entries of one name\<close>

definition registry_wf :: "'w command_registry \<Rightarrow> bool" where
  "registry_wf registry \<longleftrightarrow> length registry \<le> kMaxCommands \<and>
    distinct (map (cs_name \<circ> en_spec) registry) \<and> (\<forall>e\<in>set registry. cs_name (en_spec e) \<noteq> [])"

lemma registry_find_None: "registry_find name es = None \<longleftrightarrow> name \<notin> (cs_name \<circ> en_spec) ` set es"
  by (induction es) auto

lemma registry_find_Some:
  "registry_find name es = Some e \<Longrightarrow> e \<in> set es \<and> cs_name (en_spec e) = name"
  by (induction es) (auto split: if_splits)

lemma registry_find_append:
  "registry_find name (es @ fs) =
    (case registry_find name es of Some e \<Rightarrow> Some e | None \<Rightarrow> registry_find name fs)"
  by (induction es) simp_all

lemma registry_find_member:
  "registry_wf es \<Longrightarrow> e \<in> set es \<Longrightarrow> registry_find (cs_name (en_spec e)) es = Some e"
proof (induction es)
  case (Cons f fs)
  then have "registry_wf fs" by (simp add: registry_wf_def)
  with Cons show ?case by (force simp: registry_wf_def)
qed simp

lemma registry_wf_empty [invariant_rules]: "registry_wf []"
  by (simp add: registry_wf_def)

lemma registry_wf_add [invariant_rules]:
  "registry_wf registry \<Longrightarrow> registry_wf (snd (registry_add spec handler registry))"
  by (auto simp: registry_add_def registry_wf_def registry_find_None split: option.split)

lemma registry_add_result:
  "fst (registry_add spec (Some h) registry) \<longleftrightarrow>
    cs_name spec \<noteq> [] \<and> length registry \<noteq> kMaxCommands \<and> registry_find (cs_name spec) registry = None"
  by (simp add: registry_add_def)

lemma registry_add_found:
  "fst (registry_add spec (Some h) registry) \<Longrightarrow>
   registry_find name (snd (registry_add spec (Some h) registry)) =
     (if name = cs_name spec then Some \<lparr>en_spec = spec, en_handler = h\<rparr> else registry_find name registry)"
  by (auto simp: registry_add_def registry_find_append split: option.split if_splits)

lemma registry_add_refused:
  "\<not> fst (registry_add spec handler registry) \<Longrightarrow> snd (registry_add spec handler registry) = registry"
  by (auto simp: registry_add_def split: option.splits if_splits)

section \<open>The capabilities are one tree\<close>

definition choices_tree :: "param_spec \<Rightarrow> jtree" where
  "choices_tree param =
    (case ps_choices param of
       Some choices \<Rightarrow> if choices \<noteq> [] then JArray (map JText choices) else JText ''string''
     | None \<Rightarrow> JText ''string'')"

definition spec_tree :: "command_spec \<Rightarrow> jtree" where
  "spec_tree spec =
    JObject ([(''name'', JText (cs_name spec))] @
      (if cs_is_async spec then [(''async'', JBool True)] else []) @
      (if cs_params spec \<noteq> []
       then [(''params'', JObject (map (\<lambda>param. (ps_name param, choices_tree param)) (cs_params spec)))]
       else []) @
      (if \<not> cs_available spec
       then [(''available'', JBool False), (''reason'', JText (cs_unavailable_reason spec))] else []))"

lemma write_items_append: "write_items (xs @ ys) w = write_items ys (write_items xs w)"
  by (induction xs arbitrary: w) simp_all

lemma write_members_append: "write_members (xs @ ys) w = write_members ys (write_members xs w)"
  by (induction xs arbitrary: w) auto

lemma fold_write_items: "fold (\<lambda>x. write_json (f x)) xs w = write_items (map f xs) w"
  by (induction xs arbitrary: w) simp_all

lemma fold_write_members:
  "fold (\<lambda>x w. write_json (g x) (write_key (f x) w)) xs w = write_members (map (\<lambda>x. (f x, g x)) xs) w"
  by (induction xs arbitrary: w) simp_all

lemma write_choices_tree: "write_choices param w = write_json (choices_tree param) w"
proof -
  have "value_string = (\<lambda>x. write_json (JText x))" by (simp add: fun_eq_iff)
  then have "fold value_string xs v = write_items (map JText xs) v" for xs v
    using fold_write_items [of JText] by simp
  then show ?thesis by (simp add: write_choices_def choices_tree_def split: option.split)
qed

lemma write_params_tree:
  "write_params params w =
    write_members [(''params'', JObject (map (\<lambda>param. (ps_name param, choices_tree param)) params))] w"
  using fold_write_members [of choices_tree ps_name params]
  by (simp add: write_params_def write_choices_tree)

lemma write_spec_tree: "write_spec spec w = write_json (spec_tree spec) w"
  by (simp add: write_spec_def spec_tree_def Let_def write_members_append write_params_tree
      member_string_def member_bool_def)

lemma write_capabilities_tree:
  "write_capabilities specs w = write_members [(''capabilities'', JArray (map spec_tree specs))] w"
proof -
  have "write_spec = (\<lambda>x. write_json (spec_tree x))" by (simp add: fun_eq_iff write_spec_tree)
  then have "fold write_spec specs v = write_items (map spec_tree specs) v" for v
    using fold_write_items [of spec_tree specs] by simp
  then show ?thesis by (simp add: write_capabilities_def)
qed

definition registry_build :: "(command_spec \<times> 'w command_handler option) list \<Rightarrow> 'w command_registry" where
  "registry_build adds = fold (\<lambda>(spec, handler). snd \<circ> registry_add spec handler) adds []"

lemma registry_wf_build: "registry_wf registry \<Longrightarrow>
    registry_wf (fold (\<lambda>(spec, handler). snd \<circ> registry_add spec handler) adds registry)"
  by (induction adds arbitrary: registry) (simp_all add: split_beta registry_wf_add)

section \<open>Properties\<close>


definition say_ok :: "nat command_handler" where
  "say_ok w params payload = (ErrorCode_none, end_object (begin_object payload), w)"


end
