(* ===== verification/Envelope.thy ===== *)
theory Envelope
  imports Command_Registry Device_State Ids
begin

text \<open>
  \<open>stackchan_app/envelope\<close>, \<open>health_payload\<close> and \<open>device_describe\<close>: the documents the device
  sends. Each is written piece by piece in the code's order, and shown to be one tree, so that
  \<open>write_json_exact\<close> says when it is complete and what its text is.
\<close>

section \<open>The envelope\<close>

definition kEmptyPayload :: string where
  "kEmptyPayload = ''{}''"

definition write_header :: "MessageKind \<Rightarrow> json_writer \<Rightarrow> json_writer" where
  "write_header kind out =
    member_string ''kind'' (kind_to_string kind)
      (member_u64 ''v'' (ucast kProtocolVersion) (begin_object out))"

definition write_result :: "string \<Rightarrow> string \<Rightarrow> json_writer \<Rightarrow> json_writer" where
  "write_result ident payload_json out =
    (let out = write_header MessageKind_result out;
         out = member_string ''id'' ident out;
         out = member_bool ''ok'' True out;
         out = write_key ''payload'' out;
         out = raw_json (if payload_json = [] then kEmptyPayload else payload_json) out
     in end_object out)"

definition write_error :: "string \<Rightarrow> ErrorCode \<Rightarrow> string \<Rightarrow> json_writer \<Rightarrow> json_writer" where
  "write_error ident code message out =
    (let out = write_header MessageKind_result out;
         out = member_string ''id'' ident out;
         out = member_bool ''ok'' False out;
         out = begin_object (write_key ''error'' out);
         out = member_string ''code'' (error_to_string code) out;
         out = (if message \<noteq> [] then member_string ''message'' message out else out);
         out = member_bool ''retryable'' (is_retryable code) out
     in end_object (end_object out))"

definition write_event :: "string \<Rightarrow> string \<Rightarrow> json_writer \<Rightarrow> json_writer" where
  "write_event name payload_json out =
    (let out = write_header MessageKind_event out;
         out = member_string ''name'' name out;
         out = write_key ''payload'' out;
         out = raw_json (if payload_json = [] then kEmptyPayload else payload_json) out
     in end_object out)"

definition payload_tree :: "string \<Rightarrow> jtree" where
  "payload_tree payload_json = JRaw (if payload_json = [] then kEmptyPayload else payload_json)"

definition header_members :: "MessageKind \<Rightarrow> (string \<times> jtree) list" where
  "header_members kind = [(''v'', JUnsigned (ucast kProtocolVersion)), (''kind'', JText (kind_to_string kind))]"

definition result_tree :: "string \<Rightarrow> string \<Rightarrow> jtree" where
  "result_tree ident payload_json =
    JObject (header_members MessageKind_result @
      [(''id'', JText ident), (''ok'', JBool True), (''payload'', payload_tree payload_json)])"

definition error_tree :: "string \<Rightarrow> ErrorCode \<Rightarrow> string \<Rightarrow> jtree" where
  "error_tree ident code message =
    JObject (header_members MessageKind_result @
      [(''id'', JText ident), (''ok'', JBool False),
       (''error'', JObject ([(''code'', JText (error_to_string code))] @
          (if message \<noteq> [] then [(''message'', JText message)] else []) @
          [(''retryable'', JBool (is_retryable code))]))])"

definition event_tree :: "string \<Rightarrow> string \<Rightarrow> jtree" where
  "event_tree name payload_json =
    JObject (header_members MessageKind_event @
      [(''name'', JText name), (''payload'', payload_tree payload_json)])"

lemmas member_writes = member_string_def member_bool_def member_u64_def member_i64_def

lemma write_header_members:
  "write_header kind w = write_members (header_members kind) (begin_object w)"
  by (simp add: write_header_def header_members_def member_writes)

lemma write_result_tree: "write_result ident payload w = write_json (result_tree ident payload) w"
  by (simp add: write_result_def result_tree_def payload_tree_def Let_def write_header_members
      write_members_append member_writes)

lemma write_error_tree: "write_error ident code message w = write_json (error_tree ident code message) w"
  by (simp add: write_error_def error_tree_def Let_def write_header_members
      write_members_append member_writes)

lemma write_event_tree: "write_event name payload w = write_json (event_tree name payload) w"
  by (simp add: write_event_def event_tree_def payload_tree_def Let_def write_header_members
      write_members_append member_writes)

section \<open>The payloads of \<open>device.health\<close> and \<open>device.describe\<close>\<close>

definition health_to_string :: "HealthLevel \<Rightarrow> string" where
  "health_to_string level =
    (case level of
       HealthLevel_healthy \<Rightarrow> ''healthy''
     | HealthLevel_degraded \<Rightarrow> ''degraded''
     | HealthLevel_critical \<Rightarrow> ''critical'')"

definition write_health_payload ::
  "u64 \<Rightarrow> memory_snapshot \<Rightarrow> u64 \<Rightarrow> HealthLevel \<Rightarrow> json_writer \<Rightarrow> json_writer" where
  "write_health_payload uptime_ms snapshot psram_free level out =
    (let out = begin_object out;
         out = member_u64 ''uptime_ms'' uptime_ms out;
         out = member_string ''level'' (health_to_string level) out;
         out = begin_object (write_key ''memory'' out);
         out = member_u64 ''internal_free'' (word_of_nat (internal_free snapshot)) out;
         out = member_u64 ''largest_internal_block'' (word_of_nat (largest_internal_block snapshot)) out;
         out = member_u64 ''psram_free'' psram_free out
     in end_object (end_object out))"

record device_identity =
  di_device_id :: string
  di_boot_id :: boot_id
  di_firmware_version :: string
  di_firmware_idf :: string
  di_firmware_build :: string

definition write_device_description ::
  "device_identity \<Rightarrow> command_spec list \<Rightarrow> u64 \<Rightarrow> json_writer \<Rightarrow> json_writer" where
  "write_device_description identity specs uptime_ms out =
    (let out = begin_object out;
         out = member_string ''device_id'' (di_device_id identity) out;
         out = member_string ''boot_id'' (boot_text (di_boot_id identity)) out;
         out = member_u64 ''uptime_ms'' uptime_ms out;
         out = begin_object (write_key ''firmware'' out);
         out = member_string ''version'' (di_firmware_version identity) out;
         out = member_string ''idf'' (di_firmware_idf identity) out;
         out = member_string ''build'' (di_firmware_build identity) out;
         out = end_object out;
         out = member_u64 ''protocol'' (ucast kProtocolVersion) out;
         out = write_capabilities specs out
     in end_object out)"

definition health_tree :: "u64 \<Rightarrow> memory_snapshot \<Rightarrow> u64 \<Rightarrow> HealthLevel \<Rightarrow> jtree" where
  "health_tree uptime_ms snapshot psram_free level =
    JObject [(''uptime_ms'', JUnsigned uptime_ms), (''level'', JText (health_to_string level)),
      (''memory'', JObject
        [(''internal_free'', JUnsigned (word_of_nat (internal_free snapshot))),
         (''largest_internal_block'', JUnsigned (word_of_nat (largest_internal_block snapshot))),
         (''psram_free'', JUnsigned psram_free)])]"

definition description_tree :: "device_identity \<Rightarrow> command_spec list \<Rightarrow> u64 \<Rightarrow> jtree" where
  "description_tree identity specs uptime_ms =
    JObject [(''device_id'', JText (di_device_id identity)),
      (''boot_id'', JText (boot_text (di_boot_id identity))),
      (''uptime_ms'', JUnsigned uptime_ms),
      (''firmware'', JObject
        [(''version'', JText (di_firmware_version identity)),
         (''idf'', JText (di_firmware_idf identity)),
         (''build'', JText (di_firmware_build identity))]),
      (''protocol'', JUnsigned (ucast kProtocolVersion)),
      (''capabilities'', JArray (map spec_tree specs))]"

lemma write_health_tree:
  "write_health_payload uptime snapshot psram level w = write_json (health_tree uptime snapshot psram level) w"
  by (simp add: write_health_payload_def health_tree_def Let_def member_writes)

lemma write_description_tree:
  "write_device_description identity specs uptime w = write_json (description_tree identity specs uptime) w"
  by (simp add: write_device_description_def description_tree_def Let_def write_capabilities_tree
      member_writes)

section \<open>Depth\<close>

lemma heights [simp]:
  "height (result_tree ident payload) = 1" "height (error_tree ident code message) = 2"
  "height (event_tree name payload) = 1" "height (health_tree uptime snapshot psram level) = 2"
  by (simp_all add: result_tree_def error_tree_def event_tree_def health_tree_def header_members_def
      payload_tree_def)

lemma items_height_map: "items_height (map f xs) \<le> n \<longleftrightarrow> (\<forall>x\<in>set xs. height (f x) \<le> n)"
  by (induction xs) auto

lemma members_height_map: "members_height (map (\<lambda>x. (f x, g x)) xs) \<le> n \<longleftrightarrow> (\<forall>x\<in>set xs. height (g x) \<le> n)"
  by (induction xs) auto

lemma members_height_append: "members_height (xs @ ys) = max (members_height xs) (members_height ys)"
  by (induction xs) auto

lemma choices_height: "height (choices_tree param) \<le> 1"
  by (auto simp: choices_tree_def items_height_map simp flip: le_zero_eq split: option.split)

lemma spec_height: "height (spec_tree spec) \<le> 3"
  using members_height_map [of ps_name choices_tree "cs_params spec" 1] choices_height
  by (auto simp: spec_tree_def members_height_append)

lemma description_height: "height (description_tree identity specs uptime) \<le> 5"
  using items_height_map [of spec_tree specs 3] spec_height by (simp add: description_tree_def)

end
