(* ===== verification/Request_Router.thy ===== *)
theory Request_Router
  imports Envelope Access_Token Json_Grammar
begin

text \<open>
  \<open>stackchan_app/request_router\<close>: one request, from the token and the body to the response. The
  router's buffers are given by their sizes; \<open>route\<close> threads the state of the device, which only a
  handler can change. \<open>response_tree\<close> is the specification: which document each request gets.
\<close>

definition kMaxBodyBytes :: nat where
  "kMaxBodyBytes = 2048"

definition kPayloadBytes :: nat where
  "kPayloadBytes = 4096"

definition kEnvelopeBytes :: nat where
  "kEnvelopeBytes = kPayloadBytes + 256"

definition kMaxIdBytes :: nat where
  "kMaxIdBytes = 63"

text \<open>\<open>name_text_.size() - 1\<close>.\<close>

definition kMaxNameBytes :: nat where
  "kMaxNameBytes = 63"

definition q :: char where
  "q = CHR 0x22"

definition kLastResort :: string where
  "kLastResort =
    ''{'' @ [q] @ ''v'' @ [q] @ '':1,'' @ [q] @ ''kind'' @ [q] @ '':'' @ [q] @ ''result'' @ [q] @ '',''
    @ [q] @ ''ok'' @ [q] @ '':false,'' @ [q] @ ''error'' @ [q] @ '':{'' @ [q] @ ''code'' @ [q] @ '':''
    @ [q] @ ''internal'' @ [q] @ '','' @ [q] @ ''retryable'' @ [q] @ '':false}}''"

fun starts_with_object :: "string \<Rightarrow> bool" where
  "starts_with_object [] = False"
| "starts_with_object (c # cs) =
    (if c = CHR '' '' \<or> c = CHR 0x09 \<or> c = CHR 0x0A \<or> c = CHR 0x0D then starts_with_object cs
     else c = CHR 0x7B)"

definition router_error :: "string \<Rightarrow> ErrorCode \<Rightarrow> string \<Rightarrow> string" where
  "router_error ident code message =
    (let writer = write_error ident code message (json_writer kEnvelopeBytes)
     in if \<not> jw_valid writer then kLastResort else jw_text writer)"

text \<open>The id: unreadable or too long counts as absent.\<close>

definition read_request_id :: "string \<Rightarrow> string" where
  "read_request_id body =
    (case json_find_raw_string body ''id'' of
       None \<Rightarrow> []
     | Some raw_id \<Rightarrow>
         (let (bytes, written) = json_unescape raw_id True kMaxIdBytes
          in case written of None \<Rightarrow> [] | Some n \<Rightarrow> take n bytes))"

definition read_request_name :: "string \<Rightarrow> string option" where
  "read_request_name body =
    (case json_find_raw_string body ''name'' of
       None \<Rightarrow> None
     | Some raw_name \<Rightarrow>
         (let (bytes, written) = json_unescape raw_name True kMaxNameBytes
          in case written of
               None \<Rightarrow> None
             | Some n \<Rightarrow> if n = 0 then None else Some (take n bytes)))"

text \<open>The dispatch and the envelope around its payload.\<close>

definition route_command ::
  "'w command_registry \<Rightarrow> string \<Rightarrow> string \<Rightarrow> string \<Rightarrow> 'w \<Rightarrow> string \<times> 'w" where
  "route_command registry ident name payload_json w =
    (let params = scan_params payload_json;
         (code, payload, w') = dispatch registry name params (json_writer kPayloadBytes) w
     in if code \<noteq> ErrorCode_none then (router_error ident code [], w')
        else if \<not> jw_valid payload then (router_error ident ErrorCode_internal ''response too large'', w')
        else
          (let envelope = write_result ident (jw_text payload) (json_writer kEnvelopeBytes)
           in if \<not> jw_valid envelope
              then (router_error ident ErrorCode_internal ''envelope too large'', w')
              else (jw_text envelope, w')))"

definition route ::
  "'w command_registry \<Rightarrow> access_token \<Rightarrow> string \<Rightarrow> string \<Rightarrow> 'w \<Rightarrow> string \<times> 'w" where
  "route registry token presented_token body w =
    (if \<not> token_matches token presented_token
     then (router_error [] ErrorCode_bad_request ''X-StackChan-Token header is missing or wrong'', w)
     else if body = [] \<or> length body > kMaxBodyBytes
     then (router_error [] ErrorCode_bad_request ''body is empty or too large'', w)
     else if \<not> starts_with_object body
     then (router_error [] ErrorCode_bad_request ''not json'', w)
     else
       (let ident = read_request_id body in
        case read_request_name body of
          None \<Rightarrow> (router_error ident ErrorCode_bad_request ''name is missing'', w)
        | Some name \<Rightarrow>
            (case json_find_object_checked body ''payload'' of
               JsonMemberResult_invalid \<Rightarrow>
                 (router_error ident ErrorCode_bad_request ''request body is invalid'', w)
             | JsonMemberResult_missing \<Rightarrow> route_command registry ident name [] w
             | JsonMemberResult_found payload_json \<Rightarrow>
                 route_command registry ident name payload_json w)))"

section \<open>Errors are always built whole\<close>

lemma read_request_id_length: "length (read_request_id body) \<le> kMaxIdBytes"
proof (cases "json_find_raw_string body ''id''")
  case (Some raw)
  obtain bytes written where u: "json_unescape raw True kMaxIdBytes = (bytes, written)" by fastforce
  then show ?thesis using json_unescape_bounds [OF u] Some
    by (auto simp: read_request_id_def split: option.split)
qed (simp add: read_request_id_def)

lemma error_name_length: "length (error_to_string code) \<le> 16"
  by (cases code) (simp_all add: protocol_tables)

text \<open>Every text the router writes itself has no character that needs an escape.\<close>

definition plain :: "string \<Rightarrow> bool" where
  "plain s \<longleftrightarrow> escape s = s"

lemma error_name_plain: "plain (error_to_string code)"
  by (cases code) (simp_all add: plain_def protocol_tables escape_def escape_char_def char_byte_def)

lemma escape_names [simp]:
  "escape ''v'' = ''v''" "escape ''kind'' = ''kind''" "escape ''result'' = ''result''"
  "escape ''event'' = ''event''" "escape ''id'' = ''id''" "escape ''ok'' = ''ok''"
  "escape ''payload'' = ''payload''" "escape ''error'' = ''error''" "escape ''code'' = ''code''"
  "escape ''message'' = ''message''" "escape ''retryable'' = ''retryable''"
  by (simp_all add: escape_def escape_char_def char_byte_def)

lemma escape_error_name [simp]: "escape (error_to_string code) = error_to_string code"
  using error_name_plain by (simp add: plain_def)

lemma decimal_one [simp]: "decimal (Suc 0) = ''1''"
  by (simp add: decimal_def digits_rev.simps digit_char_def char_of_def bit_0)

lemma render_error_length:
  "length (render (error_tree ident code message)) \<le>
     150 + 6 * length ident + length (error_to_string code) + 6 * length message"
  using escape_length [of ident] escape_length [of message]
  by (simp add: error_tree_def header_members_def quoted_def kProtocolVersion_def
      kind_to_string_def kKindNames_def)

text \<open>So the last resort is never needed: every error is its whole document.\<close>

lemma router_error_text:
  assumes "length ident \<le> kMaxIdBytes" and "length message \<le> 50"
  shows "router_error ident code message = render (error_tree ident code message)"
proof -
  have "length (render (error_tree ident code message)) \<le> kEnvelopeBytes"
    using render_error_length [of ident code message] error_name_length [of code] assms
    by (simp add: kMaxIdBytes_def kEnvelopeBytes_def kPayloadBytes_def)
  then have "jw_valid (write_json (error_tree ident code message) (json_writer kEnvelopeBytes))"
    by (simp add: write_json_exact(1) kMaxDepth_def)
  then show ?thesis
    using write_json_exact(2) by (simp add: router_error_def write_error_tree Let_def)
qed

section \<open>Which document each request gets\<close>

text \<open>A result around a valid payload, or the error that says why there is none.\<close>

definition handled_tree :: "string \<Rightarrow> ErrorCode \<Rightarrow> json_writer \<Rightarrow> jtree" where
  "handled_tree ident code payload =
    (if code \<noteq> ErrorCode_none then error_tree ident code []
     else if \<not> jw_valid payload then error_tree ident ErrorCode_internal ''response too large''
     else if length (render (result_tree ident (jw_text payload))) > kEnvelopeBytes
     then error_tree ident ErrorCode_internal ''envelope too large''
     else result_tree ident (jw_text payload))"

definition refusal :: "access_token \<Rightarrow> string \<Rightarrow> string \<Rightarrow> (string \<times> string) option" where
  "refusal token presented body =
    (if \<not> (token_set token \<and> presented = token_text token)
     then Some ([], ''X-StackChan-Token header is missing or wrong'')
     else if body = [] \<or> length body > kMaxBodyBytes then Some ([], ''body is empty or too large'')
     else if \<not> starts_with_object body then Some ([], ''not json'')
     else if read_request_name body = None then Some (read_request_id body, ''name is missing'')
     else if json_find_object_checked body ''payload'' = JsonMemberResult_invalid
     then Some (read_request_id body, ''request body is invalid'')
     else None)"

definition request_payload :: "string \<Rightarrow> string" where
  "request_payload body =
    (case json_find_object_checked body ''payload'' of
       JsonMemberResult_found payload \<Rightarrow> payload
     | _ \<Rightarrow> [])"

lemma refusal_bounds:
  "refusal token presented body = Some (ident, message) \<Longrightarrow>
    length ident \<le> kMaxIdBytes \<and> length message \<le> 50"
  using read_request_id_length [of body] by (auto simp: refusal_def split: if_splits)

lemma route_refused:
  assumes "token_wf token" and "refusal token presented body = Some (ident, message)"
  shows "route registry token presented body w =
    (render (error_tree ident ErrorCode_bad_request message), w)"
proof -
  have "route registry token presented body w = (router_error ident ErrorCode_bad_request message, w)"
    using assms(2)
    by (auto simp: route_def refusal_def token_matches_equal [OF assms(1)] Let_def
        split: if_splits option.splits JsonMemberResult.splits)
  then show ?thesis using router_error_text refusal_bounds [OF assms(2)] by simp
qed

lemma route_command_text:
  assumes "length ident \<le> kMaxIdBytes"
    and "dispatch registry name (scan_params payload_json) (json_writer kPayloadBytes) w =
      (code, payload, w')"
  shows "route_command registry ident name payload_json w =
    (render (handled_tree ident code payload), w')"
proof -
  have "jw_valid (write_json (result_tree ident (jw_text payload)) (json_writer kEnvelopeBytes)) \<longleftrightarrow>
      length (render (result_tree ident (jw_text payload))) \<le> kEnvelopeBytes"
    by (simp add: write_json_exact(1) kMaxDepth_def)
  then show ?thesis
    using assms write_json_exact(2) [of "result_tree ident (jw_text payload)" kEnvelopeBytes]
    by (auto simp: route_command_def handled_tree_def write_result_tree router_error_text not_le Let_def)
qed

lemma route_accepted:
  assumes "token_wf token" and "refusal token presented body = None"
    and "dispatch registry (the (read_request_name body)) (scan_params (request_payload body))
      (json_writer kPayloadBytes) w = (code, payload, w')"
  shows "route registry token presented body w =
    (render (handled_tree (read_request_id body) code payload), w')"
proof -
  have "route registry token presented body w =
      route_command registry (read_request_id body) (the (read_request_name body))
        (request_payload body) w"
    using assms(2)
    by (auto simp: route_def refusal_def token_matches_equal [OF assms(1)] Let_def request_payload_def
        split: if_splits option.splits JsonMemberResult.splits)
  then show ?thesis
    using route_command_text [OF read_request_id_length assms(3)] by simp
qed

section \<open>Properties\<close>

text \<open>C1: a request answers with the error of the first check it fails and reaches no handler; one
  that passes them all is dispatched once, with its own name and payload, and its answer is the
  envelope of what the handler returned, or an error when that does not fit.\<close>
theorem route_specification:
  assumes "token_wf token"
  shows "route registry token presented_token body w =
    (case refusal token presented_token body of
       Some (ident, message) \<Rightarrow> (render (error_tree ident ErrorCode_bad_request message), w)
     | None \<Rightarrow>
         (case dispatch registry (the (read_request_name body)) (scan_params (request_payload body))
             (json_writer kPayloadBytes) w of
            (code, payload, w') \<Rightarrow> (render (handled_tree (read_request_id body) code payload), w')))"
  using route_refused [OF assms, of presented_token body _ _ registry w]
    route_accepted [OF assms, of presented_token body registry w]
  by (cases "dispatch registry (the (read_request_name body)) (scan_params (request_payload body))
    (json_writer kPayloadBytes) w") (auto split: option.split)

definition open_token :: access_token where
  "open_token = token_from_text (replicate kTokenLength (CHR ''A''))"

lemma open_token_wf: "token_wf open_token"
  by (simp add: open_token_def token_from_text_wf)

lemma route_specification_witness:
  "route [] open_token ''wrong'' ''{}'' (5 :: nat) =
    (render (error_tree [] ErrorCode_bad_request ''X-StackChan-Token header is missing or wrong''), 5)"
proof -
  have "refusal open_token ''wrong'' ''{}'' = Some ([], ''X-StackChan-Token header is missing or wrong'')"
    by code_simp
  with route_specification [OF open_token_wf, of "[]" "''wrong''" "''{}''" "5 :: nat"]
  show ?thesis by (simp del: append_Cons)
qed

text \<open>C2: only an authorised request changes the device: if routing leaves a different world, the
  token was set and equal to the presented one, the body fits, it is one JSON object with distinct
  keys nested at most as deep as the reader checks, and it names a registered command.\<close>
theorem route_changes_only_when_authorised:
  assumes "token_wf token" and "snd (route registry token presented_token body w) \<noteq> w"
  shows "token_set token \<and> presented_token = token_text token \<and> length body \<le> kMaxBodyBytes \<and>
    (\<exists>ms. json_document body ms) \<and>
    (\<exists>name. read_request_name body = Some name \<and> registry_contains name registry)"
proof -
  have none: "refusal token presented_token body = None"
    using route_refused [OF assms(1), of presented_token body _ _ registry w] assms(2)
    by (cases "refusal token presented_token body") auto
  then have facts: "token_set token" "presented_token = token_text token" "length body \<le> kMaxBodyBytes"
    "read_request_name body \<noteq> None"
    "json_find_object_checked body ''payload'' \<noteq> JsonMemberResult_invalid"
    by (auto simp: refusal_def split: if_splits)
  obtain code payload w' where d: "dispatch registry (the (read_request_name body))
      (scan_params (request_payload body)) (json_writer kPayloadBytes) w = (code, payload, w')"
    by (metis prod_cases3)
  have "w' \<noteq> w" using route_accepted [OF assms(1) none d] assms(2) by simp
  then have "registry_contains (the (read_request_name body)) registry"
    using d by (auto simp: dispatch_def registry_contains_def split: option.splits)
  with facts json_find_object_checked_sound [OF refl facts(5)] show ?thesis by auto
qed

definition counting_registry :: "nat command_registry" where
  "counting_registry =
    [\<lparr>en_spec = command_spec ''inc'', en_handler = (\<lambda>w params payload.
       (ErrorCode_none, end_object (begin_object payload), w + 1))\<rparr>]"

definition inc_body :: string where
  "inc_body = ''{'' @ [q] @ ''name'' @ [q] @ '':'' @ [q] @ ''inc'' @ [q] @ ''}''"

lemma route_changes_only_when_authorised_witness:
  "\<exists>ms. json_document inc_body ms"
proof -
  have "refusal open_token (token_text open_token) inc_body = None" by code_simp
  moreover have name: "read_request_name inc_body = Some ''inc''" by code_simp
  ultimately have "snd (route counting_registry open_token (token_text open_token) inc_body (5 :: nat)) \<noteq> 5"
    by (subst route_accepted [OF open_token_wf])
      (auto simp: dispatch_def counting_registry_def command_spec_def)
  from route_changes_only_when_authorised [OF open_token_wf this] show ?thesis by blast
qed

end
