(* ===== verification/Conversation.thy ===== *)
theory Conversation
  imports Sse Speech Base64 Json_Scan
begin

text \<open>
  \<open>conversation.cpp\<close>: one turn of conversation, from the bytes of the gateway's event stream to
  instructions for playback and display. The calls on the \<open>Listener\<close> are recorded in order.

  The members that interpreting an event reads and writes are the record \<open>turn_core\<close>; a turn is
  that and the stream reader. Overflow of \<open>json_find_integer\<close> is undefined behaviour: it sets
  \<open>tc_undefined\<close>, after which the model says nothing more (the turn stays as it is).
\<close>

datatype Outcome = Outcome_running | Outcome_completed | Outcome_cancelled | Outcome_failed

datatype listener_call =
    On_recognized string bool
  | On_sentence Expression string
  | On_audio "sample list"
  | On_finished Outcome ErrorCode

record turn_core =
  tc_segmenter :: speech
  tc_outcome :: Outcome
  tc_code :: ErrorCode
  tc_reported_error :: ErrorCode
  tc_expected_seq :: int
  tc_dropped :: nat
  tc_calls :: "listener_call list"
  tc_undefined :: bool

record turn =
  tn_core :: turn_core
  tn_sse :: sse_reader

definition kPcmSamples :: nat where
  "kPcmSamples = 2048"

definition kTextBytes :: nat where
  "kTextBytes = 512"

definition conversation_turn :: turn where
  "conversation_turn =
    \<lparr>tn_core = \<lparr>tc_segmenter = speech_segmenter 60, tc_outcome = Outcome_running,
       tc_code = ErrorCode_none, tc_reported_error = ErrorCode_none, tc_expected_seq = 0,
       tc_dropped = 0, tc_calls = [], tc_undefined = False\<rparr>,
     tn_sse = sse_reader\<rparr>"

definition outcome_of :: "string \<Rightarrow> Outcome" where
  "outcome_of reason =
    (if reason = ''completed'' then Outcome_completed
     else if reason = ''cancelled'' then Outcome_cancelled
     else Outcome_failed)"

definition call :: "listener_call \<Rightarrow> turn_core \<Rightarrow> turn_core" where
  "call c t = t\<lparr>tc_calls := tc_calls t @ [c]\<rparr>"

definition drop_event :: "turn_core \<Rightarrow> turn_core" where
  "drop_event t = t\<lparr>tc_dropped := tc_dropped t + 1\<rparr>"

definition undefined_behaviour :: "turn_core \<Rightarrow> turn_core" where
  "undefined_behaviour t = t\<lparr>tc_undefined := True\<rparr>"

definition finish_turn :: "Outcome \<Rightarrow> ErrorCode \<Rightarrow> turn_core \<Rightarrow> turn_core" where
  "finish_turn outcome code t =
    (if tc_outcome t \<noteq> Outcome_running then t
     else call (On_finished outcome code) (t\<lparr>tc_outcome := outcome, tc_code := code\<rparr>))"

text \<open>
  \<open>drain_segments\<close>: the loop runs on fuel; a sentence takes at least three bytes of the queue.
\<close>

fun drain_segments_loop :: "nat \<Rightarrow> turn_core \<Rightarrow> turn_core" where
  "drain_segments_loop 0 t = t"
| "drain_segments_loop (Suc n) t =
    (case next_segment (tc_segmenter t) of
       (None, s) \<Rightarrow> t\<lparr>tc_segmenter := s\<rparr>
     | (Some (e, txt), s) \<Rightarrow> drain_segments_loop n (call (On_sentence e txt) (t\<lparr>tc_segmenter := s\<rparr>)))"

definition drain_segments :: "turn_core \<Rightarrow> turn_core" where
  "drain_segments t = drain_segments_loop (length (sp_fifo (tc_segmenter t)) + 1) t"

text \<open>The bytes of the buffer read as little-endian samples.\<close>

fun samples_of :: "u8 list \<Rightarrow> sample list" where
  "samples_of (low # high # rest) = (ucast low OR push_bit 8 (ucast high)) # samples_of rest"
| "samples_of bytes = []"

text \<open>The part of \<open>handle_audio\<close> after the optional text.\<close>

definition handle_pcm :: "string \<Rightarrow> turn_core \<Rightarrow> turn_core" where
  "handle_pcm payload t =
    (case json_find_raw_string payload ''pcm'' of
       None \<Rightarrow> drop_event t
     | Some pcm_b64 \<Rightarrow>
         (case base64_decode pcm_b64 True (kPcmSamples * 2) of
            (_, None) \<Rightarrow> finish_turn Outcome_failed ErrorCode_internal t
          | (bytes, Some n) \<Rightarrow>
              if n mod 2 \<noteq> 0 then finish_turn Outcome_failed ErrorCode_internal t
              else
                (let t = (if json_find_bool payload ''last'' = Some True
                          then drain_segments (t\<lparr>tc_segmenter := speech_flush (tc_segmenter t)\<rparr>)
                          else t)
                 in if n > 0 then call (On_audio (samples_of (take n bytes))) t else t)))"

definition handle_audio :: "string \<Rightarrow> turn_core \<Rightarrow> turn_core" where
  "handle_audio payload t =
    (case json_find_integer payload ''rate'' of
       Int_undefined \<Rightarrow> undefined_behaviour t
     | Int_absent \<Rightarrow> drop_event t
     | Int_found rate \<Rightarrow>
         if rate \<noteq> 16000 then drop_event t
         else
           (case json_find_integer payload ''seq'' of
              Int_undefined \<Rightarrow> undefined_behaviour t
            | Int_absent \<Rightarrow> finish_turn Outcome_failed ErrorCode_internal t
            | Int_found seq \<Rightarrow>
                if seq \<noteq> tc_expected_seq t then finish_turn Outcome_failed ErrorCode_internal t
                else
                  (let t = t\<lparr>tc_expected_seq := tc_expected_seq t + 1\<rparr> in
                   case json_find_raw_string payload ''text'' of
                     None \<Rightarrow> handle_pcm payload t
                   | Some raw_text \<Rightarrow>
                       (case json_unescape raw_text True kTextBytes of
                          (_, None) \<Rightarrow> drop_event t
                        | (txt, Some len) \<Rightarrow>
                            handle_pcm payload
                              (drain_segments
                                (t\<lparr>tc_segmenter := speech_feed (take len txt) (tc_segmenter t)\<rparr>))))))"

definition handle_text :: "string \<Rightarrow> turn_core \<Rightarrow> turn_core" where
  "handle_text payload t =
    (case json_find_raw_string payload ''text'' of
       None \<Rightarrow> drop_event t
     | Some raw \<Rightarrow>
         (case json_unescape raw True kTextBytes of
            (_, None) \<Rightarrow> drop_event t
          | (txt, Some len) \<Rightarrow>
              call (On_recognized (take len txt)
                     (case json_find_bool payload ''final'' of None \<Rightarrow> True | Some b \<Rightarrow> b)) t))"

definition handle_finished :: "string \<Rightarrow> turn_core \<Rightarrow> turn_core" where
  "handle_finished payload t =
    (case json_find_raw_string payload ''reason'' of
       None \<Rightarrow> drop_event t
     | Some reason \<Rightarrow>
         (let outcome = outcome_of reason;
              err = (if outcome = Outcome_failed
                     then (if tc_reported_error t \<noteq> ErrorCode_none then tc_reported_error t
                           else ErrorCode_internal)
                     else ErrorCode_none)
          in finish_turn outcome err t))"

definition handle_error :: "string \<Rightarrow> turn_core \<Rightarrow> turn_core" where
  "handle_error payload t =
    t\<lparr>tc_reported_error :=
        (case json_find_raw_string payload ''code'' of
           None \<Rightarrow> ErrorCode_internal
         | Some code_name \<Rightarrow>
             (case parse_error_code code_name of None \<Rightarrow> ErrorCode_internal | Some c \<Rightarrow> c))\<rparr>"

definition handle_event :: "string \<Rightarrow> turn_core \<Rightarrow> turn_core" where
  "handle_event data t =
    (if data = ''[DONE]'' then t
     else case json_find_integer data ''v'' of
       Int_undefined \<Rightarrow> undefined_behaviour t
     | Int_absent \<Rightarrow> drop_event t
     | Int_found version \<Rightarrow>
         if version \<noteq> 1 then drop_event t
         else if json_find_raw_string data ''kind'' \<noteq> Some ''event'' then drop_event t
         else case json_find_raw_string data ''name'' of
           None \<Rightarrow> drop_event t
         | Some name \<Rightarrow>
             (case json_find_object data ''payload'' of
                None \<Rightarrow> drop_event t
              | Some payload \<Rightarrow>
                  if name = ''reply.audio'' then handle_audio payload t
                  else if name = ''conversation.text'' then handle_text payload t
                  else if name = ''conversation.finished'' then handle_finished payload t
                  else if name = ''error.raised'' then handle_error payload t
                  else t))"

definition turn_live :: "turn_core \<Rightarrow> bool" where
  "turn_live t \<longleftrightarrow> tc_outcome t = Outcome_running \<and> \<not> tc_undefined t"

text \<open>\<open>while (outcome_ == running && sse_.next_event(data)) handle_event(data)\<close>, on fuel.\<close>

fun handle_events :: "nat \<Rightarrow> turn \<Rightarrow> turn" where
  "handle_events 0 t = t"
| "handle_events (Suc n) t =
    (if turn_live (tn_core t) then
       (case next_event (tn_sse t) of
          (None, r) \<Rightarrow> t\<lparr>tn_sse := r\<rparr>
        | (Some data, r) \<Rightarrow>
            handle_events n \<lparr>tn_core = handle_event data (tn_core t), tn_sse = r\<rparr>)
     else t)"

definition event_loop :: "turn \<Rightarrow> turn" where
  "event_loop t = handle_events (length (sr_fifo (tn_sse t)) + 1) t"

definition turn_feed :: "string \<Rightarrow> turn \<Rightarrow> turn" where
  "turn_feed bytes t =
    (if \<not> turn_live (tn_core t) then t
     else event_loop (t\<lparr>tn_sse := sse_feed bytes (tn_sse t)\<rparr>))"

definition turn_finish_input :: "turn \<Rightarrow> turn" where
  "turn_finish_input t =
    (if \<not> turn_live (tn_core t) then t
     else
       (let t = event_loop (t\<lparr>tn_sse := sse_finish (tn_sse t)\<rparr>) in
        if \<not> turn_live (tn_core t) then t
        else t\<lparr>tn_core := finish_turn Outcome_failed
               (if tc_reported_error (tn_core t) \<noteq> ErrorCode_none
                then tc_reported_error (tn_core t) else ErrorCode_internal) (tn_core t)\<rparr>))"

definition turn_abort :: "ErrorCode \<Rightarrow> turn \<Rightarrow> turn" where
  "turn_abort code t =
    (if tc_undefined (tn_core t) then t
     else t\<lparr>tn_core := finish_turn
           (if code = ErrorCode_cancelled then Outcome_cancelled else Outcome_failed) code
           (tn_core t)\<rparr>)"

section \<open>The end is reported once, and last\<close>

definition is_finished_call :: "listener_call \<Rightarrow> bool" where
  "is_finished_call c \<longleftrightarrow> (\<exists>outcome code. c = On_finished outcome code)"

definition audio_calls :: "turn_core \<Rightarrow> nat" where
  "audio_calls t = length (filter (\<lambda>c. \<exists>samples. c = On_audio samples) (tc_calls t))"

definition core_invar :: "turn_core \<Rightarrow> bool" where
  "core_invar t \<longleftrightarrow>
    (\<exists>pre. list_all (\<lambda>c. \<not> is_finished_call c) pre \<and>
       tc_calls t = pre @ (if tc_outcome t = Outcome_running then []
                           else [On_finished (tc_outcome t) (tc_code t)])) \<and>
    (tc_outcome t = Outcome_failed \<longrightarrow> tc_code t \<noteq> ErrorCode_none) \<and>
    (tc_outcome t \<in> {Outcome_running, Outcome_completed} \<longrightarrow> tc_code t = ErrorCode_none) \<and>
    int (audio_calls t) \<le> tc_expected_seq t"

definition core_live :: "turn_core \<Rightarrow> bool" where
  "core_live t \<longleftrightarrow> core_invar t \<and> tc_outcome t = Outcome_running"

lemma core_live_iff:
  "core_live t \<longleftrightarrow>
    list_all (\<lambda>c. \<not> is_finished_call c) (tc_calls t) \<and> tc_outcome t = Outcome_running \<and>
    tc_code t = ErrorCode_none \<and> int (audio_calls t) \<le> tc_expected_seq t"
  by (auto simp: core_live_def core_invar_def)

lemma is_finished_call_simps [simp]:
  "is_finished_call (On_finished outcome code)" "\<not> is_finished_call (On_recognized txt f)"
  "\<not> is_finished_call (On_sentence e txt)" "\<not> is_finished_call (On_audio samples)"
  by (simp_all add: is_finished_call_def)

lemma core_live_call:
  "core_live t \<Longrightarrow> \<not> is_finished_call c \<Longrightarrow> (\<And>samples. c \<noteq> On_audio samples) \<Longrightarrow> core_live (call c t)"
  by (simp add: core_live_iff call_def audio_calls_def)

lemma core_live_frame:
  "core_live (t\<lparr>tc_segmenter := s\<rparr>) = core_live t" "core_live (t\<lparr>tc_dropped := n\<rparr>) = core_live t"
  "core_live (t\<lparr>tc_reported_error := e\<rparr>) = core_live t"
  "core_live (t\<lparr>tc_undefined := b\<rparr>) = core_live t"
  by (simp_all add: core_live_iff audio_calls_def)

lemma core_live_invar: "core_live t \<Longrightarrow> core_invar t"
  by (simp add: core_live_def)

lemma finish_turn_invar [invariant_rules]:
  assumes "core_invar t" and "outcome = Outcome_failed \<longrightarrow> code \<noteq> ErrorCode_none"
    and "outcome = Outcome_completed \<longrightarrow> code = ErrorCode_none" and "outcome \<noteq> Outcome_running"
  shows "core_invar (finish_turn outcome code t)"
  using assms by (auto simp: core_invar_def finish_turn_def call_def audio_calls_def)

lemma finish_turn_failed: "core_invar t \<Longrightarrow> code \<noteq> ErrorCode_none \<Longrightarrow>
    core_invar (finish_turn Outcome_failed code t)"
  by (rule finish_turn_invar) simp_all

lemma drain_segments_loop_live: "core_live t \<Longrightarrow> core_live (drain_segments_loop n t)"
proof (induction n arbitrary: t)
  case (Suc n)
  have "core_live (call (On_sentence e x) (t\<lparr>tc_segmenter := s\<rparr>))" for e x s
    using Suc.prems by (intro core_live_call) (simp_all add: core_live_frame)
  with Suc show ?case by (auto simp: core_live_frame split: prod.split option.split)
qed simp

lemma drain_segments_live: "core_live t \<Longrightarrow> core_live (drain_segments t)"
  unfolding drain_segments_def by (rule drain_segments_loop_live)

lemma drain_segments_loop_frame [frame_rules]:
  "tc_expected_seq (drain_segments_loop n t) = tc_expected_seq t"
  "audio_calls (drain_segments_loop n t) = audio_calls t"
  by (induction n arbitrary: t)
    (auto simp: call_def audio_calls_def split: prod.split option.split)

lemma drain_segments_frame [frame_rules, simp]:
  "tc_expected_seq (drain_segments t) = tc_expected_seq t"
  "audio_calls (drain_segments t) = audio_calls t"
  unfolding drain_segments_def by (rule drain_segments_loop_frame)+

lemma audio_calls_update [simp]:
  "audio_calls (t\<lparr>tc_segmenter := s\<rparr>) = audio_calls t"
  "audio_calls (t\<lparr>tc_expected_seq := n\<rparr>) = audio_calls t"
  by (simp_all add: audio_calls_def)

lemma core_live_audio:
  "core_live t \<Longrightarrow> int (audio_calls t) < tc_expected_seq t \<Longrightarrow> core_live (call (On_audio samples) t)"
  by (simp add: core_live_iff call_def audio_calls_def)

lemma core_invar_drop: "core_live t \<Longrightarrow> core_invar (drop_event t)"
  by (simp add: drop_event_def core_live_frame core_live_invar)

lemma core_invar_undefined: "core_live t \<Longrightarrow> core_invar (undefined_behaviour t)"
  by (simp add: undefined_behaviour_def core_live_frame core_live_invar)

lemma handle_pcm_invar [invariant_rules]:
  assumes "core_live t" and "int (audio_calls t) < tc_expected_seq t"
  shows "core_invar (handle_pcm payload t)"
proof -
  let ?d = "drain_segments (t\<lparr>tc_segmenter := speech_flush (tc_segmenter t)\<rparr>)"
  have d: "core_live ?d" using assms(1) by (simp add: drain_segments_live core_live_frame)
  have "core_live (call (On_audio s) ?d)" "core_live (call (On_audio s) t)" for s
    using assms d by (auto intro: core_live_audio)
  with assms d show ?thesis
    by (auto simp: handle_pcm_def Let_def core_invar_drop core_live_invar intro!: finish_turn_failed
        split: option.split prod.split)
qed

lemma handle_audio_invar [invariant_rules]:
  assumes "core_live t"
  shows "core_invar (handle_audio payload t)"
proof -
  let ?t = "t\<lparr>tc_expected_seq := tc_expected_seq t + 1\<rparr>"
  have t: "core_live ?t" "int (audio_calls ?t) < tc_expected_seq ?t"
    using assms by (auto simp: core_live_def core_invar_def)
  have f: "core_live (drain_segments (?t\<lparr>tc_segmenter := s\<rparr>))" for s
    using t(1) by (intro drain_segments_live) (simp only: core_live_frame)
  have "core_invar (handle_pcm payload ?t)"
    and "core_invar (handle_pcm payload (drain_segments (?t\<lparr>tc_segmenter := s\<rparr>)))" for s
    using t f by (auto intro!: handle_pcm_invar)
  with assms t(1) show ?thesis
    by (auto simp: handle_audio_def Let_def core_invar_drop core_invar_undefined core_live_invar
        intro!: finish_turn_failed split: option.split prod.split integer_result.split)
qed

lemma handle_text_invar [invariant_rules]: "core_live t \<Longrightarrow> core_invar (handle_text payload t)"
  by (auto simp: handle_text_def core_invar_drop intro!: core_live_invar [OF core_live_call]
      split: option.split prod.split)

lemma outcome_of_not_running: "outcome_of reason \<noteq> Outcome_running"
  by (simp add: outcome_of_def)

lemma handle_finished_invar [invariant_rules]: "core_live t \<Longrightarrow> core_invar (handle_finished payload t)"
  by (auto simp: handle_finished_def Let_def core_invar_drop outcome_of_not_running core_live_invar
      intro!: finish_turn_invar split: option.split)

lemma handle_error_live [invariant_rules]: "core_live t \<Longrightarrow> core_live (handle_error payload t)"
  by (simp add: handle_error_def core_live_frame)

lemma handle_event_invar [invariant_rules]: "core_live t \<Longrightarrow> core_invar (handle_event data t)"
  by (auto simp: handle_event_def core_invar_drop core_invar_undefined core_live_invar
      handle_audio_invar handle_text_invar handle_finished_invar handle_error_live
      split: option.split integer_result.split)

lemma handle_events_invar: "core_invar (tn_core t) \<Longrightarrow> core_invar (tn_core (handle_events n t))"
proof (induction n arbitrary: t)
  case (Suc n)
  have "turn_live (tn_core t) \<Longrightarrow> core_invar (handle_event data (tn_core t))" for data
    using Suc.prems by (intro handle_event_invar) (simp add: turn_live_def core_live_def)
  with Suc.prems show ?case by (auto intro!: Suc.IH split: prod.split option.split)
qed simp

lemma event_loop_invar: "core_invar (tn_core t) \<Longrightarrow> core_invar (tn_core (event_loop t))"
  unfolding event_loop_def by (rule handle_events_invar)

lemma turn_feed_invar [invariant_rules]:
  "core_invar (tn_core t) \<Longrightarrow> core_invar (tn_core (turn_feed bytes t))"
  by (simp add: turn_feed_def event_loop_invar)

lemma turn_finish_input_invar [invariant_rules]:
  "core_invar (tn_core t) \<Longrightarrow> core_invar (tn_core (turn_finish_input t))"
  by (auto simp: turn_finish_input_def Let_def intro!: event_loop_invar finish_turn_failed)

lemma turn_abort_invar [invariant_rules]:
  "core_invar (tn_core t) \<Longrightarrow> code \<noteq> ErrorCode_none \<Longrightarrow> core_invar (tn_core (turn_abort code t))"
  by (auto simp: turn_abort_def intro!: finish_turn_invar)

lemma conversation_turn_invar [invariant_rules]: "core_invar (tn_core conversation_turn)"
  by (simp add: core_invar_def conversation_turn_def audio_calls_def)

text \<open>The calls a driver makes on a turn.\<close>

datatype turn_op = Op_feed string | Op_finish_input | Op_abort ErrorCode

fun turn_step :: "turn_op \<Rightarrow> turn \<Rightarrow> turn" where
  "turn_step (Op_feed bytes) t = turn_feed bytes t"
| "turn_step Op_finish_input t = turn_finish_input t"
| "turn_step (Op_abort code) t = turn_abort code t"

definition turn_run :: "turn_op list \<Rightarrow> turn \<Rightarrow> turn" where
  "turn_run ops t = fold turn_step ops t"

lemma turn_run_invar:
  "Op_abort ErrorCode_none \<notin> set ops \<Longrightarrow> core_invar (tn_core t) \<Longrightarrow> core_invar (tn_core (turn_run ops t))"
proof (induction ops arbitrary: t)
  case (Cons op ops)
  have "core_invar (tn_core (turn_step op t))"
    using Cons.prems by (cases op) (auto intro: turn_feed_invar turn_finish_input_invar turn_abort_invar)
  with Cons show ?case by (simp add: turn_run_def)
qed (simp add: turn_run_def)

text \<open>After the end nothing changes any more.\<close>

lemma turn_step_ended: "tc_outcome (tn_core t) \<noteq> Outcome_running \<Longrightarrow> turn_step op t = t"
  by (cases op) (simp_all add: turn_feed_def turn_finish_input_def turn_abort_def turn_live_def finish_turn_def)

lemma turn_run_ended: "tc_outcome (tn_core t) \<noteq> Outcome_running \<Longrightarrow> turn_run ops t = t"
  by (induction ops) (simp_all add: turn_run_def turn_step_ended)

text \<open>The end of the input always ends the turn.\<close>

lemma turn_finish_input_ends:
  "tc_undefined (tn_core (turn_finish_input t)) \<or>
   tc_outcome (tn_core (turn_finish_input t)) \<noteq> Outcome_running"
  by (auto simp: turn_finish_input_def turn_live_def Let_def finish_turn_def call_def)

section \<open>Any cut of the stream\<close>

text \<open>What an event does to a turn that may have ended.\<close>

definition live_step :: "string \<Rightarrow> turn_core \<Rightarrow> turn_core" where
  "live_step data t = (if turn_live t then handle_event data t else t)"

lemma live_steps_ended: "\<not> turn_live t \<Longrightarrow> fold live_step es t = t"
  by (induction es) (simp_all add: live_step_def)

lemma handle_events_queue:
  "sse_queue (tn_sse t) es \<Longrightarrow> length es < n \<Longrightarrow>
   tn_core (handle_events n t) = fold live_step es (tn_core t) \<and>
   (turn_live (fold live_step es (tn_core t)) \<longrightarrow>
     (\<exists>k. tn_sse (handle_events n t) = (tn_sse t)\<lparr>sr_fifo_read := k\<rparr> \<and>
        sse_queue ((tn_sse t)\<lparr>sr_fifo_read := k\<rparr>) []))"
proof (induction es arbitrary: t n)
  case Nil
  then obtain m where m: "n = Suc m" by (cases n) auto
  then have h: "handle_events n t = t"
    using next_event_queue [OF Nil(1)] by simp
  have k: "tn_sse t = (tn_sse t)\<lparr>sr_fifo_read := sr_fifo_read (tn_sse t)\<rparr>" by simp
  show ?case unfolding h using k Nil(1) by (metis fold_simps(1))
next
  case (Cons e es)
  then obtain m where m: "n = Suc m" by (cases n) auto
  show ?case
  proof (cases "turn_live (tn_core t)")
    case False
    then have "fold live_step (e # es) (tn_core t) = tn_core t" by (rule live_steps_ended)
    with False m show ?thesis by simp
  next
    case True
    obtain r where r: "next_event (tn_sse t) = (Some e, r)" "sse_queue r es"
      "r = (tn_sse t)\<lparr>sr_fifo_read := sr_fifo_read r\<rparr>"
      using next_event_queue [OF Cons.prems(1)] by auto
    let ?t = "\<lparr>tn_core = handle_event e (tn_core t), tn_sse = r\<rparr>"
    have h: "handle_events n t = handle_events m ?t" using True r(1) m by simp
    have s: "fold live_step (e # es) (tn_core t) = fold live_step es (tn_core ?t)"
      using True by (simp add: live_step_def)
    have rk: "r\<lparr>sr_fifo_read := k\<rparr> = (tn_sse t)\<lparr>sr_fifo_read := k\<rparr>" for k
      by (subst r(3)) simp
    have "sse_queue (tn_sse ?t) es" "length es < m" using r(2) Cons.prems(2) m by simp_all
    from Cons.IH [OF this] show ?thesis unfolding h s using rk by simp
  qed
qed

lemma turn_feed_blocks:
  "turn_live (tn_core t) \<longrightarrow> sse_wf (tn_sse t) \<and> sse_queue (tn_sse t) [] \<Longrightarrow>
   \<forall>b\<in>set blocks. length b \<le> kMaxEventBytes - 2 \<Longrightarrow>
   tn_core (fold turn_feed blocks t) =
     fold live_step (out_events (stream_outs (concat blocks) (tn_sse t))) (tn_core t)"
proof (induction blocks arbitrary: t)
  case (Cons b blocks)
  show ?case
  proof (cases "turn_live (tn_core t)")
    case False
    then have "fold turn_feed bs t = t" for bs
      by (induction bs) (simp_all add: turn_feed_def)
    then have "tn_core (fold turn_feed (b # blocks) t) = tn_core t" by (rule arg_cong)
    then show ?thesis unfolding live_steps_ended [OF False] .
  next
    case True
    let ?r1 = "sse_feed b (tn_sse t)" and ?es = "out_events (stream_outs b (tn_sse t))"
    let ?t1 = "t\<lparr>tn_sse := ?r1\<rparr>" and ?t2 = "turn_feed b t"
    have b: "length b \<le> kMaxEventBytes - 2" using Cons.prems(2) by simp
    note fed = sse_feed_block [OF _ _ b, of "tn_sse t"]
    have wf: "sse_wf (tn_sse t)" "sse_queue (tn_sse t) []" using True Cons.prems(1) by simp_all
    have t2: "?t2 = handle_events (length (sr_fifo ?r1) + 1) ?t1"
      using True by (simp add: turn_feed_def event_loop_def)
    have q: "sse_queue (tn_sse ?t1) ?es" using fed(2) [OF wf] by simp
    have "length ?es < length (sr_fifo ?r1) + 1" using queue_length [OF q] by simp
    note h = handle_events_queue [OF q this, folded t2]
    have core2: "tn_core ?t2 = fold live_step ?es (tn_core t)" using h by simp
    have "turn_live (tn_core ?t2) \<longrightarrow> sse_wf (tn_sse ?t2) \<and> sse_queue (tn_sse ?t2) []
        \<and> core (tn_sse ?t2) = core (fold feed_char b (tn_sse t))"
    proof
      assume "turn_live (tn_core ?t2)"
      then obtain k where k: "tn_sse ?t2 = ?r1\<lparr>sr_fifo_read := k\<rparr>" "sse_queue (?r1\<lparr>sr_fifo_read := k\<rparr>) []"
        using h core2 by auto
      have "sse_wf (?r1\<lparr>sr_fifo_read := k\<rparr>)" using fed(1) [OF wf] by (simp add: sse_wf_def)
      moreover have "core (?r1\<lparr>sr_fifo_read := k\<rparr>) = core (fold feed_char b (tn_sse t))"
        using fed(3) [OF wf] by (simp add: core_def)
      ultimately show "sse_wf (tn_sse ?t2) \<and> sse_queue (tn_sse ?t2) []
          \<and> core (tn_sse ?t2) = core (fold feed_char b (tn_sse t))"
        using k by simp
    qed
    note drained = this
    have outs: "turn_live (tn_core ?t2) \<Longrightarrow> stream_outs (concat blocks) (tn_sse ?t2) =
        stream_outs (concat blocks) (fold feed_char b (tn_sse t))"
      using drained by (intro stream_outs_core) simp
    have "tn_core (fold turn_feed (b # blocks) t) =
        fold live_step (out_events (stream_outs (concat blocks) (tn_sse ?t2))) (tn_core ?t2)"
      using Cons.IH [of ?t2] Cons.prems(2) drained by simp
    also have "\<dots> = fold live_step
        (out_events (stream_outs (concat blocks) (fold feed_char b (tn_sse t)))) (tn_core ?t2)"
      using outs live_steps_ended [of "tn_core ?t2"] by (cases "turn_live (tn_core ?t2)") simp_all
    finally show ?thesis
      by (simp add: core2 stream_outs_append out_events_def)
  qed
qed (simp add: out_events_def)

lemma conversation_turn_ready:
  "sse_wf (tn_sse conversation_turn) \<and> sse_queue (tn_sse conversation_turn) []"
  by (simp add: conversation_turn_def sse_wf_initial sse_queue_initial)

section \<open>Properties\<close>

text \<open>C20: what a turn does with the reply does not depend on where the network cut it into blocks.\<close>
theorem turn_split_invariant:
  assumes "concat blocks = concat blocks'"
    and "\<forall>b\<in>set blocks. length b \<le> kMaxEventBytes - 2"
    and "\<forall>b\<in>set blocks'. length b \<le> kMaxEventBytes - 2"
  shows "tn_core (fold turn_feed blocks conversation_turn) = tn_core (fold turn_feed blocks' conversation_turn)"
  using turn_feed_blocks [of conversation_turn blocks] turn_feed_blocks [of conversation_turn blocks']
    conversation_turn_ready assms by simp

lemma turn_split_invariant_witness:
  "tn_core (fold turn_feed [''data: {'', ''}'' @ [LF, LF]] conversation_turn) =
    tn_core (fold turn_feed [''data: {}'' @ [LF], [LF]] conversation_turn)"
  by (rule turn_split_invariant) (simp_all add: kMaxEventBytes_def)

text \<open>C21: whatever is fed, finished or aborted, and in whatever order, the listener is told that the
  turn finished at most once and after everything else, with the outcome the turn then has, and a
  failure always names its error.\<close>
theorem turn_reports_once:
  assumes "Op_abort ErrorCode_none \<notin> set ops" and "t = tn_core (turn_run ops conversation_turn)"
  shows "\<exists>before. list_all (\<lambda>c. \<not> is_finished_call c) before \<and>
    tc_calls t = before @ (if tc_outcome t = Outcome_running then []
      else [On_finished (tc_outcome t) (tc_code t)]) \<and>
    \<not> (tc_outcome t = Outcome_failed \<and> tc_code t = ErrorCode_none)"
  using turn_run_invar [OF assms(1) conversation_turn_invar] unfolding core_invar_def assms(2) by blast

lemma turn_reports_once_witness:
  "\<exists>before. list_all (\<lambda>c. \<not> is_finished_call c) before \<and>
    tc_calls (tn_core (turn_run [Op_finish_input, Op_abort ErrorCode_cancelled] conversation_turn)) =
      before @ [On_finished Outcome_failed ErrorCode_internal]"
proof -
  have t: "tn_core (turn_run [Op_finish_input, Op_abort ErrorCode_cancelled] conversation_turn) =
      (tn_core conversation_turn)\<lparr>tc_outcome := Outcome_failed, tc_code := ErrorCode_internal,
        tc_calls := [On_finished Outcome_failed ErrorCode_internal]\<rparr>"
    by code_simp
  then show ?thesis
    using turn_reports_once [of "[Op_finish_input, Op_abort ErrorCode_cancelled]", OF _ refl]
    by (simp add: t)
qed

text \<open>C22: when the reply has been read to its end the turn has ended, unless a number of it was
  beyond what the reader's integers hold, and nothing that comes later changes it.\<close>
theorem turn_ends_with_input:
  "tc_undefined (tn_core (turn_finish_input t)) \<or>
   (tc_outcome (tn_core (turn_finish_input t)) \<noteq> Outcome_running \<and>
    turn_run ops (turn_finish_input t) = turn_finish_input t)"
  using turn_finish_input_ends [of t] turn_run_ended [of "turn_finish_input t" ops] by blast

text \<open>Sound at another sampling rate is set aside without counting its sequence number, so the
  next sound of the reply is taken for a gap and fails the turn.\<close>
theorem other_rate_then_gap:
  assumes "json_find_integer payload ''rate'' = Int_found rate" and "rate \<noteq> 16000"
    and "json_find_integer payload' ''rate'' = Int_found 16000"
    and "json_find_integer payload' ''seq'' = Int_found (tc_expected_seq t + 1)"
  shows "handle_audio payload' (handle_audio payload t) =
    finish_turn Outcome_failed ErrorCode_internal (t\<lparr>tc_dropped := tc_dropped t + 1\<rparr>)"
  using assms by (simp add: handle_audio_def drop_event_def)

definition rate_member :: "string \<Rightarrow> string \<Rightarrow> string" where
  "rate_member rate seq = CHR 0x7B # [quote] @ ''rate'' @ [quote] @ '':'' @ rate @ '','' @ [quote] @ ''seq'' @ [quote]
     @ '':'' @ seq @ [CHR 0x7D]"

lemma other_rate_then_gap_witness:
  "handle_audio (rate_member ''16000'' ''1'')
      (handle_audio (rate_member ''24000'' ''0'') (tn_core conversation_turn)) =
    finish_turn Outcome_failed ErrorCode_internal ((tn_core conversation_turn)\<lparr>tc_dropped := 1\<rparr>)"
proof -
  have "json_find_integer (rate_member ''24000'' ''0'') ''rate'' = Int_found 24000"
    and "json_find_integer (rate_member ''16000'' ''1'') ''rate'' = Int_found 16000"
    and "json_find_integer (rate_member ''16000'' ''1'') ''seq'' = Int_found 1"
    by code_simp+
  then show ?thesis
    using other_rate_then_gap [of "rate_member ''24000'' ''0''" 24000 "rate_member ''16000'' ''1''"
      "tn_core conversation_turn"]
    by (simp add: conversation_turn_def)
qed

end
