(* ===== verification/Playback_Stager.thy ===== *)
theory Playback_Stager
  imports Protocol
begin

text \<open>
  \<open>stackchan_app/playback_stager\<close>: a sentence is held until it is complete, then played at once
  under its own expression. The stage is the caller's buffer, written in place by \<open>accept\<close>.
\<close>

record stager =
  ps_stage :: "sample list"
  ps_capacity :: nat
  ps_sink_depth_ms :: u32
  ps_staged :: nat
  ps_speaking :: Expression
  ps_pending :: Expression
  ps_has_pending :: bool
  ps_until_ms :: u32
  ps_spoke :: bool

text \<open>The constructor; a null stage has no capacity.\<close>

definition stager_new :: "sample list option \<Rightarrow> nat \<Rightarrow> u32 \<Rightarrow> stager" where
  "stager_new stage capacity_samples sink_depth_ms =
    \<lparr>ps_stage = (case stage of None \<Rightarrow> [] | Some s \<Rightarrow> s),
     ps_capacity = (case stage of None \<Rightarrow> 0 | Some s \<Rightarrow> capacity_samples),
     ps_sink_depth_ms = sink_depth_ms, ps_staged = 0, ps_speaking = Expression_neutral,
     ps_pending = Expression_neutral, ps_has_pending = False, ps_until_ms = 0, ps_spoke = False\<rparr>"

definition begin_sentence :: "Expression \<Rightarrow> stager \<Rightarrow> nat \<times> stager" where
  "begin_sentence next_expression p =
    (if ps_staged p = 0
     then (0, p\<lparr>ps_speaking := next_expression, ps_has_pending := False\<rparr>)
     else (ps_staged p, p\<lparr>ps_pending := next_expression, ps_has_pending := True\<rparr>))"

definition stage_copy :: "sample list \<Rightarrow> nat \<Rightarrow> sample list \<Rightarrow> sample list" where
  "stage_copy stage at src = take at stage @ src @ drop (at + length src) stage"

text \<open>\<open>accept(samples, count)\<close>; \<open>None\<close> is a null pointer, \<open>count\<close> the length of the view.\<close>

definition accept :: "sample list option \<Rightarrow> stager \<Rightarrow> nat \<times> stager" where
  "accept samples p =
    (case samples of
       None \<Rightarrow> (0, p)
     | Some xs \<Rightarrow>
         if length xs = 0 \<or> ps_capacity p = 0 then (0, p)
         else if ps_has_pending p then (0, p)
         else let room = ps_capacity p - ps_staged p;
                  count = (if length xs < room then length xs else room)
              in if count = 0 then (0, p)
                 else (count,
                       p\<lparr>ps_stage := stage_copy (ps_stage p) (ps_staged p) (take count xs),
                         ps_staged := ps_staged p + count\<rparr>))"

definition finish :: "bool \<Rightarrow> stager \<Rightarrow> nat \<times> stager" where
  "finish completed p =
    (if \<not> completed then (0, p\<lparr>ps_staged := 0, ps_has_pending := False\<rparr>) else (ps_staged p, p))"

definition flushed :: "u32 \<Rightarrow> stager \<Rightarrow> stager" where
  "flushed now p =
    (let q = p\<lparr>ps_staged := 0, ps_until_ms := now + ps_sink_depth_ms p, ps_spoke := True\<rparr>
     in if ps_has_pending q then q\<lparr>ps_speaking := ps_pending q, ps_has_pending := False\<rparr> else q)"

definition stager_reset :: "stager \<Rightarrow> stager" where
  "stager_reset p =
    p\<lparr>ps_staged := 0, ps_speaking := Expression_neutral, ps_pending := Expression_neutral,
      ps_has_pending := False, ps_until_ms := 0, ps_spoke := False\<rparr>"

definition remaining_ms :: "u32 \<Rightarrow> stager \<Rightarrow> u32" where
  "remaining_ms now p =
    (if \<not> ps_spoke p then 0
     else let left = ps_until_ms p - now in if 0 < sint left then left else 0)"

text \<open>\<open>staged_samples()\<close> with \<open>staged_count()\<close>: the part of the stage that is filled.\<close>

definition staged_samples :: "stager \<Rightarrow> sample list" where
  "staged_samples p = take (ps_staged p) (ps_stage p)"

section \<open>The stage never overflows, and a pending sentence has audio before it\<close>

definition stager_wf :: "stager \<Rightarrow> bool" where
  "stager_wf p \<longleftrightarrow> length (ps_stage p) = ps_capacity p \<and> ps_staged p \<le> ps_capacity p \<and>
    (ps_has_pending p \<longrightarrow> 0 < ps_staged p)"

lemma stager_wf_new [invariant_rules]:
  "length stage = capacity \<Longrightarrow> stager_wf (stager_new (Some stage) capacity depth)"
  "stager_wf (stager_new None capacity depth)"
  by (simp_all add: stager_wf_def stager_new_def)

lemma stager_wf_begin [invariant_rules]: "stager_wf p \<Longrightarrow> stager_wf (snd (begin_sentence e p))"
  by (simp add: stager_wf_def begin_sentence_def)

lemma stager_wf_finish [invariant_rules]: "stager_wf p \<Longrightarrow> stager_wf (snd (finish c p))"
  by (simp add: stager_wf_def finish_def)

lemma stager_wf_flushed [invariant_rules]: "stager_wf p \<Longrightarrow> stager_wf (flushed now p)"
  by (simp add: stager_wf_def flushed_def Let_def)

lemma stager_wf_reset [invariant_rules]: "stager_wf p \<Longrightarrow> stager_wf (stager_reset p)"
  by (simp add: stager_wf_def stager_reset_def)

text \<open>How much \<open>accept\<close> takes, and where it goes.\<close>

definition taken_by :: "sample list \<Rightarrow> stager \<Rightarrow> nat" where
  "taken_by xs p = (if ps_has_pending p then 0 else min (length xs) (ps_capacity p - ps_staged p))"

lemma accept_null: "accept None p = (0, p)"
  by (simp add: accept_def)

lemma accept_count: "fst (accept (Some xs) p) = taken_by xs p"
  by (auto simp: accept_def taken_by_def Let_def)

lemma accept_staged:
  assumes "stager_wf p"
  shows "staged_samples (snd (accept (Some xs) p)) = staged_samples p @ take (taken_by xs p) xs"
    and "stager_wf (snd (accept (Some xs) p))"
  using assms by (auto simp: accept_def taken_by_def stager_wf_def staged_samples_def stage_copy_def
      Let_def min_def)

lemma accept_frame [frame_rules]:
  "ps_speaking (snd (accept xs p)) = ps_speaking p"
  "ps_pending (snd (accept xs p)) = ps_pending p"
  "ps_has_pending (snd (accept xs p)) = ps_has_pending p"
  "ps_capacity (snd (accept xs p)) = ps_capacity p"
  by (simp_all add: accept_def Let_def split: option.split)

lemma flushed_staged [simp]: "ps_staged (flushed now p) = 0" "\<not> ps_has_pending (flushed now p)"
  by (simp_all add: flushed_def Let_def)

lemma flushed_speaking:
  "ps_speaking (flushed now p) = (if ps_has_pending p then ps_pending p else ps_speaking p)"
  by (simp add: flushed_def Let_def)

lemma flushed_capacity [simp]: "ps_capacity (flushed now p) = ps_capacity p"
  by (simp add: flushed_def Let_def)

text \<open>After a flush there is room for something whenever there is a stage.\<close>

lemma taken_after_flush:
  "xs \<noteq> [] \<Longrightarrow> 0 < ps_capacity p \<Longrightarrow> 0 < taken_by xs (flushed now p)"
  by (simp add: taken_by_def)

lemma not_taken:
  "stager_wf p \<Longrightarrow> xs \<noteq> [] \<Longrightarrow> 0 < ps_capacity p \<Longrightarrow> taken_by xs p = 0 \<Longrightarrow> 0 < ps_staged p"
  by (auto simp: taken_by_def stager_wf_def min_def split: if_splits)

section \<open>The time the hardware still sounds\<close>

lemma shift_mod:
  "0 \<le> n \<Longrightarrow> n < 4294967296 \<Longrightarrow>
   (n + 2147483648) mod 4294967296 - 2147483648 = (if n < 2147483648 then n else n - 4294967296)"
  for n :: int
  by (smt (verit) mod_pos_pos_trivial minus_mod_self2)

lemma sint_by_uint:
  "sint w = (if uint w < 2147483648 then uint w else uint w - 4294967296)" for w :: u32
proof -
  have b: "0 \<le> uint w" "uint w < 4294967296" using unsigned_less [of w, where ?'a = int] by simp_all
  have "sint w = (uint w + 2 ^ 31) mod 2 ^ 32 - 2 ^ 31"
    by (simp only: sint_uint signed_take_bit_eq_take_bit_shift take_bit_eq_mod) simp
  also have "\<dots> = (uint w + 2147483648) mod 4294967296 - 2147483648" by simp
  also have "\<dots> = (if uint w < 2147483648 then uint w else uint w - 4294967296)"
    by (rule shift_mod [OF b])
  finally show ?thesis .
qed

lemma sint_pos_iff: "0 < sint w \<longleftrightarrow> 0 < unat w \<and> unat w < 2147483648" for w :: u32
proof -
  have b: "0 \<le> uint w" "uint w < 4294967296" using unsigned_less [of w, where ?'a = int] by simp_all
  have "unat w = nat (uint w)" by simp
  then show ?thesis unfolding sint_by_uint using b by (simp only: split: if_splits) linarith
qed

lemma remaining_after_flush:
  assumes "unat (ps_sink_depth_ms p) < 2147483648"
  shows "unat e \<le> unat (ps_sink_depth_ms p) \<Longrightarrow>
      remaining_ms (now + e) (flushed now p) = ps_sink_depth_ms p - e"
    and "unat (ps_sink_depth_ms p) \<le> unat e \<Longrightarrow> unat e - unat (ps_sink_depth_ms p) \<le> 2147483648 \<Longrightarrow>
      remaining_ms (now + e) (flushed now p) = 0"
proof -
  let ?d = "ps_sink_depth_ms p"
  have r: "remaining_ms (now + e) (flushed now p) = (if 0 < sint (?d - e) then ?d - e else 0)"
    by (simp add: remaining_ms_def flushed_def Let_def)
  note s = sint_pos_iff
  show "remaining_ms (now + e) (flushed now p) = ?d - e" if le: "unat e \<le> unat ?d"
  proof (cases "e = ?d")
    case False
    then have "unat e \<noteq> unat ?d" by (simp add: word_unat_eq_iff)
    moreover have "unat (?d - e) = unat ?d - unat e" using le by (simp add: unat_sub_if_size)
    ultimately have "0 < sint (?d - e)" using s [of "?d - e"] le assms by linarith
    then show ?thesis by (simp add: r)
  next
    case True
    then show ?thesis unfolding r by simp
  qed
  show "remaining_ms (now + e) (flushed now p) = 0"
    if le: "unat ?d \<le> unat e" "unat e - unat ?d \<le> 2147483648"
  proof (cases "e = ?d")
    case False
    then have "unat ?d < unat e" using le by (metis le_neq_implies_less word_unat_eq_iff)
    then have "unat (?d - e) = 4294967296 - (unat e - unat ?d)"
      by (simp add: unat_sub_if_size word_size)
    then have "\<not> 0 < sint (?d - e)" using s [of "?d - e"] le by linarith
    then show ?thesis by (simp add: r)
  next
    case True
    then show ?thesis unfolding r by simp
  qed
qed

section \<open>Properties\<close>

text \<open>After a flush, the sound still queued in the sink is reported to run down with the clock from
  the sink's depth to zero, and to stay at zero for half the clock's range, over its wrap-around.\<close>
theorem remaining_runs_down:
  assumes "unat (ps_sink_depth_ms p) < 2 ^ 31" and "unat e \<le> unat (ps_sink_depth_ms p) + 2 ^ 31"
  shows "remaining_ms (now + e) (flushed now p) =
    (if unat e \<le> unat (ps_sink_depth_ms p) then ps_sink_depth_ms p - e else 0)"
  using remaining_after_flush [of p e now] assms by (simp add: word_le_nat_alt)

lemma remaining_runs_down_witness:
  "remaining_ms (4294967200 + 100) (flushed 4294967200 (stager_new None 4 240)) = 140"
  using remaining_runs_down [of "stager_new None 4 240" 100 4294967200]
  by (simp add: stager_new_def)

end
