(* ===== verification/Player.thy ===== *)
theory Player
  imports Playback_Stager Conversation Deadline "HOL-Library.Sublist"
begin

text \<open>
  The \<open>Player\<close> of \<open>stackchan_conversation/task.cpp\<close>: the listener of a conversation turn, which
  carries out the stager's instructions on the loudspeaker and the face. The ports
  (\<open>ports/audio.hpp\<close>, \<open>ports/face.hpp\<close>), the clock and the cancellation token are parameters: a
  world of any type and the calls on it. What the player does to the ports is kept as a trace.
\<close>

record 'w player_ports =
  has_sink :: bool
  has_face :: bool
  has_stage :: bool
  sink_playing :: "'w \<Rightarrow> bool"
  sink_start :: "u32 \<Rightarrow> 'w \<Rightarrow> bool \<times> 'w"
  sink_write :: "sample list \<Rightarrow> deadline \<Rightarrow> u32 \<Rightarrow> 'w \<Rightarrow> nat \<times> 'w"
  clock :: "'w \<Rightarrow> u32 \<times> 'w"
  token_cancelled :: "'w \<Rightarrow> bool"

datatype port_call = Face_show Expression | Face_talking bool | Sink_wrote "sample list"

record 'w player =
  pl_stager :: stager
  pl_received :: nat
  pl_played :: nat
  pl_peak :: int
  pl_speaking_phase :: bool
  pl_calls :: "port_call list"
  pl_world :: 'w

definition kSampleRate :: u32 where
  "kSampleRate = 16000"

text \<open>\<open>write_all\<close>: the count written, what the sink was given, and the world after.\<close>

function write_all :: "'w player_ports \<Rightarrow> sample list \<Rightarrow> 'w \<Rightarrow> nat \<times> port_call list \<times> 'w" where
  "write_all ports samples w =
    (if samples = [] then (0, [], w)
     else if token_cancelled ports w then (0, [], w)
     else let (t, w1) = clock ports w;
              (wrote, w2) = sink_write ports samples (after t 1000) t w1
          in if wrote = 0 then (0, [], w2)
             else let (written, calls, w3) = write_all ports (drop wrote samples) w2
                  in (wrote + written, Sink_wrote (take wrote samples) # calls, w3))"
  by pat_completeness auto
termination
  by (relation "measure (\<lambda>(ports, samples, w). length samples)") auto

declare write_all.simps [simp del]

definition player_flushed :: "'w player_ports \<Rightarrow> 'w player \<Rightarrow> 'w player" where
  "player_flushed ports p =
    (let (t, w) = clock ports (pl_world p)
     in p\<lparr>pl_stager := flushed t (pl_stager p), pl_world := w\<rparr>)"

definition ensure_playing :: "'w player_ports \<Rightarrow> 'w \<Rightarrow> bool \<times> 'w" where
  "ensure_playing ports w =
    (if sink_playing ports w then (True, w) else sink_start ports kSampleRate w)"

definition show_face :: "'w player_ports \<Rightarrow> Expression \<Rightarrow> port_call list" where
  "show_face ports e = (if has_face ports then [Face_show e, Face_talking True] else [])"

definition speak :: "'w player_ports \<Rightarrow> nat \<Rightarrow> 'w player \<Rightarrow> 'w player" where
  "speak ports count p =
    (if count = 0 \<or> \<not> has_sink ports then p
     else let (ready, w) = ensure_playing ports (pl_world p)
          in if \<not> ready then player_flushed ports (p\<lparr>pl_world := w\<rparr>)
             else let (written, calls, w') =
                        write_all ports (take count (ps_stage (pl_stager p))) w
                  in player_flushed ports
                       (p\<lparr>pl_speaking_phase := True,
                          pl_calls := pl_calls p @ show_face ports (ps_speaking (pl_stager p)) @ calls,
                          pl_played := pl_played p + written, pl_world := w'\<rparr>))"

definition on_sentence :: "'w player_ports \<Rightarrow> Expression \<Rightarrow> 'w player \<Rightarrow> 'w player" where
  "on_sentence ports e p =
    (let (n, stager) = begin_sentence e (pl_stager p)
     in speak ports n (p\<lparr>pl_stager := stager\<rparr>))"

definition peak_of :: "sample list \<Rightarrow> int \<Rightarrow> int" where
  "peak_of xs peak = fold (\<lambda>x peak. max peak \<bar>sint x\<bar>) xs peak"

text \<open>The loop of \<open>on_audio\<close>, on the samples still to be taken.\<close>

function audio_loop :: "'w player_ports \<Rightarrow> sample list \<Rightarrow> 'w player \<Rightarrow> 'w player" where
  "audio_loop ports rest p =
    (if rest = [] then p
     else let (taken, stager) = accept (Some rest) (pl_stager p);
              p1 = p\<lparr>pl_stager := stager\<rparr>
          in if taken \<noteq> 0 then audio_loop ports (drop taken rest) p1
             else let staged = ps_staged (pl_stager p1);
                      p2 = speak ports staged p1
                  in if staged = 0 \<or> ps_staged (pl_stager p2) \<noteq> 0 then p2
                     else audio_loop ports rest p2)"
  by pat_completeness auto
termination
proof (relation "measures [\<lambda>(ports, rest, p). length rest, \<lambda>(ports, rest, p). ps_staged (pl_stager p)]",
    goal_cases)
  case (3 ports rest p a taken stager p1 staged p2)
  have "fst (accept (Some rest) (pl_stager p)) = 0" using 3 by (metis fst_conv)
  then have "stager = pl_stager p" using 3 by (auto simp: accept_def Let_def split: if_splits)
  with 3 show ?case by auto
qed auto

declare audio_loop.simps [simp del]

definition on_audio :: "'w player_ports \<Rightarrow> sample list option \<Rightarrow> 'w player \<Rightarrow> 'w player" where
  "on_audio ports samples p =
    (case samples of
       None \<Rightarrow> p
     | Some xs \<Rightarrow>
         if \<not> has_sink ports \<or> \<not> has_stage ports then p
         else audio_loop ports xs
                (p\<lparr>pl_peak := peak_of xs (pl_peak p), pl_received := pl_received p + length xs\<rparr>))"

definition on_finished :: "'w player_ports \<Rightarrow> Outcome \<Rightarrow> 'w player \<Rightarrow> 'w player" where
  "on_finished ports outcome p =
    (let (n, stager) = finish (outcome = Outcome_completed) (pl_stager p)
     in speak ports n (p\<lparr>pl_stager := stager\<rparr>))"

definition reset_audio_counters :: "'w player \<Rightarrow> 'w player" where
  "reset_audio_counters p =
    p\<lparr>pl_received := 0, pl_played := 0, pl_peak := 0, pl_stager := stager_reset (pl_stager p)\<rparr>"

text \<open>What the player does with the calls a turn makes on its listener.\<close>

fun player_hears :: "'w player_ports \<Rightarrow> listener_call \<Rightarrow> 'w player \<Rightarrow> 'w player" where
  "player_hears ports (On_recognized heard_text final) p = p"
| "player_hears ports (On_sentence e txt') p = on_sentence ports e p"
| "player_hears ports (On_audio samples) p = on_audio ports (Some samples) p"
| "player_hears ports (On_finished outcome code) p = on_finished ports outcome p"

section \<open>What is heard, and under which face\<close>

text \<open>The samples of a stream of listener calls, each with the expression of its sentence.\<close>

fun labelled :: "Expression \<Rightarrow> listener_call list \<Rightarrow> (Expression \<times> sample) list" where
  "labelled e [] = []"
| "labelled e (On_sentence e' txt' # cs) = labelled e' cs"
| "labelled e (On_audio xs # cs) = map (Pair e) xs @ labelled e cs"
| "labelled e (On_recognized txt' final # cs) = labelled e cs"
| "labelled e (On_finished outcome code # cs) = labelled e cs"

text \<open>The samples the sink took, each with the expression the face then wore.\<close>

fun heard :: "Expression \<Rightarrow> port_call list \<Rightarrow> (Expression \<times> sample) list" where
  "heard f [] = []"
| "heard f (Face_show e # cs) = heard e cs"
| "heard f (Face_talking b # cs) = heard f cs"
| "heard f (Sink_wrote xs # cs) = map (Pair f) xs @ heard f cs"

definition face_of :: "Expression \<Rightarrow> port_call list \<Rightarrow> Expression" where
  "face_of f cs = fold (\<lambda>c f. case c of Face_show e \<Rightarrow> e | _ \<Rightarrow> f) cs f"

lemma heard_append: "heard f (cs @ ds) = heard f cs @ heard (face_of f cs) ds"
  by (induction f cs rule: heard.induct) (simp_all add: face_of_def)

fun sentence_expression :: "Expression \<Rightarrow> listener_call \<Rightarrow> Expression" where
  "sentence_expression e (On_sentence e' txt') = e'"
| "sentence_expression e _ = e"

lemma labelled_append:
  "labelled e (cs @ ds) = labelled e cs @ labelled (fold (\<lambda>c e. sentence_expression e c) cs e) ds"
  by (induction e cs rule: labelled.induct) simp_all

text \<open>One sequence follows another: the same, or with gaps.\<close>

definition follows :: "bool \<Rightarrow> 'a list \<Rightarrow> 'a list \<Rightarrow> bool" where
  "follows exact xs ys \<longleftrightarrow> (if exact then xs = ys else subseq xs ys)"

lemma follows_refl [simp]: "follows exact xs xs"
  by (simp add: follows_def)

lemma follows_append: "follows exact xs ys \<Longrightarrow> follows exact xs' ys' \<Longrightarrow> follows exact (xs @ xs') (ys @ ys')"
  by (simp add: follows_def list_emb_append_mono split: if_splits)

lemma follows_trans: "follows exact xs ys \<Longrightarrow> follows exact ys zs \<Longrightarrow> follows exact xs zs"
  by (auto simp: follows_def intro: subseq_order.trans)

lemma follows_less: "follows exact xs (ys @ zs) \<Longrightarrow> \<not> exact \<Longrightarrow> follows exact xs (ys @ zs @ us)"
  using subseq_order.trans [OF _ prefix_imp_subseq [of "ys @ zs" "ys @ zs @ us"]]
  by (simp add: follows_def)

text \<open>What the ports promise when the sound comes out: the sink starts, takes at least one sample of
  every write, and nobody cancels.\<close>

definition sink_keeps_up :: "'w player_ports \<Rightarrow> bool" where
  "sink_keeps_up ports \<longleftrightarrow> has_stage ports \<and>
    (\<forall>w. sink_playing ports w \<or> fst (sink_start ports kSampleRate w)) \<and>
    (\<forall>w. \<not> token_cancelled ports w) \<and>
    (\<forall>xs d t w. xs \<noteq> [] \<longrightarrow> fst (sink_write ports xs d t w) \<noteq> 0)"

lemma write_all_heard:
  assumes "write_all ports xs w = (written, calls, w')"
  shows "\<exists>k. heard f calls = map (Pair f) (take k xs) \<and> (sink_keeps_up ports \<longrightarrow> take k xs = xs)"
  using assms
proof (induction ports xs w arbitrary: written calls w' rule: write_all.induct)
  case (1 ports samples w)
  consider (stop) "samples = [] \<or> token_cancelled ports w" | (go) "samples \<noteq> []" "\<not> token_cancelled ports w"
    by auto
  then show ?case
  proof cases
    case stop
    then have "calls = []" using 1(2) by (auto simp: write_all.simps [of ports samples] split: if_splits)
    then show ?thesis using stop by (intro exI [of _ 0]) (auto simp: sink_keeps_up_def)
  next
    case go
    obtain t w1 where c: "clock ports w = (t, w1)" by fastforce
    obtain n w2 where n: "sink_write ports samples (after t 1000) t w1 = (n, w2)" by fastforce
    show ?thesis
    proof (cases "n = 0")
      case True
      then have "calls = []" using 1(2) go c n by (simp add: write_all.simps [of ports samples])
      moreover have "\<not> sink_keeps_up ports" using True n go by (metis fst_conv sink_keeps_up_def)
      ultimately show ?thesis by (intro exI [of _ 0]) simp
    next
      case False
      obtain m cs w3 where r: "write_all ports (drop n samples) w2 = (m, cs, w3)"
        using prod_cases3 by blast
      then have calls: "calls = Sink_wrote (take n samples) # cs"
        using 1(2) go c n False by (simp add: write_all.simps [of ports samples])
      obtain k where k: "heard f cs = map (Pair f) (take k (drop n samples))"
        "sink_keeps_up ports \<longrightarrow> take k (drop n samples) = drop n samples"
        using 1(1) [OF go(1,2) c [symmetric] refl n [symmetric] refl False r] by blast
      have "take (n + k) samples = take n samples @ take k (drop n samples)" by (rule take_add)
      with k calls show ?thesis by (intro exI [of _ "n + k"]) auto
    qed
  qed
qed

text \<open>The state between two calls: what was heard and is staged follows the labelled input.\<close>

definition player_follows :: "bool \<Rightarrow> Expression \<Rightarrow> (Expression \<times> sample) list \<Rightarrow> 'w player \<Rightarrow> bool" where
  "player_follows exact e inp p \<longleftrightarrow>
    stager_wf (pl_stager p) \<and> \<not> ps_has_pending (pl_stager p) \<and> ps_speaking (pl_stager p) = e \<and>
    (exact \<longrightarrow> 0 < ps_capacity (pl_stager p)) \<and>
    follows exact (heard Expression_neutral (pl_calls p) @ map (Pair e) (staged_samples (pl_stager p))) inp"

text \<open>Speaking what is staged empties the stage, under the expression it was staged with.\<close>

lemma player_flushed_fields:
  "\<exists>t w. player_flushed ports p = p\<lparr>pl_stager := flushed t (pl_stager p), pl_world := w\<rparr>"
  by (auto simp: player_flushed_def split: prod.split)

lemma ensure_playing_ready: "sink_keeps_up ports \<Longrightarrow> fst (ensure_playing ports w)"
  by (auto simp: ensure_playing_def sink_keeps_up_def)

lemma speak_staged:
  assumes "has_sink ports" "has_face ports" and "exact \<longrightarrow> sink_keeps_up ports"
    and n: "n = ps_staged (pl_stager p)" "n \<noteq> 0" and p': "p' = speak ports n p"
  shows "\<exists>t. pl_stager p' = flushed t (pl_stager p)"
    and "\<exists>xs. heard Expression_neutral (pl_calls p') =
           heard Expression_neutral (pl_calls p) @ map (Pair (ps_speaking (pl_stager p))) xs \<and>
         follows exact xs (staged_samples (pl_stager p))"
proof -
  let ?s = "pl_stager p"
  obtain ready w where r: "ensure_playing ports (pl_world p) = (ready, w)" by fastforce
  show "\<exists>t. pl_stager p' = flushed t ?s"
    using player_flushed_fields [of ports] assms(1) n p'
    by (auto simp: speak_def player_flushed_def split: prod.split)
  show "\<exists>xs. heard Expression_neutral (pl_calls p') =
      heard Expression_neutral (pl_calls p) @ map (Pair (ps_speaking ?s)) xs \<and>
      follows exact xs (staged_samples ?s)"
  proof (cases ready)
    case False
    then have "\<not> exact" using ensure_playing_ready [of ports "pl_world p"] assms(3) r by auto
    moreover have "pl_calls p' = pl_calls p"
      using False r n assms(1) p' by (auto simp: speak_def player_flushed_def split: prod.split)
    ultimately show ?thesis by (intro exI [of _ "[]"]) (simp add: follows_def)
  next
    case True
    obtain m cs w' where c: "write_all ports (take n (ps_stage ?s)) w = (m, cs, w')"
      using prod_cases3 by blast
    have calls: "pl_calls p' = pl_calls p @ [Face_show (ps_speaking ?s), Face_talking True] @ cs"
      using True r n assms(1,2) c p'
      by (auto simp: speak_def player_flushed_def show_face_def split: prod.split)
    obtain k where k: "heard (ps_speaking ?s) cs = map (Pair (ps_speaking ?s)) (take k (staged_samples ?s))"
      "sink_keeps_up ports \<longrightarrow> take k (staged_samples ?s) = staged_samples ?s"
      using write_all_heard [OF c] n by (auto simp: staged_samples_def)
    have "follows exact (take k (staged_samples ?s)) (staged_samples ?s)"
      using k(2) assms(3) by (auto simp: follows_def intro: prefix_imp_subseq take_is_prefix)
    then show ?thesis unfolding calls using k(1)
      by (intro exI [of _ "take k (staged_samples ?s)"]) (simp add: heard_append)
  qed
qed

lemma speak_follows:
  assumes "has_sink ports" "has_face ports" and "exact \<longrightarrow> sink_keeps_up ports"
    and f: "stager_wf (pl_stager p)" "exact \<longrightarrow> 0 < ps_capacity (pl_stager p)"
      "follows exact (heard Expression_neutral (pl_calls p) @
         map (Pair (ps_speaking (pl_stager p))) (staged_samples (pl_stager p))) inp"
    and n: "n = ps_staged (pl_stager p)" "n \<noteq> 0"
  shows "player_follows exact
      (if ps_has_pending (pl_stager p) then ps_pending (pl_stager p) else ps_speaking (pl_stager p))
      inp (speak ports n p) \<and> ps_staged (pl_stager (speak ports n p)) = 0"
proof -
  let ?p' = "speak ports n p"
  obtain t where t: "pl_stager ?p' = flushed t (pl_stager p)"
    using speak_staged(1) [OF assms(1-3) n refl] by blast
  obtain xs where xs: "heard Expression_neutral (pl_calls ?p') =
      heard Expression_neutral (pl_calls p) @ map (Pair (ps_speaking (pl_stager p))) xs"
    "follows exact xs (staged_samples (pl_stager p))"
    using speak_staged(2) [OF assms(1-3) n refl] by blast
  have "follows exact (map (Pair (ps_speaking (pl_stager p))) xs)
      (map (Pair (ps_speaking (pl_stager p))) (staged_samples (pl_stager p)))"
    using xs(2) by (auto simp: follows_def intro: subseq_map)
  then have "follows exact (heard Expression_neutral (pl_calls ?p')) inp"
    unfolding xs(1) by (intro follows_trans [OF follows_append f(3)]) simp_all
  then show ?thesis
    using t f(1,2) stager_wf_flushed [OF f(1), of t]
    by (simp add: player_follows_def flushed_speaking staged_samples_def)
qed

lemma on_sentence_follows:
  assumes "has_sink ports" "has_face ports" and "exact \<longrightarrow> sink_keeps_up ports"
    and f: "player_follows exact e inp p"
  shows "player_follows exact e' inp (on_sentence ports e' p)"
proof (cases "ps_staged (pl_stager p) = 0")
  case True
  with f show ?thesis
    by (simp add: on_sentence_def begin_sentence_def speak_def player_follows_def stager_wf_def
        staged_samples_def)
next
  case False
  let ?s = "snd (begin_sentence e' (pl_stager p))"
  let ?p = "p\<lparr>pl_stager := ?s\<rparr>"
  have s: "?s = (pl_stager p)\<lparr>ps_pending := e', ps_has_pending := True\<rparr>"
    using False by (simp add: begin_sentence_def)
  have "on_sentence ports e' p = speak ports (ps_staged (pl_stager ?p)) ?p"
    using False by (simp add: on_sentence_def begin_sentence_def)
  moreover have "stager_wf (pl_stager ?p)" using f stager_wf_begin by (simp add: player_follows_def)
  moreover have "exact \<longrightarrow> 0 < ps_capacity (pl_stager ?p)" using f s by (simp add: player_follows_def)
  moreover have "follows exact (heard Expression_neutral (pl_calls ?p) @
      map (Pair (ps_speaking (pl_stager ?p))) (staged_samples (pl_stager ?p))) inp"
    using f s by (simp add: player_follows_def staged_samples_def)
  moreover have "ps_staged (pl_stager ?p) \<noteq> 0" using False s by simp
  ultimately show ?thesis
    using speak_follows [OF assms(1-3), of ?p inp "ps_staged (pl_stager ?p)"] s by simp
qed

lemma audio_loop_follows:
  assumes "has_sink ports" "has_face ports" and "exact \<longrightarrow> sink_keeps_up ports"
    and "player_follows exact e inp p"
  shows "player_follows exact e (inp @ map (Pair e) rest) (audio_loop ports rest p)"
  using assms
proof (induction ports rest p arbitrary: inp rule: audio_loop.induct)
  case (1 ports rest p)
  let ?s = "pl_stager p"
  note f = 1(6) [unfolded player_follows_def]
  show ?case
  proof (cases "rest = []")
    case True
    with 1(6) show ?thesis by (simp add: audio_loop.simps [of ports "[]"])
  next
    case ne: False
    obtain taken stager where a: "accept (Some rest) ?s = (taken, stager)" by fastforce
    have taken: "taken = taken_by rest ?s" using accept_count [of rest ?s] a by simp
    have st: "staged_samples stager = staged_samples ?s @ take taken rest" "stager_wf stager"
      using accept_staged [of ?s rest] f a taken by simp_all
    note fr = accept_frame [of "Some rest" ?s, unfolded a, simplified]
    let ?p1 = "p\<lparr>pl_stager := stager\<rparr>"
    have p1: "player_follows exact e (inp @ map (Pair e) (take taken rest)) ?p1"
      using f st fr follows_append [OF _ follows_refl [of exact "map (Pair e) (take taken rest)"]]
      by (fastforce simp: player_follows_def)
    show ?thesis
    proof (cases "taken = 0")
      case False
      then have "audio_loop ports rest p = audio_loop ports (drop taken rest) ?p1"
        using ne a by (simp add: audio_loop.simps [of ports rest])
      moreover have "player_follows exact e
          ((inp @ map (Pair e) (take taken rest)) @ map (Pair e) (drop taken rest))
          (audio_loop ports (drop taken rest) ?p1)"
        by (rule 1(1) [OF ne refl a [symmetric] refl False 1(3-5) p1])
      ultimately show ?thesis by (metis append.assoc append_take_drop_id map_append)
    next
      case True
      let ?n = "ps_staged stager"
      let ?p2 = "speak ports ?n ?p1"
      have none: "player_follows exact e inp ?p1" using p1 True by simp
      show ?thesis
      proof (cases "?n = 0")
        case True
        have "\<not> exact"
        proof
          assume exact
          then have "0 < ps_capacity ?s" using f by simp
          then have "0 < ps_staged ?s" using not_taken [of ?s rest] f ne taken \<open>taken = 0\<close> by simp
          moreover have "stager = ?s" using a \<open>taken = 0\<close> by (auto simp: accept_def Let_def split: if_splits)
          ultimately show False using True by simp
        qed
        moreover have "audio_loop ports rest p = ?p1"
          using ne a \<open>taken = 0\<close> True by (simp add: audio_loop.simps [of ports rest] speak_def)
        ultimately show ?thesis using none
          by (auto simp: player_follows_def follows_def intro: subseq_order.trans)
      next
        case False
        have p2: "player_follows exact e inp ?p2" "ps_staged (pl_stager ?p2) = 0"
          using speak_follows [OF 1(3-5), of ?p1 inp ?n] none False
          by (simp_all add: player_follows_def)
        then have "audio_loop ports rest p = audio_loop ports rest ?p2"
          using ne a \<open>taken = 0\<close> False by (simp add: audio_loop.simps [of ports rest p])
        moreover have "player_follows exact e (inp @ map (Pair e) rest) (audio_loop ports rest ?p2)"
          by (rule 1(2) [OF ne refl a [symmetric] refl])
            (use 1(3-5) p2 \<open>taken = 0\<close> False in simp_all)
        ultimately show ?thesis by simp
      qed
    qed
  qed
qed

lemma on_audio_follows:
  assumes "has_sink ports" "has_face ports" and "exact \<longrightarrow> sink_keeps_up ports"
    and f: "player_follows exact e inp p"
  shows "player_follows exact e (inp @ map (Pair e) xs) (on_audio ports (Some xs) p)"
proof (cases "has_stage ports")
  case True
  let ?p = "p\<lparr>pl_peak := peak_of xs (pl_peak p), pl_received := pl_received p + length xs\<rparr>"
  have "player_follows exact e inp ?p" using f by (simp add: player_follows_def)
  then show ?thesis
    using audio_loop_follows [OF assms(1-3)] True assms(1) by (simp add: on_audio_def)
next
  case False
  then have "\<not> exact" using assms(3) by (auto simp: sink_keeps_up_def)
  with False f show ?thesis
    by (auto simp: on_audio_def player_follows_def follows_def intro: subseq_order.trans)
qed

lemma on_finished_follows:
  assumes "has_sink ports" "has_face ports" and "exact \<longrightarrow> sink_keeps_up ports"
    and "exact \<longrightarrow> outcome = Outcome_completed" and f: "player_follows exact e inp p"
  shows "player_follows exact e inp (on_finished ports outcome p) \<and>
    ps_staged (pl_stager (on_finished ports outcome p)) = 0"
proof (cases "outcome = Outcome_completed \<and> ps_staged (pl_stager p) \<noteq> 0")
  case True
  have "on_finished ports outcome p = speak ports (ps_staged (pl_stager p)) p"
    using True by (simp add: on_finished_def finish_def)
  then show ?thesis
    using speak_follows [OF assms(1-3), of p inp "ps_staged (pl_stager p)"] True f
    by (simp add: player_follows_def)
next
  case False
  then have z: "on_finished ports outcome p = p\<lparr>pl_stager := (pl_stager p)\<lparr>ps_staged := 0\<rparr>\<rparr>"
    if "\<not> ps_has_pending (pl_stager p)"
    using that by (auto simp: on_finished_def finish_def speak_def)
  show ?thesis
    using f z False assms(4)
    by (auto simp: player_follows_def stager_wf_def staged_samples_def follows_def
        intro: subseq_order.trans)
qed

lemma player_hears_follows:
  assumes "has_sink ports" "has_face ports" and "exact \<longrightarrow> sink_keeps_up ports"
    and "exact \<longrightarrow> (\<forall>outcome code. c = On_finished outcome code \<longrightarrow> outcome = Outcome_completed)"
    and f: "player_follows exact e inp p"
  shows "player_follows exact (sentence_expression e c) (inp @ labelled e [c]) (player_hears ports c p)"
  using assms(4) on_sentence_follows [OF assms(1-3) f] on_audio_follows [OF assms(1-3) f]
    on_finished_follows [OF assms(1-3) _ f] f
  by (cases c) auto

lemma player_run_follows:
  assumes "has_sink ports" "has_face ports" and "exact \<longrightarrow> sink_keeps_up ports"
    and "exact \<longrightarrow> (\<forall>outcome code. On_finished outcome code \<in> set cs \<longrightarrow> outcome = Outcome_completed)"
    and f: "player_follows exact e inp p"
  shows "player_follows exact (fold (\<lambda>c e. sentence_expression e c) cs e) (inp @ labelled e cs)
    (fold (player_hears ports) cs p)"
  using assms(4) f
proof (induction cs arbitrary: e inp p)
  case (Cons c cs)
  have "player_follows exact (sentence_expression e c) (inp @ labelled e [c]) (player_hears ports c p)"
    using Cons.prems by (intro player_hears_follows [OF assms(1-3)]) auto
  moreover have "exact \<longrightarrow>
      (\<forall>outcome code. On_finished outcome code \<in> set cs \<longrightarrow> outcome = Outcome_completed)"
    using Cons.prems(1) by auto
  ultimately have "player_follows exact
      (fold (\<lambda>c e. sentence_expression e c) cs (sentence_expression e c))
      ((inp @ labelled e [c]) @ labelled (sentence_expression e c) cs)
      (fold (player_hears ports) cs (player_hears ports c p))"
    by (intro Cons.IH)
  then show ?case using labelled_append [of e "[c]" cs] by simp
qed simp

text \<open>The player as \<open>run_one_turn\<close> hands it to a turn.\<close>

lemma player_ready:
  assumes "stager_wf (pl_stager p)" "exact \<longrightarrow> 0 < ps_capacity (pl_stager p)" "pl_calls p = []"
  shows "player_follows exact Expression_neutral [] (reset_audio_counters p)"
  using assms stager_wf_reset [of "pl_stager p"]
  by (simp add: player_follows_def reset_audio_counters_def stager_reset_def staged_samples_def)

lemma follows_silent:
  "player_follows True e inp p \<Longrightarrow> ps_staged (pl_stager p) = 0 \<Longrightarrow>
   heard Expression_neutral (pl_calls p) = inp"
  by (simp add: player_follows_def follows_def staged_samples_def)

section \<open>Properties\<close>

text \<open>C18: whatever the loudspeaker, the clock and the cancellation do, the sound that comes out is
  a subsequence of the sound that arrived, each sample under the expression of its own sentence:
  nothing is played twice, out of order, or under the next sentence's face.\<close>

theorem player_never_misplaces:
  assumes "has_sink ports" and "has_face ports" and "stager_wf (pl_stager p)" and "pl_calls p = []"
  shows "subseq (heard Expression_neutral
      (pl_calls (fold (player_hears ports) calls (reset_audio_counters p))))
    (labelled Expression_neutral calls)"
proof -
  let ?e = "fold (\<lambda>c e. sentence_expression e c) calls Expression_neutral"
  have "player_follows False ?e ([] @ labelled Expression_neutral calls)
      (fold (player_hears ports) calls (reset_audio_counters p))" (is "player_follows _ _ _ ?p")
    using player_ready [of p False] assms by (intro player_run_follows) simp_all
  then have "subseq (heard Expression_neutral (pl_calls ?p) @ map (Pair ?e) (staged_samples (pl_stager ?p)))
      (labelled Expression_neutral calls)"
    by (simp add: player_follows_def follows_def)
  then show ?thesis by (meson prefixI prefix_imp_subseq subseq_order.trans)
qed

text \<open>C17: when the loudspeaker keeps up, a completed turn plays exactly the sound that arrived, each
  sample under the expression of its own sentence.\<close>

theorem player_plays_everything:
  assumes "has_sink ports" and "has_face ports" and "sink_keeps_up ports"
    and "stager_wf (pl_stager p)" and "0 < ps_capacity (pl_stager p)" and "pl_calls p = []"
    and "\<forall>outcome code. On_finished outcome code \<notin> set calls"
  shows "heard Expression_neutral (pl_calls (fold (player_hears ports)
      (calls @ [On_finished Outcome_completed ErrorCode_none]) (reset_audio_counters p)))
    = labelled Expression_neutral calls"
proof -
  let ?e = "fold (\<lambda>c e. sentence_expression e c) calls Expression_neutral"
  let ?p = "fold (player_hears ports) calls (reset_audio_counters p)"
  have "player_follows True ?e ([] @ labelled Expression_neutral calls) ?p"
    using player_ready [of p True] assms by (intro player_run_follows) simp_all
  then have "player_follows True ?e (labelled Expression_neutral calls)
        (on_finished ports Outcome_completed ?p) \<and>
      ps_staged (pl_stager (on_finished ports Outcome_completed ?p)) = 0"
    using assms(1-3) by (intro on_finished_follows) simp_all
  moreover have "fold (player_hears ports) (calls @ [On_finished Outcome_completed ErrorCode_none])
      (reset_audio_counters p) = on_finished ports Outcome_completed ?p"
    by simp
  ultimately show ?thesis using follows_silent by metis
qed

definition steady_ports :: "u32 player_ports" where
  "steady_ports =
    \<lparr>has_sink = True, has_face = True, has_stage = True, sink_playing = (\<lambda>w. w = 0),
     sink_start = (\<lambda>rate w. (True, w)), sink_write = (\<lambda>xs d t w. (min 2 (length xs), w + 1)),
     clock = (\<lambda>w. (w, w + 1)), token_cancelled = (\<lambda>w. False)\<rparr>"

definition ready_player :: "u32 player" where
  "ready_player =
    \<lparr>pl_stager = stager_new (Some [0, 0, 0, 0]) 4 240, pl_received = 0, pl_played = 0, pl_peak = 0,
     pl_speaking_phase = False, pl_calls = [], pl_world = 0\<rparr>"

lemma steady_ready:
  "has_sink steady_ports" "has_face steady_ports" "sink_keeps_up steady_ports"
  "stager_wf (pl_stager ready_player)" "0 < ps_capacity (pl_stager ready_player)"
  "pl_calls ready_player = []"
  by (simp_all add: steady_ports_def ready_player_def sink_keeps_up_def stager_wf_def stager_new_def)

lemma player_never_misplaces_witness:
  "subseq (heard Expression_neutral (pl_calls (fold (player_hears steady_ports)
      [On_sentence Expression_happy ''hi'', On_audio [1, 2, 3, 4, 5], On_finished Outcome_failed ErrorCode_timeout]
      (reset_audio_counters ready_player))))
    [(Expression_happy, 1), (Expression_happy, 2), (Expression_happy, 3), (Expression_happy, 4),
     (Expression_happy, 5)]"
  using player_never_misplaces [of steady_ports ready_player "[On_sentence Expression_happy ''hi'',
    On_audio [1, 2, 3, 4, 5], On_finished Outcome_failed ErrorCode_timeout]"] steady_ready
  by simp

lemma player_plays_everything_witness:
  "heard Expression_neutral (pl_calls (fold (player_hears steady_ports)
      ([On_sentence Expression_happy ''hi'', On_audio [1, 2, 3, 4, 5], On_sentence Expression_sad ''no'',
        On_audio [6]] @ [On_finished Outcome_completed ErrorCode_none])
      (reset_audio_counters ready_player)))
    = [(Expression_happy, 1), (Expression_happy, 2), (Expression_happy, 3), (Expression_happy, 4),
       (Expression_happy, 5), (Expression_sad, 6)]"
  using player_plays_everything [of steady_ports ready_player "[On_sentence Expression_happy ''hi'',
    On_audio [1, 2, 3, 4, 5], On_sentence Expression_sad ''no'', On_audio [6]]"] steady_ready
  by simp

end
