(* ===== verification/Identity.thy ===== *)
theory Identity
  imports Access_Token Ids
begin

text \<open>
  \<open>stackchan_identity/token.cpp\<close> and the address kept by \<open>gateway_client.cpp\<close>: what the device
  keeps in NVS. The random numbers and the outcome of every write to NVS are parameters: functions
  of how many were drawn or tried before, held in the state beside the values they produce.
\<close>

section \<open>The access token\<close>

record identity_state =
  is_token :: access_token
  is_loaded :: bool
  is_new :: bool
  is_drawn :: nat
  is_writes :: nat
  is_stored :: "string list"
  is_random :: "nat \<Rightarrow> u32"
  is_write_works :: "nat \<Rightarrow> bool"

text \<open>\<open>kAlphabet\<close> of \<open>token.cpp\<close>.\<close>

definition kTokenAlphabet :: string where
  "kTokenAlphabet = ''0123456789ABCDEFGHJKMNPQRSTVWXYZ''"

definition draw :: "identity_state \<Rightarrow> string \<times> identity_state" where
  "draw st =
    (map (\<lambda>i. kTokenAlphabet ! unat (is_random st (is_drawn st + i) mod 32)) [0..<kTokenLength],
     st\<lparr>is_drawn := is_drawn st + kTokenLength\<rparr>)"

definition store :: "string \<Rightarrow> identity_state \<Rightarrow> bool \<times> identity_state" where
  "store text st =
    (let wrote = is_write_works st (is_writes st);
         st = st\<lparr>is_writes := is_writes st + 1\<rparr>
     in (wrote, if wrote then st\<lparr>is_stored := is_stored st @ [text]\<rparr> else st))"

text \<open>
  \<open>access_token()\<close>: \<open>nvs_up\<close> is whether NVS could be brought up, \<open>stored\<close> what it holds under the
  key (\<open>None\<close>: nothing that fits).
\<close>

definition access_token :: "bool \<Rightarrow> string option \<Rightarrow> identity_state \<Rightarrow> identity_state" where
  "access_token nvs_up stored st =
    (if is_loaded st then st
     else
       (let st = st\<lparr>is_loaded := True\<rparr> in
        if \<not> nvs_up then st
        else
          (let st = (case stored of
                       Some text \<Rightarrow> st\<lparr>is_token := token_from_text text\<rparr>
                     | None \<Rightarrow> st)
           in if stored \<noteq> None \<and> token_set (is_token st) then st
              else
                (let (fresh, st) = draw st;
                     (wrote, st) = store fresh st
                 in st\<lparr>is_token := token_from_text fresh, is_new := True\<rparr>))))"

definition rotate_access_token :: "bool \<Rightarrow> string option \<Rightarrow> identity_state \<Rightarrow> bool \<times> identity_state" where
  "rotate_access_token nvs_up stored st =
    (let st = access_token nvs_up stored st in
     if \<not> token_set (is_token st) then (False, st)
     else
       (let (fresh, st) = draw st;
            candidate = token_from_text fresh
        in if \<not> token_set candidate then (False, st)
           else
             (let (wrote, st) = store fresh st
              in if \<not> wrote then (False, st) else (True, st\<lparr>is_token := candidate\<rparr>))))"

lemma kTokenAlphabet_length [simp]: "length kTokenAlphabet = 32"
  by (simp add: kTokenAlphabet_def)

lemma draw_length: "draw st = (fresh, st') \<Longrightarrow> length fresh = kTokenLength"
  by (auto simp: draw_def)

lemma draw_alphabet: "draw st = (fresh, st') \<Longrightarrow> set fresh \<subseteq> set kTokenAlphabet"
proof -
  have "unat (w mod 32 :: u32) < 32" for w using unat_mod_distrib [of w 32] by simp
  then show "draw st = (fresh, st') \<Longrightarrow> set fresh \<subseteq> set kTokenAlphabet"
    by (auto simp: draw_def intro!: nth_mem)
qed

lemma draw_frame [frame_rules]: "draw st = (fresh, st') \<Longrightarrow>
  is_token st' = is_token st \<and> is_loaded st' = is_loaded st \<and> is_stored st' = is_stored st \<and>
  is_writes st' = is_writes st \<and> is_write_works st' = is_write_works st"
  by (auto simp: draw_def)

definition identity_wf :: "identity_state \<Rightarrow> bool" where
  "identity_wf st \<longleftrightarrow> token_wf (is_token st)"

lemma access_token_wf [invariant_rules]:
  "identity_wf st \<Longrightarrow> identity_wf (access_token nvs_up stored st)"
  by (auto simp: identity_wf_def access_token_def draw_def store_def Let_def token_from_text_wf
      split: option.split)

lemma rotate_wf [invariant_rules]:
  "identity_wf st \<Longrightarrow> identity_wf (snd (rotate_access_token nvs_up stored st))"
  using access_token_wf [of st nvs_up stored]
  by (auto simp: identity_wf_def rotate_access_token_def draw_def store_def Let_def token_from_text_wf)

text \<open>Once loaded, a rotation either installs a token it has stored, or changes nothing.\<close>

lemma rotate_outcome:
  assumes "is_loaded st"
  shows "case rotate_access_token nvs_up stored st of (ok, st') \<Rightarrow>
    if ok then token_set (is_token st') \<and> is_stored st' = is_stored st @ [token_text (is_token st')] \<and>
      token_wf (is_token st') \<and> set (token_text (is_token st')) \<subseteq> set kTokenAlphabet
    else is_token st' = is_token st \<and> is_stored st' = is_stored st"
proof -
  have a: "access_token nvs_up stored st = st" using assms by (simp add: access_token_def)
  obtain fresh st1 where d: "draw st = (fresh, st1)" by fastforce
  note f = draw_length [OF d] draw_alphabet [OF d] draw_frame [OF d]
  have c: "token_from_text fresh = \<lparr>token_text = fresh, token_set = True\<rparr>"
    using f(1) by (rule token_from_text_eq)
  show ?thesis
    using f by (simp add: rotate_access_token_def a d c store_def Let_def token_wf_def)
qed

text \<open>Whatever NVS does, the first use leaves a usable token, unless NVS cannot be brought up.\<close>

lemma access_token_usable:
  assumes "\<not> is_loaded st"
  shows "token_set (is_token (access_token True stored st))"
proof -
  have "token_set (token_from_text (fst (draw s)))" for s
    by (simp add: token_from_text_eq draw_def)
  then show ?thesis
    using assms by (auto simp: access_token_def store_def Let_def split_beta split: option.split)
qed

section \<open>The address of the gateway\<close>

definition kMaxUrlLength :: nat where
  "kMaxUrlLength = 120"

text \<open>\<open>c <= ' ' || c == '"'\<close>, \<open>char\<close> being unsigned on the target.\<close>

definition url_char_refused :: "char \<Rightarrow> bool" where
  "url_char_refused c \<longleftrightarrow> c \<le> CHR '' '' \<or> c = CHR 0x22"

definition gateway_url_accepted :: "string \<Rightarrow> bool" where
  "gateway_url_accepted url \<longleftrightarrow>
    \<not> (length url < 8 \<or> length url > kMaxUrlLength \<or> substr url 0 7 \<noteq> ''http://'')
    \<and> \<not> (\<exists>c\<in>set url. url_char_refused c)"

text \<open>\<open>write_works\<close>: whether opening, writing and committing the NVS entry all succeed.\<close>

definition save_gateway_url :: "bool \<Rightarrow> string \<Rightarrow> string \<Rightarrow> bool \<times> string" where
  "save_gateway_url write_works url g_url =
    (if \<not> gateway_url_accepted url then (False, g_url)
     else if write_works then (True, url) else (False, g_url))"

text \<open>A stored address survives the C string it is kept as: it has no null character.\<close>

lemma gateway_url_no_null: "gateway_url_accepted url \<Longrightarrow> CHR 0x00 \<notin> set url"
proof -
  have "url_char_refused (CHR 0x00)" by (simp add: url_char_refused_def less_eq_char_def)
  then show "gateway_url_accepted url \<Longrightarrow> CHR 0x00 \<notin> set url"
    unfolding gateway_url_accepted_def by blast
qed

section \<open>Properties\<close>


definition working_identity :: identity_state where
  "working_identity =
    \<lparr>is_token = token_from_text (replicate kTokenLength (CHR ''7'')), is_loaded = True, is_new = False,
     is_drawn = 0, is_writes = 0, is_stored = [], is_random = (\<lambda>i. 3), is_write_works = (\<lambda>i. True)\<rparr>"


end
