(* ===== verification/Gateway_Client.thy ===== *)
theory Gateway_Client
  imports Player Json_Documents Wav Identity
begin

text \<open>
  \<open>stackchan_conversation/gateway_client.cpp\<close>: one exchange with the gateway, from the request's
  body to the end of the reply's stream. The HTTP client of the vendor is a parameter: functions on
  the world the player's ports act on. Waits that only a deadline ends are recursive functions with
  fuel; running out of it is \<open>None\<close>, and a measure on the world bounds the fuel needed.
\<close>

section \<open>The client\<close>

record 'w http_ports =
  http_init :: "string \<Rightarrow> 'w \<Rightarrow> bool \<times> 'w"
  http_headers :: "(string \<times> string) list \<Rightarrow> 'w \<Rightarrow> 'w"
  http_open :: "nat \<Rightarrow> 'w \<Rightarrow> bool \<times> 'w"
  http_write :: "u8 list \<Rightarrow> 'w \<Rightarrow> int \<times> 'w"
  http_fetch :: "'w \<Rightarrow> int \<times> 'w"
  http_status :: "'w \<Rightarrow> int"
  http_read :: "nat \<Rightarrow> 'w \<Rightarrow> int \<times> string \<times> 'w"
  http_close :: "'w \<Rightarrow> 'w"
  http_eagain :: int

definition kFirstEventDeadlineMs :: u32 where
  "kFirstEventDeadlineMs = 10000"

definition kIdleDeadlineMs :: u32 where
  "kIdleDeadlineMs = 30000"

definition kMaxTextBodyBytes :: nat where
  "kMaxTextBodyBytes = 3072"

definition kChunkBytes :: nat where
  "kChunkBytes = 1024"

text \<open>\<open>load_gateway_url\<close>: what the storage has, and the address afterwards.\<close>

datatype stored_url = Url_no_namespace | Url_unreadable | Url_stored string

definition load_gateway_url :: "stored_url \<Rightarrow> string \<Rightarrow> string" where
  "load_gateway_url stored g_url =
    (case stored of Url_no_namespace \<Rightarrow> g_url | Url_unreadable \<Rightarrow> [] | Url_stored url \<Rightarrow> url)"

text \<open>What the client sees of a \<open>CString\<close>: at most 127 bytes, up to a zero.\<close>

definition c_string :: "string \<Rightarrow> string" where
  "c_string source = takeWhile (\<lambda>c. c \<noteq> CHR 0x00) (take 127 source)"

record converse_request =
  rq_pcm :: "u8 list option"
  rq_text :: string
  rq_conversation_id :: string

definition request_headers :: "string \<Rightarrow> string \<Rightarrow> string \<Rightarrow> string \<Rightarrow> bool \<Rightarrow> (string \<times> string) list" where
  "request_headers token device boot conversation_id sending_text =
    [(''X-StackChan-Token'', c_string token),
     (''X-StackChan-Device'', c_string device),
     (''X-StackChan-Boot'', c_string boot),
     (''X-StackChan-Conversation'', c_string conversation_id),
     (''Content-Type'', if sending_text then ''application/json'' else ''audio/wav''),
     (''Accept'', ''text/event-stream'')]"

definition text_body :: "string \<Rightarrow> json_writer" where
  "text_body words = end_object (member_string ''text'' words (begin_object (json_writer kMaxTextBodyBytes)))"

section \<open>A turn with its player\<close>

text \<open>The turn calls its listener while it is fed, so what the calls of one step do to the ports
  happens before the client is used again.\<close>

record 'w session =
  ss_turn :: turn
  ss_player :: "'w player"

definition ss_world :: "'w session \<Rightarrow> 'w" where
  "ss_world s = pl_world (ss_player s)"

definition with_world :: "'w \<Rightarrow> 'w session \<Rightarrow> 'w session" where
  "with_world w s = s\<lparr>ss_player := (ss_player s)\<lparr>pl_world := w\<rparr>\<rparr>"

definition turn_does :: "'w player_ports \<Rightarrow> (turn \<Rightarrow> turn) \<Rightarrow> 'w session \<Rightarrow> 'w session" where
  "turn_does ports f s =
    (let t = f (ss_turn s);
         calls = drop (length (tc_calls (tn_core (ss_turn s)))) (tc_calls (tn_core t))
     in \<lparr>ss_turn = t, ss_player = fold (player_hears ports) calls (ss_player s)\<rparr>)"

definition abort_turn :: "'w player_ports \<Rightarrow> ErrorCode \<Rightarrow> 'w session \<Rightarrow> 'w session" where
  "abort_turn ports code s = turn_does ports (turn_abort code) s"

definition ss_live :: "'w session \<Rightarrow> bool" where
  "ss_live s \<longleftrightarrow> turn_live (tn_core (ss_turn s))"

section \<open>Sending\<close>

datatype send_result = Send_broken | Send_done bool

definition send_text :: "'w http_ports \<Rightarrow> string \<Rightarrow> 'w \<Rightarrow> send_result \<times> 'w" where
  "send_text http body w =
    (let (wrote, w) = http_write http (map char_byte body) w
     in (Send_done (wrote \<noteq> int (length body)), w))"

function send_pcm :: "'w http_ports \<Rightarrow> 'w player_ports \<Rightarrow> u8 list \<Rightarrow> nat \<Rightarrow> 'w \<Rightarrow> bool \<times> 'w" where
  "send_pcm http ports pcm sent w =
    (if sent < length pcm then
       (if token_cancelled ports w then (False, w)
        else
          (let (wrote, w) = http_write http (drop sent pcm) w
           in if wrote \<le> 0 then (True, w)
              else send_pcm http ports pcm (sent + nat wrote) w))
     else (False, w))"
  by pat_completeness auto
termination
  by (relation "measure (\<lambda>(http, ports, pcm, sent, w). length pcm - sent)") auto

declare send_pcm.simps [simp del]

definition send_audio :: "'w http_ports \<Rightarrow> 'w player_ports \<Rightarrow> u8 list \<Rightarrow> 'w \<Rightarrow> send_result \<times> 'w" where
  "send_audio http ports pcm w =
    (let header = write_wav_header (word_of_nat (length pcm)) (replicate kWavHeaderBytes 0);
         (wrote, w) = http_write http header w
     in if wrote \<noteq> int kWavHeaderBytes then (Send_broken, w)
        else let (failed, w) = send_pcm http ports pcm 0 w in (Send_done failed, w))"

text \<open>The part of \<open>converse\<close> up to the response; false when the turn has been aborted.\<close>

definition converse_send ::
  "'w http_ports \<Rightarrow> 'w player_ports \<Rightarrow> converse_request \<Rightarrow> 'w session \<Rightarrow> bool \<times> 'w session" where
  "converse_send http ports request s =
    (let sending_text = rq_text request \<noteq> [];
         writer = text_body (rq_text request);
         pcm = (case rq_pcm request of None \<Rightarrow> [] | Some bytes \<Rightarrow> bytes);
         total = (if sending_text then jw_length writer else kWavHeaderBytes + length pcm)
     in if sending_text \<and> \<not> jw_valid writer
        then (False, abort_turn ports ErrorCode_invalid_argument s)
        else
          (let (opened, w) = http_open http total (ss_world s);
               s = with_world w s
           in if \<not> opened then (False, abort_turn ports ErrorCode_unavailable s)
              else
                (let (sent, w) = (if sending_text then send_text http (jw_text writer) (ss_world s)
                                  else send_audio http ports pcm (ss_world s));
                     s = with_world w s
                 in case sent of
                      Send_broken \<Rightarrow> (False, abort_turn ports ErrorCode_unavailable s)
                    | Send_done write_failed \<Rightarrow>
                        if token_cancelled ports (ss_world s)
                        then (False, abort_turn ports ErrorCode_cancelled s)
                        else if write_failed then (False, abort_turn ports ErrorCode_unavailable s)
                        else (True, s))))"

section \<open>Receiving\<close>

fun wait_headers ::
  "nat \<Rightarrow> 'w http_ports \<Rightarrow> 'w player_ports \<Rightarrow> u32 \<Rightarrow> 'w session \<Rightarrow> (int \<times> 'w session) option" where
  "wait_headers 0 http ports started s = None"
| "wait_headers (Suc fuel) http ports started s =
    (let (fetched, w) = http_fetch http (ss_world s);
         s = with_world w s
     in if fetched \<noteq> - http_eagain http then Some (fetched, s)
        else if token_cancelled ports (ss_world s)
        then Some (fetched, abort_turn ports ErrorCode_cancelled s)
        else
          (let (now, w) = clock ports (ss_world s);
               s = with_world w s
           in if now - started \<ge> kFirstEventDeadlineMs
              then Some (fetched, abort_turn ports ErrorCode_timeout s)
              else wait_headers fuel http ports started s))"

text \<open>The result is whether the other end closed the stream.\<close>

fun read_stream ::
  "nat \<Rightarrow> 'w http_ports \<Rightarrow> 'w player_ports \<Rightarrow> u32 \<Rightarrow> 'w session \<Rightarrow> (bool \<times> 'w session) option" where
  "read_stream 0 http ports last_data s = None"
| "read_stream (Suc fuel) http ports last_data s =
    (if \<not> ss_live s then Some (False, s)
     else if token_cancelled ports (ss_world s) then Some (False, abort_turn ports ErrorCode_cancelled s)
     else
       (let (got, chunk, w) = http_read http kChunkBytes (ss_world s);
            s = with_world w s
        in if got > 0 then
             (let (now, w) = clock ports (ss_world s);
                  s = turn_does ports (turn_feed (take (nat got) chunk)) (with_world w s)
              in read_stream fuel http ports now s)
           else if got = - http_eagain http then
             (let (now, w) = clock ports (ss_world s);
                  s = with_world w s
              in if now - last_data \<ge> kIdleDeadlineMs
                 then Some (False, abort_turn ports ErrorCode_timeout s)
                 else read_stream fuel http ports last_data s)
           else if got = 0 then Some (True, turn_does ports turn_finish_input s)
           else Some (False, abort_turn ports ErrorCode_unavailable s)))"

definition converse_receive ::
  "nat \<Rightarrow> 'w http_ports \<Rightarrow> 'w player_ports \<Rightarrow> 'w session \<Rightarrow> (bool \<times> 'w session) option" where
  "converse_receive fuel http ports s =
    (let (started, w) = clock ports (ss_world s)
     in case wait_headers fuel http ports started (with_world w s) of
          None \<Rightarrow> None
        | Some (fetched, s) \<Rightarrow>
            if \<not> ss_live s then Some (False, s)
            else if fetched < 0 then Some (False, abort_turn ports ErrorCode_unavailable s)
            else if http_status http (ss_world s) \<noteq> 200
            then Some (False, abort_turn ports ErrorCode_unavailable s)
            else
              (let (last_data, w) = clock ports (ss_world s)
               in case read_stream fuel http ports last_data (with_world w s) of
                    None \<Rightarrow> None
                  | Some (closed, s) \<Rightarrow>
                      Some (closed \<or> tc_outcome (tn_core (ss_turn s)) = Outcome_completed, s)))"

definition converse ::
  "nat \<Rightarrow> 'w http_ports \<Rightarrow> 'w player_ports \<Rightarrow> string \<Rightarrow> (string \<times> string) list \<Rightarrow> converse_request \<Rightarrow>
   'w session \<Rightarrow> (bool \<times> 'w session) option" where
  "converse fuel http ports url headers request s =
    (if url = [] \<or> rq_text request = [] \<and> rq_pcm request = None
     then Some (False, abort_turn ports ErrorCode_unavailable s)
     else
       (let (created, w) = http_init http (url @ ''/v1/converse'') (ss_world s);
            s = with_world w s
        in if \<not> created then Some (False, abort_turn ports ErrorCode_internal s)
           else
             (let s = with_world (http_headers http headers (ss_world s)) s;
                  (sent, s) = converse_send http ports request s
              in case (if sent then converse_receive fuel http ports s else Some (False, s)) of
                   None \<Rightarrow> None
                 | Some (transport_ok, s) \<Rightarrow>
                     Some (transport_ok, with_world (http_close http (ss_world s)) s))))"

section \<open>What one exchange keeps\<close>

text \<open>The relation between a session and what came before it: the player has followed the calls the
  turn has made, and the turn reports as a turn must.\<close>

definition session_follows :: "'w session \<Rightarrow> bool" where
  "session_follows s \<longleftrightarrow>
    core_invar (tn_core (ss_turn s)) \<and>
    player_follows False
      (fold (\<lambda>c e. sentence_expression e c) (tc_calls (tn_core (ss_turn s))) Expression_neutral)
      (labelled Expression_neutral (tc_calls (tn_core (ss_turn s)))) (ss_player s)"

text \<open>What a step of the turn does to its calls: it adds to them.\<close>

definition adds_calls :: "(turn \<Rightarrow> turn) \<Rightarrow> bool" where
  "adds_calls f \<longleftrightarrow> (\<forall>t. prefix (tc_calls (tn_core t)) (tc_calls (tn_core (f t))))"

lemma session_follows_world [simp]: "session_follows (with_world w s) = session_follows s"
  by (simp add: session_follows_def with_world_def player_follows_def)

lemma ss_live_world [simp]: "ss_live (with_world w s) = ss_live s"
  "ss_turn (with_world w s) = ss_turn s" "ss_world (with_world w s) = w"
  by (simp_all add: ss_live_def with_world_def ss_world_def)

lemma turn_does_follows:
  assumes "has_sink ports" and "has_face ports" and "adds_calls f" and "session_follows s"
    and "core_invar (tn_core (f (ss_turn s)))"
  shows "session_follows (turn_does ports f s)"
proof -
  obtain more where more: "tc_calls (tn_core (f (ss_turn s))) = tc_calls (tn_core (ss_turn s)) @ more"
    using assms(3) by (auto simp: adds_calls_def prefix_def)
  show ?thesis
    using player_run_follows [OF assms(1,2), of False more] assms(4,5)
    by (simp add: session_follows_def turn_does_def Let_def more labelled_append)
qed

section \<open>The turn only adds calls\<close>

definition grows :: "turn_core \<Rightarrow> turn_core \<Rightarrow> bool" where
  "grows t t' \<longleftrightarrow> prefix (tc_calls t) (tc_calls t')"

lemma grows_trans [trans]: "grows a b \<Longrightarrow> grows b c \<Longrightarrow> grows a c"
  by (auto simp: grows_def)

lemma grows_basic [simp]:
  "grows t t" "grows t (call c t)" "grows t (drop_event t)" "grows t (undefined_behaviour t)"
  "grows t (finish_turn outcome code t)"
  "grows t (t\<lparr>tc_segmenter := s\<rparr>)" "grows t (t\<lparr>tc_expected_seq := n\<rparr>)" "grows t (t\<lparr>tc_reported_error := e\<rparr>)"
  by (simp_all add: grows_def call_def drop_event_def undefined_behaviour_def finish_turn_def)

lemma grows_fields [simp]:
  "grows (t\<lparr>tc_segmenter := s\<rparr>) = grows t" "grows (t\<lparr>tc_expected_seq := n\<rparr>) = grows t"
  by (simp_all add: grows_def fun_eq_iff)

lemma grows_drain_loop: "grows t (drain_segments_loop n t)"
proof (induction n arbitrary: t)
  case (Suc n)
  show ?case
  proof (cases "next_segment (tc_segmenter t)")
    case (Pair seg s)
    show ?thesis
    proof (cases seg)
      case None
      then show ?thesis using Pair by simp
    next
      case (Some es)
      obtain e sentence where es: "es = (e, sentence)" by fastforce
      have "grows t (call (On_sentence e sentence) (t\<lparr>tc_segmenter := s\<rparr>))"
        by (simp add: grows_def call_def)
      from grows_trans [OF this Suc.IH] show ?thesis using Pair Some es by simp
    qed
  qed
qed simp

lemma grows_drain [simp]: "grows t (drain_segments t)"
  unfolding drain_segments_def by (rule grows_drain_loop)

lemma grows_pcm: "grows t (handle_pcm payload t)"
proof -
  let ?d = "if json_find_bool payload ''last'' = Some True
    then drain_segments (t\<lparr>tc_segmenter := speech_flush (tc_segmenter t)\<rparr>) else t"
  have "grows (t\<lparr>tc_segmenter := speech_flush (tc_segmenter t)\<rparr>)
      (drain_segments (t\<lparr>tc_segmenter := speech_flush (tc_segmenter t)\<rparr>))" by (rule grows_drain)
  then have d: "grows t ?d" by simp
  have "grows t (call c ?d)" for c by (rule grows_trans [OF d grows_basic(2)])
  with d show ?thesis by (auto simp: handle_pcm_def Let_def split: option.splits prod.splits)
qed

lemma grows_audio: "grows t (handle_audio payload t)"
proof -
  let ?s = "\<lambda>x. (t\<lparr>tc_expected_seq := tc_expected_seq t + 1\<rparr>)\<lparr>tc_segmenter := x\<rparr>"
  have fed: "grows t (handle_pcm payload (drain_segments (?s x)))" for x
    using grows_trans [OF grows_drain grows_pcm, of "?s x" payload] by simp
  have "grows t (handle_pcm payload (t\<lparr>tc_expected_seq := tc_expected_seq t + 1\<rparr>))"
    using grows_pcm [of "t\<lparr>tc_expected_seq := tc_expected_seq t + 1\<rparr>" payload] by simp
  moreover have "grows t (drop_event (t\<lparr>tc_expected_seq := tc_expected_seq t + 1\<rparr>))"
    by (simp add: grows_def drop_event_def)
  ultimately show ?thesis using fed
    by (auto simp: handle_audio_def Let_def split: option.splits integer_result.splits prod.splits)
qed

lemma grows_handlers: "grows t (handle_text payload t)" "grows t (handle_finished payload t)"
  "grows t (handle_error payload t)"
  by (auto simp: handle_text_def handle_finished_def handle_error_def Let_def split: option.split prod.split)

lemma grows_event: "grows t (handle_event data t)"
  unfolding handle_event_def
  by (simp add: grows_audio grows_handlers split: option.split integer_result.split)

lemma grows_events: "grows (tn_core t) (tn_core (handle_events n t))"
proof (induction n arbitrary: t)
  case (Suc n)
  show ?case
  proof (cases "turn_live (tn_core t)")
    case True
    obtain event r where n: "next_event (tn_sse t) = (event, r)" by fastforce
    show ?thesis
    proof (cases event)
      case None
      then show ?thesis using True n by simp
    next
      case (Some data)
      have "grows (handle_event data (tn_core t))
          (tn_core (handle_events n \<lparr>tn_core = handle_event data (tn_core t), tn_sse = r\<rparr>))"
        using Suc.IH [of "\<lparr>tn_core = handle_event data (tn_core t), tn_sse = r\<rparr>"] by simp
      from grows_trans [OF grows_event this] show ?thesis using True n Some by simp
    qed
  qed simp
qed simp

lemma turn_steps_add_calls [simp]:
  "adds_calls (turn_feed bytes)" "adds_calls turn_finish_input" "adds_calls (turn_abort code)"
proof -
  have loop: "grows (tn_core t) (tn_core (event_loop (t\<lparr>tn_sse := r\<rparr>)))" for t r
    unfolding event_loop_def using grows_events [of "t\<lparr>tn_sse := r\<rparr>"] by (simp del: handle_events.simps)
  then show "adds_calls (turn_feed bytes)" by (auto simp: adds_calls_def turn_feed_def grows_def)
  show "adds_calls turn_finish_input"
    using loop grows_trans [OF loop grows_basic(5)]
    by (auto simp: adds_calls_def turn_finish_input_def Let_def grows_def)
  show "adds_calls (turn_abort code)"
    using grows_basic(5) by (auto simp: adds_calls_def turn_abort_def grows_def)
qed

section \<open>The session follows the turn\<close>

definition has_ports :: "'w player_ports \<Rightarrow> bool" where
  "has_ports ports \<longleftrightarrow> has_sink ports \<and> has_face ports"

lemma feed_follows:
  "has_ports ports \<Longrightarrow> session_follows s \<Longrightarrow> session_follows (turn_does ports (turn_feed bytes) s)"
  by (rule turn_does_follows) (simp_all add: has_ports_def, simp add: session_follows_def turn_feed_invar)

lemma finish_follows:
  "has_ports ports \<Longrightarrow> session_follows s \<Longrightarrow> session_follows (turn_does ports turn_finish_input s)"
  by (rule turn_does_follows) (simp_all add: has_ports_def, simp add: session_follows_def turn_finish_input_invar)

lemma abort_follows:
  "has_ports ports \<Longrightarrow> code \<noteq> ErrorCode_none \<Longrightarrow> session_follows s \<Longrightarrow>
   session_follows (abort_turn ports code s)"
  unfolding abort_turn_def
  by (rule turn_does_follows) (simp_all add: has_ports_def, simp add: session_follows_def turn_abort_invar)

definition ss_ended :: "'w session \<Rightarrow> bool" where
  "ss_ended s \<longleftrightarrow> tc_undefined (tn_core (ss_turn s)) \<or> tc_outcome (tn_core (ss_turn s)) \<noteq> Outcome_running"

lemma ss_ended_iff: "ss_ended s \<longleftrightarrow> \<not> ss_live s"
  by (auto simp: ss_ended_def ss_live_def turn_live_def)

lemma ss_ended_world [simp]: "ss_ended (with_world w s) = ss_ended s"
  by (simp add: ss_ended_iff)

lemma abort_ends [simp]: "ss_ended (abort_turn ports code s)"
  by (simp add: ss_ended_def abort_turn_def turn_does_def Let_def turn_abort_def finish_turn_def call_def)

lemma abort_not_live [simp]: "\<not> ss_live (abort_turn ports code s)"
  using abort_ends unfolding ss_ended_iff .

lemma finish_ends [simp]: "ss_ended (turn_does ports turn_finish_input s)"
  using turn_finish_input_ends [of "ss_turn s"] by (simp add: ss_ended_def turn_does_def Let_def)

lemma wait_headers_follows:
  assumes "has_ports ports"
  shows "session_follows s \<Longrightarrow> wait_headers fuel http ports started s = Some (fetched, s') \<Longrightarrow> session_follows s'"
proof (induction fuel arbitrary: s)
  case (Suc fuel)
  obtain got w where f: "http_fetch http (ss_world s) = (got, w)" by fastforce
  obtain now w' where c: "clock ports w = (now, w')" by fastforce
  show ?case
    using Suc.prems f c abort_follows [OF assms] Suc.IH [of "with_world w' (with_world w s)"]
    by (auto simp: Let_def split: if_splits)
qed simp

lemma read_stream_follows:
  assumes "has_ports ports"
  shows "session_follows s \<Longrightarrow> read_stream fuel http ports last_data s = Some (closed, s') \<Longrightarrow>
    session_follows s' \<and> ss_ended s'"
proof (induction fuel arbitrary: s last_data)
  case (Suc fuel)
  obtain got chunk w where r: "http_read http kChunkBytes (ss_world s) = (got, chunk, w)" by (metis surj_pair)
  obtain now w' where c: "clock ports w = (now, w')" by fastforce
  let ?fed = "turn_does ports (turn_feed (take (nat got) chunk)) (with_world w' (with_world w s))"
  have fed: "session_follows ?fed" using Suc.prems(1) by (intro feed_follows [OF assms]) simp
  show ?case
  proof (cases "\<not> ss_live s \<or> token_cancelled ports (ss_world s)")
    case True
    then show ?thesis
      using Suc.prems abort_follows [OF assms] by (auto simp: ss_ended_iff [of s'] split: if_splits)
  next
    case False
    consider "got > 0" | "got \<le> 0" "got = - http_eagain http" | "got \<noteq> - http_eagain http" "got = 0"
      | "got < 0" "got \<noteq> - http_eagain http" by linarith
    then show ?thesis
    proof cases
      case 1
      then have "read_stream fuel http ports now ?fed = Some (closed, s')" using Suc.prems(2) False r c by simp
      from Suc.IH [OF fed this] show ?thesis .
    next
      case 2
      then show ?thesis
        using Suc.prems False r c abort_follows [OF assms]
          Suc.IH [of "with_world w' (with_world w s)" last_data]
        by (auto simp: Let_def split: if_splits)
    next
      case 3
      then show ?thesis
        using Suc.prems False r finish_follows [OF assms] by auto
    next
      case 4
      then show ?thesis
        using Suc.prems False r abort_follows [OF assms] by auto
    qed
  qed
qed simp

lemma converse_send_follows:
  assumes "has_ports ports" and "session_follows s" and "converse_send http ports request s = (sent, s')"
  shows "session_follows s' \<and> (sent \<or> ss_ended s')"
  using assms(2,3) abort_follows [OF assms(1)]
  by (auto simp: converse_send_def Let_def split: prod.splits if_splits send_result.splits)

lemma converse_receive_follows:
  assumes "has_ports ports" and "session_follows s" and "converse_receive fuel http ports s = Some (ok, s')"
  shows "session_follows s' \<and> ss_ended s'"
proof -
  obtain started w where c: "clock ports (ss_world s) = (started, w)" by fastforce
  obtain fetched s1 where h: "wait_headers fuel http ports started (with_world w s) = Some (fetched, s1)"
    using assms(3) c by (auto simp: converse_receive_def split: option.splits)
  have s1: "session_follows s1" using wait_headers_follows [OF assms(1) _ h] assms(2) by simp
  obtain last_data w' where c': "clock ports (ss_world s1) = (last_data, w')" by fastforce
  show ?thesis
  proof (cases "ss_live s1 \<and> fetched \<ge> 0 \<and> http_status http (ss_world s1) = 200")
    case True
    then obtain closed where "read_stream fuel http ports last_data (with_world w' s1) = Some (closed, s')"
      using assms(3) c h c' by (auto simp: converse_receive_def split: option.splits)
    from read_stream_follows [OF assms(1) _ this] s1 show ?thesis by simp
  next
    case False
    then show ?thesis
      using assms(3) c h s1 abort_follows [OF assms(1)]
      by (auto simp: converse_receive_def ss_ended_iff [of s'] split: if_splits)
  qed
qed

lemma converse_follows:
  assumes "has_ports ports" and "session_follows s"
    and "converse fuel http ports url headers request s = Some (ok, s')"
  shows "session_follows s' \<and> ss_ended s'"
proof (cases "url = [] \<or> rq_text request = [] \<and> rq_pcm request = None")
  case True
  then show ?thesis
    using assms(2,3) abort_follows [OF assms(1)] by (auto simp: converse_def)
next
  case False
  obtain created w where i: "http_init http (url @ ''/v1/converse'') (ss_world s) = (created, w)" by fastforce
  let ?s = "with_world (http_headers http headers w) (with_world w s)"
  obtain sent s1 where sent: "converse_send http ports request ?s = (sent, s1)" by fastforce
  have s1: "session_follows s1 \<and> (sent \<or> ss_ended s1)"
    using converse_send_follows [OF assms(1) _ sent] assms(2) by simp
  show ?thesis
  proof (cases created)
    case True
    then obtain ok' s2 where "(if sent then converse_receive fuel http ports s1 else Some (False, s1)) = Some (ok', s2)"
      "s' = with_world (http_close http (ss_world s2)) s2"
      using assms(3) False i sent by (auto simp: converse_def Let_def split: option.splits)
    then show ?thesis using s1 converse_receive_follows [OF assms(1)] by (auto split: if_splits)
  next
    case c: False
    then show ?thesis
      using assms(2,3) False i abort_follows [OF assms(1)] by (auto simp: converse_def)
  qed
qed

section \<open>Fuel\<close>

text \<open>A measure on the world that the player's ports never raise.\<close>

definition never_raises :: "('w \<Rightarrow> nat) \<Rightarrow> 'w player_ports \<Rightarrow> bool" where
  "never_raises m ports \<longleftrightarrow>
    (\<forall>w. m (snd (clock ports w)) \<le> m w) \<and> (\<forall>r w. m (snd (sink_start ports r w)) \<le> m w) \<and>
    (\<forall>xs d t w. m (snd (sink_write ports xs d t w)) \<le> m w)"

lemma write_all_measure: "never_raises m ports \<Longrightarrow> m (snd (snd (write_all ports xs w))) \<le> m w"
proof (induction ports xs w rule: write_all.induct)
  case (1 ports xs w)
  obtain t w1 where c: "clock ports w = (t, w1)" by fastforce
  obtain wrote w2 where k: "sink_write ports xs (after t 1000) t w1 = (wrote, w2)" by fastforce
  have w2: "m w2 \<le> m w"
    using 1(2) c k by (auto simp: never_raises_def) (metis order_trans snd_conv)
  show ?case
  proof (cases "xs = [] \<or> token_cancelled ports w \<or> wrote = 0")
    case True
    then show ?thesis using c k w2 by (auto simp: write_all.simps [of ports xs])
  next
    case False
    then have "m (snd (snd (write_all ports (drop wrote xs) w2))) \<le> m w2"
      using 1(1) [OF _ _ c [symmetric] refl k [symmetric]] 1(2) by simp
    with False w2 show ?thesis
      using c k by (simp add: write_all.simps [of ports xs] split_beta)
  qed
qed

lemma player_flushed_measure:
  "never_raises m ports \<Longrightarrow> m (pl_world (player_flushed ports p)) \<le> m (pl_world p)"
  by (auto simp: player_flushed_def never_raises_def split_beta)

lemma speak_measure:
  assumes "never_raises m ports"
  shows "m (pl_world (speak ports n p)) \<le> m (pl_world p)"
proof (cases "n = 0 \<or> \<not> has_sink ports")
  case False
  obtain ready w where r: "ensure_playing ports (pl_world p) = (ready, w)" by fastforce
  have w: "m w \<le> m (pl_world p)"
    using assms r by (auto simp: ensure_playing_def never_raises_def split: if_splits) (metis snd_conv)
  obtain written calls w' where a: "write_all ports (take n (ps_stage (pl_stager p))) w = (written, calls, w')"
    by (metis surj_pair)
  have "m w' \<le> m w" using write_all_measure [OF assms, of "take n (ps_stage (pl_stager p))" w] a by simp
  with w have w': "m w' \<le> m (pl_world p)" by simp
  have flushed: "m (pl_world (player_flushed ports q)) \<le> m (pl_world p)" if "m (pl_world q) \<le> m (pl_world p)" for q
    using player_flushed_measure [OF assms, of q] that by simp
  show ?thesis
    using False r a by (auto simp: speak_def w w' intro: flushed)
qed (auto simp: speak_def)

lemma audio_loop_measure:
  "never_raises m ports \<Longrightarrow> m (pl_world (audio_loop ports rest p)) \<le> m (pl_world p)"
proof (induction ports rest p rule: audio_loop.induct)
  case (1 ports rest p)
  obtain taken stager where a: "accept (Some rest) (pl_stager p) = (taken, stager)" by fastforce
  let ?p1 = "p\<lparr>pl_stager := stager\<rparr>"
  let ?p2 = "speak ports (ps_staged (pl_stager ?p1)) ?p1"
  have p2: "m (pl_world ?p2) \<le> m (pl_world p)" using speak_measure [OF 1(3), of _ ?p1] by simp
  consider "rest = []" | "rest \<noteq> []" "taken \<noteq> 0"
    | "rest \<noteq> []" "taken = 0" "ps_staged (pl_stager ?p1) = 0 \<or> ps_staged (pl_stager ?p2) \<noteq> 0"
    | "rest \<noteq> []" "taken = 0" "\<not> (ps_staged (pl_stager ?p1) = 0 \<or> ps_staged (pl_stager ?p2) \<noteq> 0)"
    by blast
  then show ?case
  proof cases
    case 1
    then show ?thesis by (simp add: audio_loop.simps [of ports "[]"])
  next
    case 2
    then have "m (pl_world (audio_loop ports (drop taken rest) ?p1)) \<le> m (pl_world ?p1)"
      using 1(1) [OF _ a [symmetric] refl] 1(3) by simp
    then show ?thesis using 2 a by (simp add: audio_loop.simps [of ports rest])
  next
    case 3
    then show ?thesis using a p2 by (simp add: audio_loop.simps [of ports rest])
  next
    case 4
    then have "m (pl_world (audio_loop ports rest ?p2)) \<le> m (pl_world ?p2)"
      using 1(2) [OF _ a [symmetric] refl] 1(3) by simp
    moreover have "audio_loop ports rest p = audio_loop ports rest ?p2"
      using 4 a by (subst audio_loop.simps) simp
    ultimately show ?thesis using p2 by simp
  qed
qed

lemma player_hears_measure:
  assumes "never_raises m ports"
  shows "m (pl_world (player_hears ports c p)) \<le> m (pl_world p)"
proof -
  have speak: "m (pl_world (speak ports n (p\<lparr>pl_stager := q\<rparr>))) \<le> m (pl_world p)" for n q
    using speak_measure [OF assms, of n "p\<lparr>pl_stager := q\<rparr>"] by simp
  have loop: "m (pl_world (audio_loop ports xs (p\<lparr>pl_peak := k, pl_received := r\<rparr>))) \<le> m (pl_world p)" for xs k r
    using audio_loop_measure [OF assms, of xs "p\<lparr>pl_peak := k, pl_received := r\<rparr>"] by simp
  show ?thesis
    by (cases c) (simp_all add: on_sentence_def on_finished_def on_audio_def split_beta speak loop)
qed

lemma player_run_measure:
  "never_raises m ports \<Longrightarrow> m (pl_world (fold (player_hears ports) cs p)) \<le> m (pl_world p)"
proof (induction cs arbitrary: p)
  case (Cons c cs)
  then show ?case using player_hears_measure [OF Cons.prems, of c p] by (simp add: order_trans [OF Cons.IH])
qed simp

lemma turn_does_measure: "never_raises m ports \<Longrightarrow> m (ss_world (turn_does ports f s)) \<le> m (ss_world s)"
  by (simp add: ss_world_def turn_does_def Let_def player_run_measure)

lemma abort_measure: "never_raises m ports \<Longrightarrow> m (ss_world (abort_turn ports code s)) \<le> m (ss_world s)"
  unfolding abort_turn_def by (rule turn_does_measure)

text \<open>Nor does the client raise it: first the calls that send, then all of them.\<close>

definition sending_calm :: "('w \<Rightarrow> nat) \<Rightarrow> 'w http_ports \<Rightarrow> bool" where
  "sending_calm m http \<longleftrightarrow>
    (\<forall>url w. m (snd (http_init http url w)) \<le> m w) \<and> (\<forall>headers w. m (http_headers http headers w) \<le> m w) \<and>
    (\<forall>n w. m (snd (http_open http n w)) \<le> m w) \<and> (\<forall>bytes w. m (snd (http_write http bytes w)) \<le> m w)"

definition http_calm :: "('w \<Rightarrow> nat) \<Rightarrow> 'w http_ports \<Rightarrow> bool" where
  "http_calm m http \<longleftrightarrow> sending_calm m http \<and> (\<forall>w. m (snd (http_fetch http w)) \<le> m w) \<and>
    (\<forall>n w. m (snd (snd (http_read http n w))) \<le> m w) \<and> (\<forall>w. m (http_close http w) \<le> m w)"

text \<open>A measure on the world that shows that the other end does not keep the client waiting, or fed,
  forever: every wait that is answered with nothing yet, and every piece of data, lowers it, and
  nothing raises it.\<close>

definition stream_ends :: "('w \<Rightarrow> nat) \<Rightarrow> 'w http_ports \<Rightarrow> 'w player_ports \<Rightarrow> bool" where
  "stream_ends m http ports \<longleftrightarrow> never_raises m ports \<and> sending_calm m http \<and>
    (\<forall>w. m (snd (http_fetch http w)) \<le> m w) \<and>
    (\<forall>w. fst (http_fetch http w) = - http_eagain http \<longrightarrow> m (snd (http_fetch http w)) < m w) \<and>
    (\<forall>n w. fst (http_read http n w) > 0 \<or> fst (http_read http n w) = - http_eagain http \<longrightarrow>
       m (snd (snd (http_read http n w))) < m w)"

lemma wait_headers_returns:
  assumes "stream_ends m http ports"
  shows "m (ss_world s) < fuel \<Longrightarrow>
    \<exists>fetched s'. wait_headers fuel http ports started s = Some (fetched, s') \<and> m (ss_world s') \<le> m (ss_world s)"
proof (induction fuel arbitrary: s)
  case (Suc fuel)
  obtain fetched w where f: "http_fetch http (ss_world s) = (fetched, w)" by fastforce
  obtain now w' where c: "clock ports w = (now, w')" by fastforce
  have n: "never_raises m ports" and w: "m w \<le> m (ss_world s)"
    and less: "fetched = - http_eagain http \<Longrightarrow> m w < m (ss_world s)"
    using assms f by (simp_all add: stream_ends_def) (metis fst_conv snd_conv)+
  have w': "m w' \<le> m w" using n c by (simp add: never_raises_def) (metis snd_conv)
  have abort: "m (ss_world (abort_turn ports code q)) \<le> m (ss_world s)" if "m (ss_world q) \<le> m (ss_world s)" for code q
    using abort_measure [OF n, of code q] that by simp
  show ?case
  proof (cases "fetched = - http_eagain http \<and> \<not> token_cancelled ports w \<and> \<not> now - started \<ge> kFirstEventDeadlineMs")
    case True
    then have "m (ss_world (with_world w' (with_world w s))) < fuel" using less w' Suc.prems by simp
    from Suc.IH [OF this] obtain r s' where
      "wait_headers fuel http ports started (with_world w' (with_world w s)) = Some (r, s')"
      "m (ss_world s') \<le> m w'" by auto
    with True show ?thesis using f c w w' by (simp add: Let_def)
  next
    case False
    then show ?thesis using f c w w' by (auto simp: Let_def intro: abort)
  qed
qed simp

lemma read_stream_returns:
  assumes "stream_ends m http ports"
  shows "m (ss_world s) < fuel \<Longrightarrow> read_stream fuel http ports last_data s \<noteq> None"
proof (induction fuel arbitrary: s last_data)
  case (Suc fuel)
  obtain got chunk w where r: "http_read http kChunkBytes (ss_world s) = (got, chunk, w)" by (metis surj_pair)
  obtain now w' where c: "clock ports w = (now, w')" by fastforce
  let ?s = "with_world w' (with_world w s)"
  let ?fed = "turn_does ports (turn_feed (take (nat got) chunk)) ?s"
  have n: "never_raises m ports"
    and less: "0 < got \<or> got = - http_eagain http \<Longrightarrow> m w < m (ss_world s)"
    using assms r by (simp_all add: stream_ends_def) (metis fst_conv snd_conv)+
  have w': "m w' \<le> m w" using n c by (simp add: never_raises_def) (metis snd_conv)
  show ?case
  proof (cases "ss_live s \<and> \<not> token_cancelled ports (ss_world s) \<and> (0 < got \<or> got = - http_eagain http)")
    case True
    with less w' Suc.prems have m: "m w' < fuel" by simp
    then have "m (ss_world ?fed) < fuel" using turn_does_measure [OF n, of "turn_feed (take (nat got) chunk)" ?s] by simp
    from Suc.IH [OF this] Suc.IH [of ?s] m True show ?thesis using r c by (simp add: Let_def del: not_None_eq)
  next
    case False
    then show ?thesis using r by (auto simp: Let_def simp del: not_None_eq)
  qed
qed simp

lemma send_pcm_measure:
  assumes "sending_calm m http"
  shows "m (snd (send_pcm http ports pcm sent w)) \<le> m w"
  using assms
proof (induction http ports pcm sent w rule: send_pcm.induct)
  case (1 http ports pcm sent w)
  obtain wrote w' where k: "http_write http (drop sent pcm) w = (wrote, w')" by fastforce
  have w': "m w' \<le> m w" using 1(2) k by (simp add: sending_calm_def) (metis snd_conv)
  show ?case
  proof (cases "sent < length pcm \<and> \<not> token_cancelled ports w \<and> 0 < wrote")
    case True
    then have "m (snd (send_pcm http ports pcm (sent + nat wrote) w')) \<le> m w'"
      using 1(1) [OF _ _ k [symmetric] refl] 1(2) by simp
    with True w' k show ?thesis by (subst send_pcm.simps) simp
  next
    case False
    with w' k show ?thesis by (subst send_pcm.simps) auto
  qed
qed

lemma converse_send_measure:
  assumes n: "never_raises m ports" and "sending_calm m http" and "converse_send http ports request s = (sent, s')"
  shows "m (ss_world s') \<le> m (ss_world s)"
proof -
  have abort: "m (ss_world (abort_turn ports code q)) \<le> m (ss_world s)" if "m (ss_world q) \<le> m (ss_world s)" for code q
    using abort_measure [OF n, of code q] that by simp
  have wrote: "m w' \<le> m w" if "http_write http bytes w = (k, w')" for bytes k w w'
    using assms(2) that by (simp add: sending_calm_def) (metis snd_conv)
  have text_m: "m (snd (send_text http body w)) \<le> m w" for body w
    using wrote by (simp add: send_text_def split: prod.split)
  have audio_m: "m (snd (send_audio http ports pcm w)) \<le> m w" for pcm w
    using send_pcm_measure [OF assms(2), where pcm = pcm and sent = 0 and ports = ports] wrote
    by (auto simp: send_audio_def Let_def split: prod.split intro: order_trans) (metis order_trans snd_conv)
  have open_m: "m (snd (http_open http k w)) \<le> m w" for k w
    using assms(2) by (simp add: sending_calm_def)
  have words: "m w2 \<le> m w" if "http_open http k w = (opened, w1)" "send_text http body w1 = (r, w2)"
    for body k w w1 w2 r opened
    using text_m [of body w1] open_m [of k w] that by simp
  have audio: "m w2 \<le> m w" if "http_open http k w = (opened, w1)" "send_audio http ports pcm w1 = (r, w2)"
    for pcm k w w1 w2 r opened
    using audio_m [of pcm w1] open_m [of k w] that by simp
  have opened: "m w1 \<le> m w" if "http_open http k w = (opened, w1)" for k w w1 opened
    using assms(2) that by (simp add: sending_calm_def) (metis snd_conv)
  show ?thesis
    using assms(3)
    by (auto simp: converse_send_def Let_def split: prod.splits if_splits send_result.splits
        intro!: abort dest: words audio opened)
qed

text \<open>Once the other end must come to an end, enough fuel gives the result.\<close>

lemma converse_receive_returns:
  assumes "stream_ends m http ports" and "m (ss_world s) < fuel"
  shows "converse_receive fuel http ports s \<noteq> None"
proof -
  have n: "never_raises m ports" using assms(1) by (simp add: stream_ends_def)
  have clock: "m w' \<le> m w" if "clock ports w = (t, w')" for w w' t
    using n that by (simp add: never_raises_def) (metis snd_conv)
  obtain started w where c: "clock ports (ss_world s) = (started, w)" by fastforce
  have "m (ss_world (with_world w s)) < fuel" using clock [OF c] assms(2) by simp
  from wait_headers_returns [OF assms(1) this, of started] obtain fetched s1 where
    h: "wait_headers fuel http ports started (with_world w s) = Some (fetched, s1)" "m (ss_world s1) \<le> m w"
    by auto
  obtain last_data w' where c': "clock ports (ss_world s1) = (last_data, w')" by fastforce
  have "m (ss_world (with_world w' s1)) < fuel" using clock [OF c] clock [OF c'] h(2) assms(2) by simp
  from read_stream_returns [OF assms(1) this, of last_data] show ?thesis
    using c h c' by (auto simp: converse_receive_def split: option.split)
qed

lemma converse_returns:
  assumes "stream_ends m http ports" and "m (ss_world s) < fuel"
  shows "converse fuel http ports url headers request s \<noteq> None"
proof -
  obtain created w where i: "http_init http (url @ ''/v1/converse'') (ss_world s) = (created, w)" by fastforce
  let ?s = "with_world (http_headers http headers w) (with_world w s)"
  obtain sent s1 where sent: "converse_send http ports request ?s = (sent, s1)" by fastforce
  have n: "never_raises m ports" "sending_calm m http" using assms(1) by (simp_all add: stream_ends_def)
  have "m w \<le> m (ss_world s)" using n(2) i by (simp add: sending_calm_def) (metis snd_conv)
  moreover have "m (http_headers http headers w) \<le> m w" using n(2) by (simp add: sending_calm_def)
  moreover have "m (ss_world s1) \<le> m (ss_world ?s)" by (rule converse_send_measure [OF n sent])
  ultimately have "m (ss_world s1) < fuel" using assms(2) by simp
  from converse_receive_returns [OF assms(1) this] obtain r where
    "converse_receive fuel http ports s1 = Some r" by blast
  then show ?thesis
    using i sent by (cases r) (auto simp: converse_def Let_def)
qed

text \<open>Whatever the result, an exchange raises nothing that the ports and the client do not.\<close>

lemma wait_headers_measure:
  assumes n: "never_raises m ports" and "http_calm m http"
  shows "wait_headers fuel http ports started s = Some (fetched, s') \<Longrightarrow> m (ss_world s') \<le> m (ss_world s)"
proof (induction fuel arbitrary: s)
  case (Suc fuel)
  obtain got w where f: "http_fetch http (ss_world s) = (got, w)" by fastforce
  obtain now w' where c: "clock ports w = (now, w')" by fastforce
  have w: "m w \<le> m (ss_world s)" using assms(2) f by (simp add: http_calm_def) (metis snd_conv)
  have w': "m w' \<le> m w" using n c by (simp add: never_raises_def) (metis snd_conv)
  have abort: "m (ss_world (abort_turn ports code q)) \<le> m (ss_world s)" if "m (ss_world q) \<le> m (ss_world s)" for code q
    using abort_measure [OF n, of code q] that by simp
  show ?case
    using Suc.prems Suc.IH [of "with_world w' (with_world w s)"] f c w w'
    by (auto simp: Let_def intro: abort split: if_splits)
qed simp

lemma read_stream_measure:
  assumes n: "never_raises m ports" and "http_calm m http"
  shows "read_stream fuel http ports last_data s = Some (closed, s') \<Longrightarrow> m (ss_world s') \<le> m (ss_world s)"
proof (induction fuel arbitrary: s last_data)
  case (Suc fuel)
  obtain got chunk w where r: "http_read http kChunkBytes (ss_world s) = (got, chunk, w)" by (metis surj_pair)
  obtain now w' where c: "clock ports w = (now, w')" by fastforce
  let ?s = "with_world w' (with_world w s)"
  let ?fed = "turn_does ports (turn_feed (take (nat got) chunk)) ?s"
  have w: "m w \<le> m (ss_world s)" using assms(2) r by (simp add: http_calm_def) (metis snd_conv)
  have w': "m w' \<le> m w" using n c by (simp add: never_raises_def) (metis snd_conv)
  have does: "m (ss_world (turn_does ports f q)) \<le> m (ss_world s)" if "m (ss_world q) \<le> m (ss_world s)" for f q
    using turn_does_measure [OF n, of f q] that by simp
  have abort: "m (ss_world (abort_turn ports code q)) \<le> m (ss_world s)" if "m (ss_world q) \<le> m (ss_world s)" for code q
    unfolding abort_turn_def by (rule does [OF that])
  have fed: "m (ss_world ?fed) \<le> m (ss_world s)" using w w' by (intro does) simp
  show ?case
    using Suc.prems Suc.IH [of now ?fed] Suc.IH [of last_data ?s] r c w w' fed
    by (auto simp: Let_def intro: abort does split: if_splits)
qed simp

lemma converse_measure:
  assumes n: "never_raises m ports" and h: "http_calm m http"
    and "converse fuel http ports url headers request s = Some (ok, s')"
  shows "m (ss_world s') \<le> m (ss_world s)"
proof -
  have calm: "sending_calm m http" and close: "m (http_close http w) \<le> m w" for w
    using h by (simp_all add: http_calm_def)
  have abort: "m (ss_world (abort_turn ports code q)) \<le> m (ss_world s)" if "m (ss_world q) \<le> m (ss_world s)" for code q
    using abort_measure [OF n, of code q] that by simp
  have clock: "m w' \<le> m w" if "clock ports w = (t, w')" for w w' t
    using n that by (simp add: never_raises_def) (metis snd_conv)
  have received: "m (ss_world q') \<le> m (ss_world q)" if got: "converse_receive fuel http ports q = Some (r, q')" for q r q'
  proof -
    obtain started w where c: "clock ports (ss_world q) = (started, w)" by fastforce
    obtain fetched q1 where h1: "wait_headers fuel http ports started (with_world w q) = Some (fetched, q1)"
      using got c by (cases "wait_headers fuel http ports started (with_world w q)") (auto simp: converse_receive_def)
    obtain last_data w' where c': "clock ports (ss_world q1) = (last_data, w')" by fastforce
    have q1: "m (ss_world q1) \<le> m (ss_world q)"
      using wait_headers_measure [OF n h h1] clock [OF c] by simp
    have w': "m w' \<le> m (ss_world q)" using clock [OF c'] q1 by simp
    have "m (ss_world (abort_turn ports code q1)) \<le> m (ss_world q)" for code
      using abort_measure [OF n, of code q1] q1 by simp
    moreover have "m (ss_world q2) \<le> m (ss_world q)"
      if "read_stream fuel http ports last_data (with_world w' q1) = Some (closed, q2)" for closed q2
      using read_stream_measure [OF n h that] w' by simp
    ultimately show ?thesis
      using got c h1 c' q1 by (auto simp: converse_receive_def split: option.splits if_splits)
  qed
  obtain created w where i: "http_init http (url @ ''/v1/converse'') (ss_world s) = (created, w)" by fastforce
  let ?s = "with_world (http_headers http headers w) (with_world w s)"
  obtain sent s1 where sent: "converse_send http ports request ?s = (sent, s1)" by fastforce
  have w: "m w \<le> m (ss_world s)" using calm i by (simp add: sending_calm_def) (metis snd_conv)
  moreover have "m (http_headers http headers w) \<le> m w" using calm by (simp add: sending_calm_def)
  ultimately have s1: "m (ss_world s1) \<le> m (ss_world s)" using converse_send_measure [OF n calm sent] by simp
  have "m (http_close http (ss_world q)) \<le> m (ss_world s)" if "converse_receive fuel http ports s1 = Some (r, q)" for r q
    using received [OF that] close [of "ss_world q"] s1 by simp
  moreover have "m (http_close http (ss_world s1)) \<le> m (ss_world s)" using close [of "ss_world s1"] s1 by simp
  ultimately show ?thesis
    using assms(3) i sent w by (auto simp: converse_def Let_def intro: abort split: if_splits option.splits)
qed

section \<open>The words always fit\<close>

lemma text_body_writes: "text_body words = write_json (JObject [(''text'', JText words)]) (json_writer kMaxTextBodyBytes)"
  by (simp add: text_body_def begin_object_def end_object_def member_string_def)

text \<open>Words of at most 480 bytes, the most that a turn takes, always fit the request's body, whatever
  they are: the body is the one JSON object that holds them.\<close>
lemma text_body_fits:
  assumes "length words \<le> 480"
  shows "jw_valid (text_body words) \<and> jvalue True 1 (jw_text (text_body words)) \<and>
    jw_text (text_body words) = CHR 0x7B # quoted ''text'' @ '':'' @ quoted words @ [CHR 0x7D]"
proof -
  let ?j = "JObject [(''text'', JText words)]"
  have render: "render ?j = CHR 0x7B # quoted ''text'' @ '':'' @ quoted words @ [CHR 0x7D]" by simp
  have "length (escape words) \<le> 2880" using escape_length [of words] assms by simp
  then have valid: "jw_valid (text_body words)"
    unfolding text_body_writes write_json_exact
    by (simp add: render quoted_def kMaxTextBodyBytes_def kMaxDepth_def escape_def escape_char_def)
  moreover have "tree_ok True 1 ?j" by (simp add: key_ok_def)
  ultimately show ?thesis
    using valid_document [of True 1 ?j kMaxTextBodyBytes] write_json_exact(2) [of ?j kMaxTextBodyBytes]
    by (simp add: text_body_writes render del: render.simps)
qed

section \<open>Properties\<close>

lemma fresh_session_follows:
  assumes "stager_wf (pl_stager p)" and "pl_calls p = []"
  shows "session_follows \<lparr>ss_turn = conversation_turn, ss_player = reset_audio_counters p\<rparr>"
proof -
  have "player_follows False Expression_neutral [] (reset_audio_counters p)"
    by (rule player_ready) (use assms in simp_all)
  moreover have "tc_calls (tn_core conversation_turn) = []" by (simp add: conversation_turn_def)
  ultimately show ?thesis by (simp add: session_follows_def conversation_turn_invar)
qed



text \<open>A gateway that answers with a few blocks and closes.\<close>

definition scripted_http :: "string list http_ports" where
  "scripted_http =
    \<lparr>http_init = (\<lambda>url w. (True, w)), http_headers = (\<lambda>headers w. w), http_open = (\<lambda>total w. (True, w)),
     http_write = (\<lambda>bytes w. (int (length bytes), w)), http_fetch = (\<lambda>w. (0, w)), http_status = (\<lambda>w. 200),
     http_read = (\<lambda>n w. case w of [] \<Rightarrow> (0, [], []) | chunk # rest \<Rightarrow> (int (length chunk), chunk, rest)),
     http_close = (\<lambda>w. w), http_eagain = 28679\<rparr>"

definition willing_ports :: "string list player_ports" where
  "willing_ports =
    \<lparr>has_sink = True, has_face = True, has_stage = True, sink_playing = (\<lambda>w. True),
     sink_start = (\<lambda>rate w. (True, w)), sink_write = (\<lambda>xs d t w. (length xs, w)),
     clock = (\<lambda>w. (0, w)), token_cancelled = (\<lambda>w. False)\<rparr>"

definition scripted_player :: "string list \<Rightarrow> string list player" where
  "scripted_player script =
    \<lparr>pl_stager = stager_new (Some [0, 0, 0, 0]) 4 240, pl_received = 0, pl_played = 0, pl_peak = 0,
     pl_speaking_phase = False, pl_calls = [], pl_world = script\<rparr>"

lemma scripted_ends: "stream_ends length scripted_http willing_ports"
  by (auto simp: stream_ends_def sending_calm_def never_raises_def scripted_http_def willing_ports_def split: list.split)


end
