(* ===== verification/Conversation_Task.thy ===== *)
theory Conversation_Task
  imports Gateway_Client Scan_Params Device_State Cancel_Source Ids
begin

text \<open>
  \<open>stackchan_conversation/task.cpp\<close> around its \<open>Player\<close>: how a conversation is asked for, recorded,
  carried out and wound down. The microphone, the delay and the owner of the cancellation are
  parameters, as the speaker and the HTTP client are; they all act on one world.
\<close>

section \<open>State\<close>

record 'w task_ports =
  tk_player :: "'w player_ports"
  source_start :: "'w \<Rightarrow> bool \<times> 'w"
  source_read :: "nat \<Rightarrow> deadline \<Rightarrow> u32 \<Rightarrow> 'w \<Rightarrow> sample list \<times> 'w"
  source_stop :: "'w \<Rightarrow> 'w"
  sink_stop :: "'w \<Rightarrow> 'w"
  task_delay :: "u32 \<Rightarrow> 'w \<Rightarrow> 'w"
  cancel_reason :: "'w \<Rightarrow> CancelReason"
  cancel_reset :: "'w \<Rightarrow> 'w"

definition kListenMs :: u32 where
  "kListenMs = 3000"

definition kCaptureSamples :: nat where
  "kCaptureSamples = unat (Player.kSampleRate * kListenMs div 1000)"

definition kCaptureSlice :: nat where
  "kCaptureSlice = 1600"

definition kStageSamples :: nat where
  "kStageSamples = unat Player.kSampleRate * 12"

definition kSinkDepthMs :: u32 where
  "kSinkDepthMs = 240"

definition kMaxSpokenTextBytes :: nat where
  "kMaxSpokenTextBytes = kMaxConversationStartTextBytes"

text \<open>The file's globals. \<open>ct_spoken\<close> is the buffer up to the zero behind the words put there,
  \<open>ct_capture\<close> and \<open>ct_stage\<close> whether the two buffers are held; the identifier generator is made at
  its first use.\<close>

record 'w conversation_task =
  ct_running :: bool
  ct_phase :: ConversationPhase
  ct_spoken :: string
  ct_notified :: bool
  ct_capture :: bool
  ct_stage :: bool
  ct_completed :: u32
  ct_cancelled :: u32
  ct_failed :: u32
  ct_ids :: "id_generator option"
  ct_player :: "'w player"

definition conversation_task :: "'w player \<Rightarrow> 'w conversation_task" where
  "conversation_task player =
    \<lparr>ct_running = False, ct_phase = ConversationPhase_idle, ct_spoken = [], ct_notified = False,
     ct_capture = False, ct_stage = False, ct_completed = 0, ct_cancelled = 0, ct_failed = 0,
     ct_ids = None, ct_player = player\<rparr>"

definition ct_world :: "'w conversation_task \<Rightarrow> 'w" where
  "ct_world t = pl_world (ct_player t)"

definition at_world :: "'w \<Rightarrow> 'w conversation_task \<Rightarrow> 'w conversation_task" where
  "at_world w t = t\<lparr>ct_player := (ct_player t)\<lparr>pl_world := w\<rparr>\<rparr>"

section \<open>Starting\<close>

text \<open>\<open>begin\<close>: whether the ports are there, whether each buffer could be had and whether the task
  could be made are arguments. The stager and its player are new.\<close>

definition task_begin :: "bool \<Rightarrow> bool \<Rightarrow> sample list option \<Rightarrow> bool \<Rightarrow> 'w conversation_task \<Rightarrow> bool \<times> 'w conversation_task" where
  "task_begin deps_ok capture_ok stage created t =
    (if ct_running t then (True, t)
     else if \<not> deps_ok then (False, t)
     else if \<not> capture_ok then (False, t\<lparr>ct_capture := False\<rparr>)
     else
       (let t = t\<lparr>ct_capture := True\<rparr> in
        case stage of
          None \<Rightarrow> (False, t\<lparr>ct_stage := False, ct_capture := False\<rparr>)
        | Some buffer \<Rightarrow>
            (let t = t\<lparr>ct_stage := True,
                       ct_player := \<lparr>pl_stager = stager_new (Some buffer) kStageSamples kSinkDepthMs,
                         pl_received = 0, pl_played = 0, pl_peak = 0, pl_speaking_phase = False,
                         pl_calls = pl_calls (ct_player t), pl_world = pl_world (ct_player t)\<rparr>\<rparr>
             in if created then (True, t\<lparr>ct_running := True\<rparr>)
                else (False, t\<lparr>ct_running := False, ct_capture := False, ct_stage := False\<rparr>))))"

definition request_start :: "string \<Rightarrow> 'w conversation_task \<Rightarrow> bool \<times> 'w conversation_task" where
  "request_start words t =
    (if \<not> ct_running t \<or> length words > kMaxSpokenTextBytes then (False, t)
     else if ct_phase t \<noteq> ConversationPhase_idle then (False, t)
     else (True, t\<lparr>ct_phase := ConversationPhase_listening, ct_spoken := words, ct_notified := True\<rparr>))"

text \<open>\<open>phase\<close> and \<open>counters\<close>.\<close>

definition task_phase :: "'w conversation_task \<Rightarrow> ConversationPhase" where
  "task_phase t = ct_phase t"

definition task_counters :: "'w conversation_task \<Rightarrow> u32 \<times> u32 \<times> u32" where
  "task_counters t = (ct_completed t, ct_cancelled t, ct_failed t)"

section \<open>Recording\<close>

text \<open>The loop gives what it has captured; \<open>overall\<close> bounds it as a whole.\<close>

fun record_loop :: "nat \<Rightarrow> 'w task_ports \<Rightarrow> deadline \<Rightarrow> sample list \<Rightarrow> 'w \<Rightarrow> (sample list \<times> 'w) option" where
  "record_loop 0 ports overall captured w = None"
| "record_loop (Suc fuel) ports overall captured w =
    (if length captured < kCaptureSamples \<and> \<not> cancelled (cancel_reason ports w) then
       (let (t, w) = clock (tk_player ports) w
        in if expired overall t then Some (captured, w)
           else
             (let want = (if kCaptureSamples - length captured < kCaptureSlice
                          then kCaptureSamples - length captured else kCaptureSlice);
                  (got, w) = source_read ports want (earlier_of overall (after t 300) t) t w
              in record_loop fuel ports overall (captured @ got) w))
     else Some (captured, w))"

definition record_utterance :: "nat \<Rightarrow> 'w task_ports \<Rightarrow> 'w \<Rightarrow> (sample list \<times> 'w) option" where
  "record_utterance fuel ports w =
    (let w = (if sink_playing (tk_player ports) w then sink_stop ports w else w);
         (ready, w) = source_start ports w
     in if \<not> ready then Some ([], w)
        else
          (let (started, w) = clock (tk_player ports) w
           in case record_loop fuel ports (after started (kListenMs + 1000)) [] w of
                None \<Rightarrow> None
              | Some (captured, w) \<Rightarrow> Some (captured, source_stop ports w)))"

section \<open>One turn\<close>

definition clear_stale :: "'w task_ports \<Rightarrow> 'w conversation_task \<Rightarrow> 'w conversation_task" where
  "clear_stale ports t =
    (let reason = cancel_reason ports (ct_world t)
     in if cancelled reason \<and> \<not> emergency reason then at_world (cancel_reset ports (ct_world t)) t else t)"

definition sample_bytes :: "sample list \<Rightarrow> u8 list" where
  "sample_bytes xs = concat (map (\<lambda>x. [ucast x, ucast (drop_bit 8 x)]) xs)"

definition count_outcome :: "Outcome \<Rightarrow> 'w conversation_task \<Rightarrow> 'w conversation_task" where
  "count_outcome outcome t =
    (case outcome of
       Outcome_completed \<Rightarrow> t\<lparr>ct_completed := ct_completed t + 1\<rparr>
     | Outcome_cancelled \<Rightarrow> t\<lparr>ct_cancelled := ct_cancelled t + 1\<rparr>
     | _ \<Rightarrow> t\<lparr>ct_failed := ct_failed t + 1\<rparr>)"

text \<open>Who the device is: the gateway's address, the token and the two identities of the request.\<close>

record device_names =
  dn_url :: string
  dn_token :: string
  dn_device :: string
  dn_boot :: boot_id

text \<open>The part of a turn that talks to the gateway. The speaking phase is the player's.\<close>

definition exchange ::
  "nat \<Rightarrow> 'w task_ports \<Rightarrow> 'w http_ports \<Rightarrow> device_names \<Rightarrow> string \<Rightarrow> sample list \<Rightarrow>
   'w conversation_task \<Rightarrow> 'w conversation_task option" where
  "exchange fuel ports http names spoken captured t =
    (let t = t\<lparr>ct_phase := ConversationPhase_thinking\<rparr>;
         ids = (case ct_ids t of None \<Rightarrow> id_generator (dn_boot names) | Some g \<Rightarrow> g);
         (conversation_id, ids) = next_id ids;
         player = (reset_audio_counters (ct_player t))\<lparr>pl_speaking_phase := False\<rparr>;
         request = \<lparr>rq_pcm = (if spoken = [] then Some (sample_bytes captured) else None),
                    rq_text = spoken, rq_conversation_id = id_text conversation_id\<rparr>;
         headers = request_headers (dn_token names) (dn_device names) (boot_text (dn_boot names))
                     (rq_conversation_id request) (rq_text request \<noteq> [])
     in case converse fuel http (tk_player ports) (dn_url names) headers request
               \<lparr>ss_turn = conversation_turn, ss_player = player\<rparr> of
          None \<Rightarrow> None
        | Some (_, s) \<Rightarrow>
            Some (count_outcome (tc_outcome (tn_core (ss_turn s)))
              (t\<lparr>ct_ids := Some ids, ct_player := ss_player s,
                 ct_phase := (if pl_speaking_phase (ss_player s) then ConversationPhase_speaking
                              else ConversationPhase_thinking)\<rparr>)))"

definition wind_down :: "'w task_ports \<Rightarrow> 'w conversation_task \<Rightarrow> 'w conversation_task" where
  "wind_down ports t =
    (let P = tk_player ports;
         t = (if sink_playing P (ct_world t) then
                (let (now, w) = clock P (ct_world t);
                     remaining = remaining_ms now (pl_stager (ct_player t));
                     w = (if 0 < remaining then task_delay ports (remaining + 50) w else w)
                 in at_world (sink_stop ports w) t)
              else t);
         t = (if has_face P
              then t\<lparr>ct_player := (ct_player t)\<lparr>pl_calls := pl_calls (ct_player t) @ [Face_talking False]\<rparr>\<rparr>
              else t)
     in (clear_stale ports t)\<lparr>ct_spoken := [], ct_phase := ConversationPhase_idle\<rparr>)"

definition run_one_turn ::
  "nat \<Rightarrow> 'w task_ports \<Rightarrow> 'w http_ports \<Rightarrow> device_names \<Rightarrow> 'w conversation_task \<Rightarrow> 'w conversation_task option" where
  "run_one_turn fuel ports http names t =
    (let t = clear_stale ports t;
         spoken = takeWhile (\<lambda>c. c \<noteq> CHR 0x00) (ct_spoken t)
     in case (if spoken = [] then record_utterance fuel ports (ct_world t) else Some ([], ct_world t)) of
          None \<Rightarrow> None
        | Some (captured, w) \<Rightarrow>
            (let t = at_world w t;
                 aborted = cancelled (cancel_reason ports (ct_world t)) \<or> (spoken = [] \<and> captured = [])
             in case (if aborted then Some (t\<lparr>ct_cancelled := ct_cancelled t + 1\<rparr>)
                      else exchange fuel ports http names spoken captured t) of
                  None \<Rightarrow> None
                | Some t \<Rightarrow> Some (wind_down ports t)))"

text \<open>One round of \<open>task_main\<close>: nothing happens until it is notified.\<close>

definition task_round ::
  "nat \<Rightarrow> 'w task_ports \<Rightarrow> 'w http_ports \<Rightarrow> device_names \<Rightarrow> 'w conversation_task \<Rightarrow> 'w conversation_task option" where
  "task_round fuel ports http names t =
    (if ct_notified t then run_one_turn fuel ports http names (t\<lparr>ct_notified := False\<rparr>) else Some t)"

section \<open>Recording is bounded\<close>

text \<open>What the recording relies on: the clock is the time, and a read keeps to its deadline, takes no
  more than was asked for, and passes time when it has nothing.\<close>

definition keeps_time :: "('w \<Rightarrow> nat) \<Rightarrow> 'w task_ports \<Rightarrow> bool" where
  "keeps_time ms ports \<longleftrightarrow>
    (\<forall>w. fst (clock (tk_player ports) w) = word_of_nat (ms w) \<and> ms (snd (clock (tk_player ports) w)) = ms w) \<and>
    (\<forall>n d w. let (got, w') = source_read ports n d (word_of_nat (ms w)) w in
       length got \<le> n \<and> ms w \<le> ms w' \<and> ms w' \<le> ms w + unat (remaining d (word_of_nat (ms w))) \<and>
       (got = [] \<and> 0 < remaining d (word_of_nat (ms w)) \<longrightarrow> ms w < ms w'))"

lemma read_in_time:
  assumes "keeps_time ms ports" and "t = word_of_nat (ms w)" and "source_read ports n d t w = (got, w')"
  shows "length got \<le> n \<and> ms w \<le> ms w' \<and> ms w' \<le> ms w + unat (remaining d t) \<and>
    (got = [] \<and> 0 < remaining d t \<longrightarrow> ms w < ms w')"
proof -
  have "let (got, w') = source_read ports n d (word_of_nat (ms w)) w in
       length got \<le> n \<and> ms w \<le> ms w' \<and> ms w' \<le> ms w + unat (remaining d (word_of_nat (ms w))) \<and>
       (got = [] \<and> 0 < remaining d (word_of_nat (ms w)) \<longrightarrow> ms w < ms w')"
    using assms(1) unfolding keeps_time_def by blast
  then show ?thesis using assms(2,3) by simp
qed

lemma clock_in_time:
  assumes "keeps_time ms ports" and "clock (tk_player ports) w = (t, w')"
  shows "t = word_of_nat (ms w) \<and> ms w' = ms w"
proof -
  have "fst (clock (tk_player ports) w) = word_of_nat (ms w) \<and> ms (snd (clock (tk_player ports) w)) = ms w"
    using assms(1) unfolding keeps_time_def by blast
  then show ?thesis using assms(2) by simp
qed

lemma capture_constants [simp]:
  "kListenMs + 1000 = 4000" "kCaptureSamples = 48000" "kCaptureSlice = 1600"
  by (simp_all add: kListenMs_def kCaptureSamples_def kCaptureSlice_def Player.kSampleRate_def)

lemma overall_deadline:
  assumes "e \<le> 4000"
  shows "expired (after (word_of_nat s) 4000) (word_of_nat (s + e)) \<longleftrightarrow> e = 4000"
    and "unat (remaining (after (word_of_nat s) 4000) (word_of_nat (s + e))) = 4000 - e"
proof -
  let ?e = "word_of_nat e :: u32"
  have e: "unat ?e = e" using assms by (simp add: unsigned_of_nat take_bit_nat_eq_self)
  have "(4000 :: u32) \<le> ?e \<longleftrightarrow> e = 4000" using e assms by (simp add: word_le_nat_alt)
  moreover have "unat (4000 - ?e) = 4000 - e" using e assms by (simp add: unat_sub word_le_nat_alt)
  moreover have "expired (after (word_of_nat s) 4000) (word_of_nat s + ?e) = (4000 \<le> ?e) \<and>
      remaining (after (word_of_nat s) 4000) (word_of_nat s + ?e) = (if 4000 \<le> ?e then 0 else 4000 - ?e)"
  proof (rule deadline_on_time)
    show "(4000 :: u32) \<le> kHalf" by (simp add: kHalf_def)
    show "unat ?e \<le> unat (4000 :: u32) + 2 ^ 31" using e assms by simp
  qed
  ultimately show "expired (after (word_of_nat s) 4000) (word_of_nat (s + e)) \<longleftrightarrow> e = 4000"
    and "unat (remaining (after (word_of_nat s) 4000) (word_of_nat (s + e))) = 4000 - e"
    using assms by auto
qed

lemma slice_deadline:
  assumes "e < 4000"
  shows "0 < remaining (earlier_of (after (word_of_nat s) 4000) (after (word_of_nat (s + e)) 300) (word_of_nat (s + e)))
      (word_of_nat (s + e))"
    and "unat (remaining (earlier_of (after (word_of_nat s) 4000) (after (word_of_nat (s + e)) 300) (word_of_nat (s + e)))
      (word_of_nat (s + e))) \<le> 4000 - e"
proof -
  let ?r = "remaining (after (word_of_nat s) 4000) (word_of_nat (s + e) :: u32)"
  have r: "unat ?r = 4000 - e" using overall_deadline(2) [of e s] assms by simp
  have slice: "remaining (after (word_of_nat (s + e)) 300) (word_of_nat (s + e) :: u32) = 300"
    using remaining_after [of "word_of_nat (s + e)" 300 0] by (simp add: kHalf_def)
  show "0 < remaining (earlier_of (after (word_of_nat s) 4000) (after (word_of_nat (s + e)) 300) (word_of_nat (s + e)))
      (word_of_nat (s + e))"
    and "unat (remaining (earlier_of (after (word_of_nat s) 4000) (after (word_of_nat (s + e)) 300) (word_of_nat (s + e)))
      (word_of_nat (s + e))) \<le> 4000 - e"
    unfolding remaining_earlier_of slice using r assms by (auto simp: word_less_nat_alt min_def word_le_nat_alt)
qed

lemma record_loop_returns:
  assumes "keeps_time ms ports"
  shows "length captured \<le> 48000 \<Longrightarrow> e \<le> 4000 \<Longrightarrow> ms w = s + e \<Longrightarrow>
    (48000 - length captured) + (4000 - e) < fuel \<Longrightarrow>
    \<exists>got w'. record_loop fuel ports (after (word_of_nat s) 4000) captured w = Some (got, w') \<and>
      length got \<le> 48000 \<and> ms w' \<le> s + 4000"
proof (induction fuel arbitrary: captured e w)
  case (Suc fuel)
  obtain t w1 where c: "clock (tk_player ports) w = (t, w1)" by fastforce
  have t: "t = word_of_nat (s + e)" and w1: "ms w1 = s + e"
    using clock_in_time [OF assms c] Suc.prems(3) by simp_all
  have expired: "expired (after (word_of_nat s) 4000) t \<longleftrightarrow> e = 4000"
    using overall_deadline(1) [OF Suc.prems(2), of s] t by simp
  show ?case
  proof (cases "length captured < 48000 \<and> \<not> cancelled (cancel_reason ports w) \<and> e < 4000")
    case True
    let ?want = "if kCaptureSamples - length captured < kCaptureSlice then kCaptureSamples - length captured else kCaptureSlice"
    let ?d = "earlier_of (after (word_of_nat s) 4000) (after t 300) t"
    obtain got w2 where r: "source_read ports ?want ?d t w1 = (got, w2)" by fastforce
    have read: "length got \<le> ?want \<and> ms w1 \<le> ms w2 \<and> ms w2 \<le> ms w1 + unat (remaining ?d t) \<and>
        (got = [] \<and> 0 < remaining ?d t \<longrightarrow> ms w1 < ms w2)"
      using read_in_time [OF assms _ r] t w1 by simp
    note left = slice_deadline [of e s]
    obtain e' where e': "ms w2 = s + e'" "e \<le> e'" "e' \<le> 4000" "got = [] \<longrightarrow> e < e'"
    proof
      show "ms w2 = s + (ms w2 - s)" "e \<le> ms w2 - s" "ms w2 - s \<le> 4000" "got = [] \<longrightarrow> e < ms w2 - s"
        using read left True t w1 by auto
    qed
    have "length (captured @ got) \<le> 48000" using read True by (auto split: if_splits)
    moreover have "(48000 - length (captured @ got)) + (4000 - e') < fuel"
      using Suc.prems(4) True e' by (cases got) auto
    ultimately have "\<exists>got' w'. record_loop fuel ports (after (word_of_nat s) 4000) (captured @ got) w2 = Some (got', w') \<and>
      length got' \<le> 48000 \<and> ms w' \<le> s + 4000" by (rule Suc.IH [OF _ e'(3,1)])
    moreover have "length captured < kCaptureSamples" using True by simp
    ultimately show ?thesis
      using True c r expired by (simp add: Let_def split del: if_split del: capture_constants)
  next
    case False
    then show ?thesis using Suc.prems c w1 expired by (auto simp: Let_def)
  qed
qed simp

lemma record_utterance_returns:
  assumes "keeps_time ms ports" and "52000 < fuel"
  shows "\<exists>got w'. record_utterance fuel ports w = Some (got, w') \<and> length got \<le> kCaptureSamples"
proof -
  let ?w = "if sink_playing (tk_player ports) w then sink_stop ports w else w"
  obtain ready w1 where r: "source_start ports ?w = (ready, w1)" by fastforce
  obtain started w2 where c: "clock (tk_player ports) w1 = (started, w2)" by fastforce
  have "started = word_of_nat (ms w2)"
    using clock_in_time [OF assms(1) c] by simp
  with record_loop_returns [OF assms(1), of "[]" 0 w2 "ms w2" fuel] assms(2) obtain got w' where
    "record_loop fuel ports (after started 4000) [] w2 = Some (got, w')" "length got \<le> 48000" by auto
  then show ?thesis using r c by (cases ready) (simp_all add: record_utterance_def Let_def)
qed

section \<open>A turn comes back\<close>

text \<open>The ports of the recording do not make the other end go on for longer either.\<close>

definition task_never_raises :: "('w \<Rightarrow> nat) \<Rightarrow> 'w task_ports \<Rightarrow> bool" where
  "task_never_raises m ports \<longleftrightarrow> never_raises m (tk_player ports) \<and>
    (\<forall>w. m (snd (source_start ports w)) \<le> m w) \<and> (\<forall>n d t w. m (snd (source_read ports n d t w)) \<le> m w) \<and>
    (\<forall>w. m (source_stop ports w) \<le> m w) \<and> (\<forall>w. m (sink_stop ports w) \<le> m w) \<and>
    (\<forall>w. m (cancel_reset ports w) \<le> m w)"

lemma record_loop_measure:
  assumes "task_never_raises m ports"
  shows "record_loop fuel ports overall captured w = Some (got, w') \<Longrightarrow> m w' \<le> m w"
proof (induction fuel arbitrary: captured w)
  case (Suc fuel)
  let ?want = "if kCaptureSamples - length captured < kCaptureSlice then kCaptureSamples - length captured else kCaptureSlice"
  obtain t w1 where c: "clock (tk_player ports) w = (t, w1)" by fastforce
  obtain more w2 where r: "source_read ports ?want (earlier_of overall (after t 300) t) t w1 = (more, w2)" by fastforce
  have w1: "m w1 \<le> m w"
    using assms c by (simp add: task_never_raises_def never_raises_def) (metis snd_conv)
  have w2: "m w2 \<le> m w1"
    using assms r by (simp only: task_never_raises_def) (metis snd_conv)
  show ?case
    using Suc.prems Suc.IH [of "captured @ more" w2] c r w1 w2
    by (simp add: Let_def split: if_splits del: capture_constants)
qed simp

lemma record_utterance_measure:
  assumes "task_never_raises m ports" and "record_utterance fuel ports w = Some (got, w')"
  shows "m w' \<le> m w"
proof -
  let ?w = "if sink_playing (tk_player ports) w then sink_stop ports w else w"
  obtain ready w1 where r: "source_start ports ?w = (ready, w1)" by fastforce
  obtain started w2 where c: "clock (tk_player ports) w1 = (started, w2)" by fastforce
  have w0: "m ?w \<le> m w" using assms(1) by (simp add: task_never_raises_def)
  have w1: "m w1 \<le> m ?w"
    using assms(1) r unfolding task_never_raises_def by (metis snd_conv)
  have w2: "m w2 \<le> m w1"
    using assms(1) c by (simp add: task_never_raises_def never_raises_def) (metis snd_conv)
  have stop: "m (source_stop ports v) \<le> m v" for v using assms(1) by (simp add: task_never_raises_def)
  show ?thesis
  proof (cases ready)
    case True
    then obtain v where "record_loop fuel ports (after started (kListenMs + 1000)) [] w2 = Some (got, v)"
      "w' = source_stop ports v"
      using assms(2) r c by (auto simp: record_utterance_def Let_def split: option.splits)
    then show ?thesis using record_loop_measure [OF assms(1)] stop [of v] w0 w1 w2 by (metis order_trans)
  next
    case False
    then show ?thesis using assms(2) r w0 w1 by (simp add: record_utterance_def Let_def)
  qed
qed

lemma clear_stale_frame [frame_rules]:
  "ct_spoken (clear_stale ports t) = ct_spoken t" "ct_running (clear_stale ports t) = ct_running t"
  "ct_completed (clear_stale ports t) = ct_completed t" "ct_cancelled (clear_stale ports t) = ct_cancelled t"
  "ct_failed (clear_stale ports t) = ct_failed t" "ct_ids (clear_stale ports t) = ct_ids t"
  "pl_calls (ct_player (clear_stale ports t)) = pl_calls (ct_player t)"
  by (simp_all add: clear_stale_def at_world_def Let_def)

lemma wind_down_frame [frame_rules]:
  "ct_spoken (wind_down ports t) = []" "ct_phase (wind_down ports t) = ConversationPhase_idle"
  "ct_running (wind_down ports t) = ct_running t"
  "ct_completed (wind_down ports t) = ct_completed t" "ct_cancelled (wind_down ports t) = ct_cancelled t"
  "ct_failed (wind_down ports t) = ct_failed t" "ct_ids (wind_down ports t) = ct_ids t"
  "pl_calls (ct_player (wind_down ports t)) =
    pl_calls (ct_player t) @ (if has_face (tk_player ports) then [Face_talking False] else [])"
  by (simp_all add: wind_down_def frame_rules at_world_def Let_def split_beta)

definition turns_counted :: "'w conversation_task \<Rightarrow> u32" where
  "turns_counted t = ct_completed t + ct_cancelled t + ct_failed t"

lemma count_outcome_frame [frame_rules]:
  "ct_running (count_outcome r t) = ct_running t" "turns_counted (count_outcome r t) = turns_counted t + 1"
  by (cases r; simp add: count_outcome_def turns_counted_def)+

text \<open>Without the words, and without the sound, there is nothing to exchange; with them the exchange
  counts its outcome.\<close>

lemma exchange_returns:
  assumes "stream_ends m http (tk_player ports)" and "m (ct_world t) < fuel"
  shows "\<exists>t'. exchange fuel ports http names spoken captured t = Some t' \<and> ct_running t' = ct_running t \<and>
    turns_counted t' = turns_counted t + 1"
proof -
  let ?ids = "case ct_ids t of None \<Rightarrow> id_generator (dn_boot names) | Some g \<Rightarrow> g"
  let ?player = "(reset_audio_counters (ct_player t))\<lparr>pl_speaking_phase := False\<rparr>"
  let ?s = "\<lparr>ss_turn = conversation_turn, ss_player = ?player\<rparr>"
  obtain id g where ids: "next_id ?ids = (id, g)" by fastforce
  let ?request = "\<lparr>rq_pcm = (if spoken = [] then Some (sample_bytes captured) else None), rq_text = spoken,
    rq_conversation_id = id_text id\<rparr>"
  let ?headers = "request_headers (dn_token names) (dn_device names) (boot_text (dn_boot names)) (id_text id) (spoken \<noteq> [])"
  have "m (ss_world ?s) < fuel" using assms(2) by (simp add: ss_world_def reset_audio_counters_def ct_world_def)
  from converse_returns [OF assms(1) this, of "dn_url names" ?headers ?request] obtain ok s where
    r: "converse fuel http (tk_player ports) (dn_url names) ?headers ?request ?s = Some (ok, s)" by auto
  then show ?thesis
    by (auto simp: exchange_def Let_def ids r frame_rules) (simp_all add: turns_counted_def)
qed

section \<open>Under an emergency stop\<close>

text \<open>The other ports leave the reason of a cancellation as it is.\<close>

definition keeps_reason :: "'w task_ports \<Rightarrow> bool" where
  "keeps_reason ports \<longleftrightarrow>
    (\<forall>w. cancel_reason ports (snd (clock (tk_player ports) w)) = cancel_reason ports w) \<and>
    (\<forall>w. cancel_reason ports (snd (source_start ports w)) = cancel_reason ports w) \<and>
    (\<forall>w. cancel_reason ports (source_stop ports w) = cancel_reason ports w) \<and>
    (\<forall>w. cancel_reason ports (sink_stop ports w) = cancel_reason ports w) \<and>
    (\<forall>n w. cancel_reason ports (task_delay ports n w) = cancel_reason ports w)"

lemma record_when_cancelled:
  assumes "keeps_reason ports" and "cancelled (cancel_reason ports w)"
  shows "\<exists>w'. record_utterance (Suc fuel) ports w = Some ([], w') \<and> cancel_reason ports w' = cancel_reason ports w"
proof -
  let ?w = "if sink_playing (tk_player ports) w then sink_stop ports w else w"
  obtain ready w1 where r: "source_start ports ?w = (ready, w1)" by fastforce
  obtain started w2 where c: "clock (tk_player ports) w1 = (started, w2)" by fastforce
  have w1: "cancel_reason ports w1 = cancel_reason ports w"
    using assms(1) r unfolding keeps_reason_def by (metis snd_conv)
  have w2: "cancel_reason ports w2 = cancel_reason ports w"
    using assms(1) c w1 unfolding keeps_reason_def by (metis snd_conv)
  have "cancel_reason ports (source_stop ports w2) = cancel_reason ports w"
    using assms(1) w2 unfolding keeps_reason_def by metis
  then show ?thesis
    using r c w1 w2 assms(2) by (cases ready) (simp_all add: record_utterance_def Let_def)
qed

lemma wind_down_reason:
  assumes "keeps_reason ports" and "emergency (cancel_reason ports (ct_world t))"
  shows "cancel_reason ports (ct_world (wind_down ports t)) = cancel_reason ports (ct_world t)"
proof -
  have step: "cancel_reason ports (snd (clock (tk_player ports) w)) = cancel_reason ports w"
    "cancel_reason ports (sink_stop ports w) = cancel_reason ports w"
    "cancel_reason ports (task_delay ports n w) = cancel_reason ports w" for w n
    using assms(1) unfolding keeps_reason_def by metis+
  obtain now w where c: "clock (tk_player ports) (ct_world t) = (now, w)" by fastforce
  have w: "cancel_reason ports w = cancel_reason ports (ct_world t)" using step(1) [of "ct_world t"] c by simp
  show ?thesis
    using assms(2) c w
    by (simp add: wind_down_def clear_stale_def at_world_def ct_world_def Let_def step split: prod.split)
qed

section \<open>Properties\<close>


text \<open>C7: while the emergency stop is engaged, a turn has nothing to do with the gateway, whatever that
  would be, and plays nothing: it only closes the mouth, counts a cancelled turn and leaves the stop
  engaged.\<close>
theorem emergency_stops_turns:
  assumes "keeps_reason ports" and "emergency (cancel_reason ports (ct_world t))"
  shows "\<exists>t'. (\<forall>http names. run_one_turn (Suc fuel) ports http names t = Some t') \<and>
    pl_calls (ct_player t') = pl_calls (ct_player t) @ (if has_face (tk_player ports) then [Face_talking False] else []) \<and>
    (ct_completed t', ct_cancelled t', ct_failed t') = (ct_completed t, ct_cancelled t + 1, ct_failed t) \<and>
    ct_ids t' = ct_ids t \<and> ct_phase t' = ConversationPhase_idle \<and>
    cancel_reason ports (ct_world t') = cancel_reason ports (ct_world t)"
proof -
  let ?spoken = "takeWhile (\<lambda>c. c \<noteq> CHR 0x00) (ct_spoken t)"
  have stale: "clear_stale ports t = t" using assms(2) by (simp add: clear_stale_def Let_def)
  have c: "cancelled (cancel_reason ports (ct_world t))" using assms(2) by (rule emergency_cancelled)
  obtain w where w: "(if ?spoken = [] then record_utterance (Suc fuel) ports (ct_world t) else Some ([], ct_world t)) = Some ([], w)"
    "cancel_reason ports w = cancel_reason ports (ct_world t)"
    using record_when_cancelled [OF assms(1) c, of fuel] by (cases "?spoken = []") auto
  let ?t = "at_world w t\<lparr>ct_cancelled := ct_cancelled t + 1\<rparr>"
  have "run_one_turn (Suc fuel) ports http names t = Some (wind_down ports ?t)" for http names
    using w c by (simp add: run_one_turn_def stale Let_def at_world_def ct_world_def)
  moreover have "cancel_reason ports (ct_world ?t) = cancel_reason ports (ct_world t)"
    using w(2) by (simp add: at_world_def ct_world_def)
  ultimately show ?thesis
    using wind_down_reason [OF assms(1), of ?t] assms(2) by (simp add: frame_rules at_world_def)
qed

text \<open>Whatever words a start is accepted with, the request that carries them always fits its
  buffer and is the one JSON object that holds them.\<close>
theorem accepted_words_fit:
  assumes "request_start words t = (True, t')" and "spoken = takeWhile (\<lambda>c. c \<noteq> CHR 0x00) (ct_spoken t')"
  shows "jw_valid (text_body spoken) \<and> jvalue True 1 (jw_text (text_body spoken)) \<and>
    jw_text (text_body spoken) = CHR 0x7B # quoted ''text'' @ '':'' @ quoted spoken @ [CHR 0x7D]"
proof -
  have words: "ct_spoken t' = words" "length words \<le> 480"
    using assms(1)
    by (auto simp: request_start_def kMaxSpokenTextBytes_def kMaxConversationStartTextBytes_def split: if_splits)
  have "length spoken \<le> 480"
    using words assms(2) length_takeWhile_le [of "\<lambda>c. c \<noteq> CHR 0x00" words] by simp
  then show ?thesis by (rule text_body_fits)
qed

text \<open>A device whose world is its clock, the words the gateway still has to send and the reason of a
  cancellation: the microphone takes the time of a slice, everything else is immediate.\<close>

record demo_world =
  dw_time :: nat
  dw_script :: "string list"
  dw_reason :: CancelReason

definition demo_ports :: "demo_world task_ports" where
  "demo_ports =
    \<lparr>tk_player = \<lparr>has_sink = True, has_face = True, has_stage = True, sink_playing = (\<lambda>w. False),
       sink_start = (\<lambda>rate w. (True, w)), sink_write = (\<lambda>xs d t w. (length xs, w)),
       clock = (\<lambda>w. (word_of_nat (dw_time w), w)), token_cancelled = (\<lambda>w. cancelled (dw_reason w))\<rparr>,
     source_start = (\<lambda>w. (True, w)),
     source_read = (\<lambda>n d t w. (replicate (n - 1) 7, w\<lparr>dw_time := dw_time w + unat (remaining d t)\<rparr>)),
     source_stop = (\<lambda>w. w), sink_stop = (\<lambda>w. w), task_delay = (\<lambda>n w. w), cancel_reason = dw_reason,
     cancel_reset = (\<lambda>w. w\<lparr>dw_reason := reset (dw_reason w)\<rparr>)\<rparr>"

definition demo_http :: "demo_world http_ports" where
  "demo_http =
    \<lparr>http_init = (\<lambda>url w. (True, w)), http_headers = (\<lambda>headers w. w), http_open = (\<lambda>total w. (True, w)),
     http_write = (\<lambda>bytes w. (int (length bytes), w)), http_fetch = (\<lambda>w. (0, w)), http_status = (\<lambda>w. 200),
     http_read = (\<lambda>n w. case dw_script w of [] \<Rightarrow> (0, [], w)
       | chunk # rest \<Rightarrow> (int (length chunk), chunk, w\<lparr>dw_script := rest\<rparr>)),
     http_close = (\<lambda>w. w), http_eagain = 28679\<rparr>"

definition demo_task :: "CancelReason \<Rightarrow> demo_world conversation_task" where
  "demo_task reason =
    (conversation_task \<lparr>pl_stager = stager_new (Some [0, 0, 0, 0]) 4 240, pl_received = 0, pl_played = 0,
       pl_peak = 0, pl_speaking_phase = False, pl_calls = [],
       pl_world = \<lparr>dw_time = 4294967000, dw_script = [''data: x'', ''y''], dw_reason = reason\<rparr>\<rparr>)\<lparr>ct_running := True\<rparr>"

definition demo_names :: device_names where
  "demo_names = \<lparr>dn_url = ''http://g'', dn_token = ''t'', dn_device = ''d'', dn_boot = boot_unset\<rparr>"

lemma demo_contracts:
  "keeps_time dw_time demo_ports" "task_never_raises (\<lambda>w. length (dw_script w)) demo_ports"
  "stream_ends (\<lambda>w. length (dw_script w)) demo_http (tk_player demo_ports)" "keeps_reason demo_ports"
  by (auto simp: keeps_time_def task_never_raises_def never_raises_def stream_ends_def sending_calm_def keeps_reason_def
      demo_ports_def demo_http_def word_greater_zero_iff unat_gt_0 split: list.split)


lemma emergency_stops_turns_witness:
  "\<exists>t'. run_one_turn 1 demo_ports demo_http demo_names (demo_task CancelReason_emergency_stop) = Some t' \<and>
    pl_calls (ct_player t') = [Face_talking False] \<and> ct_cancelled t' = 1"
proof -
  have "emergency (cancel_reason demo_ports (ct_world (demo_task CancelReason_emergency_stop)))"
    by (simp add: demo_task_def demo_ports_def conversation_task_def ct_world_def emergency_def)
  from emergency_stops_turns [OF demo_contracts(4) this, of 0] show ?thesis
    by (auto simp: demo_task_def conversation_task_def demo_ports_def)
qed

lemma accepted_words_fit_witness:
  "jw_valid (text_body ''hi'') \<and> jw_text (text_body ''hi'') = CHR 0x7B # quoted ''text'' @ '':'' @ quoted ''hi'' @ [CHR 0x7D]"
proof -
  have "request_start ''hi'' (demo_task CancelReason_none) = (True, snd (request_start ''hi'' (demo_task CancelReason_none)))"
    by (simp add: request_start_def demo_task_def conversation_task_def kMaxSpokenTextBytes_def
        kMaxConversationStartTextBytes_def)
  moreover have "ct_spoken (snd (request_start ''hi'' (demo_task CancelReason_none))) = ''hi''"
    by (simp add: request_start_def demo_task_def conversation_task_def kMaxSpokenTextBytes_def
        kMaxConversationStartTextBytes_def)
  ultimately show ?thesis
    using accepted_words_fit [of "''hi''" "demo_task CancelReason_none" "snd (request_start ''hi'' (demo_task CancelReason_none))"
        "''hi''"] by simp
qed

end
