(* ===== verification/Commands.thy ===== *)
theory Commands
  imports Conversation_Task Request_Router Network_Policy
begin

text \<open>
  \<open>stackchan_commands\<close>: the ten command handlers over the state they share, and their registration.
  The registry's routing in \<open>Request_Router\<close> is over any state; here it gets the device's.
\<close>

section \<open>The device as the handlers see it\<close>

text \<open>\<open>CommandContext\<close> and what its pointers and the calls of the handlers reach: the registry's
  specifications, the state reported, the cancellation source, the expressions shown, the conversation
  task, \<open>net::status()\<close>, the gateway's address with whether writing it works, the identity, the clock,
  the memory figures and the access token with its storage.\<close>

record 'w device =
  dv_specs :: "command_spec list"
  dv_state :: device_state
  dv_cancel :: CancelReason
  dv_shown :: "Expression list"
  dv_task :: "'w conversation_task"
  dv_network_phase :: NetworkPhase
  dv_access_point_up :: bool
  dv_ip :: string
  dv_gateway_url :: string
  dv_url_write_works :: bool
  dv_identity :: device_identity
  dv_uptime_ms :: u64
  dv_memory :: memory_snapshot
  dv_psram_free :: u64
  dv_secrets :: identity_state
  dv_nvs_up :: bool
  dv_stored_token :: "string option"

section \<open>device.*\<close>

definition handle_describe :: "'w device command_handler" where
  "handle_describe d params payload =
    (ErrorCode_none, write_device_description (dv_identity d) (dv_specs d) (dv_uptime_ms d) payload, d)"

definition refresh_state :: "'w device \<Rightarrow> 'w device" where
  "refresh_state d =
    (let st = dv_state d;
         st = st\<lparr>estop := emergency (dv_cancel d)\<rparr>;
         st = st\<lparr>network_connected := dv_network_phase d = NetworkPhase_connected\<rparr>;
         st = st\<lparr>conversation := task_phase (dv_task d)\<rparr>;
         st = st\<lparr>audio_busy := conversation st \<noteq> ConversationPhase_idle\<rparr>;
         st = st\<lparr>gateway_configured := dv_gateway_url d \<noteq> []\<rparr>
     in d\<lparr>dv_state := st\<rparr>)"

definition handle_state :: "'w device command_handler" where
  "handle_state d params payload =
    (let d = refresh_state d;
         st = dv_state d;
         payload = begin_object payload;
         payload = member_bool ''estop'' (estop st) payload;
         payload = member_string ''conversation'' (phase_to_string (conversation st)) payload;
         payload = member_bool ''audio_busy'' (audio_busy st) payload;
         payload = member_string ''expression'' (expression_to_string (expression st)) payload;
         payload = member_bool ''network_connected'' (network_connected st) payload;
         payload = member_bool ''can_start_conversation'' (can_start_conversation st) payload;
         payload = member_string ''blocked_by'' (why_cannot_start st) payload
     in (ErrorCode_none, end_object payload, d))"

definition health_thresholds :: memory_thresholds where
  "health_thresholds =
    \<lparr>degraded_internal_free = 80000, critical_internal_free = 40000, critical_largest_block = 20000\<rparr>"

definition handle_health :: "'w device command_handler" where
  "handle_health d params payload =
    (let level = classify_memory (dv_memory d) health_thresholds
     in (ErrorCode_none,
         write_health_payload (dv_uptime_ms d) (dv_memory d) (dv_psram_free d) level payload, d))"

definition register_device_commands :: "'w device command_registry \<Rightarrow> bool \<times> 'w device command_registry" where
  "register_device_commands registry =
    (let (ok, registry) = registry_add (command_spec ''device.describe'') (Some handle_describe) registry;
         (added, registry) = registry_add (command_spec ''device.state'') (Some handle_state) registry;
         ok = (added \<and> ok);
         (added, registry) = registry_add (command_spec ''device.health'') (Some handle_health) registry
     in (added \<and> ok, registry))"

section \<open>estop.*\<close>

definition handle_engage :: "'w device command_handler" where
  "handle_engage d params payload =
    (ErrorCode_none, end_object (member_bool ''estop'' True (begin_object payload)),
     d\<lparr>dv_cancel := cancel CancelReason_emergency_stop (dv_cancel d)\<rparr>)"

definition handle_clear :: "'w device command_handler" where
  "handle_clear d params payload =
    (let d = d\<lparr>dv_cancel := clear_emergency (dv_cancel d)\<rparr>
     in (ErrorCode_none,
         end_object (member_bool ''estop'' (emergency (dv_cancel d)) (begin_object payload)), d))"

definition register_estop_commands :: "'w device command_registry \<Rightarrow> bool \<times> 'w device command_registry" where
  "register_estop_commands registry =
    (let (ok, registry) = registry_add (command_spec ''estop.engage'') (Some handle_engage) registry;
         (added, registry) = registry_add (command_spec ''estop.clear'') (Some handle_clear) registry
     in (added \<and> ok, registry))"

section \<open>face.*\<close>

definition handle_set_expression :: "'w device command_handler" where
  "handle_set_expression d params payload =
    (if emergency (dv_cancel d) then (ErrorCode_estop_engaged, payload, d)
     else case fst (read_string ''expression'' params) of
            None \<Rightarrow> (ErrorCode_invalid_argument, payload, d)
          | Some name \<Rightarrow>
              (case parse_expression name of
                 None \<Rightarrow> (ErrorCode_invalid_argument, payload, d)
               | Some e \<Rightarrow>
                   (ErrorCode_none, end_object (member_string ''expression'' name (begin_object payload)),
                    d\<lparr>dv_shown := dv_shown d @ [e], dv_state := (dv_state d)\<lparr>expression := e\<rparr>\<rparr>)))"

definition set_expression_spec :: "bool \<Rightarrow> command_spec" where
  "set_expression_spec display_available =
    (command_spec ''face.set_expression'')
      \<lparr>cs_params := [\<lparr>ps_name = ''expression'', ps_choices = Some kExpressionNames\<rparr>],
       cs_available := display_available, cs_unavailable_reason := ''display_not_detected''\<rparr>"

definition register_face_commands ::
  "bool \<Rightarrow> 'w device command_registry \<Rightarrow> bool \<times> 'w device command_registry" where
  "register_face_commands display_available registry =
    registry_add (set_expression_spec display_available) (Some handle_set_expression) registry"

section \<open>gateway.*\<close>

definition handle_configure :: "'w device command_handler" where
  "handle_configure d params payload =
    (case fst (read_string ''url'' params) of
       None \<Rightarrow> (ErrorCode_invalid_argument, payload, d)
     | Some url \<Rightarrow>
         (let (saved, g_url) = save_gateway_url (dv_url_write_works d) url (dv_gateway_url d);
              d = d\<lparr>dv_gateway_url := g_url\<rparr>
          in if \<not> saved then (ErrorCode_invalid_argument, payload, d)
             else (ErrorCode_none,
                   end_object (member_string ''url'' (dv_gateway_url d) (begin_object payload)), d)))"

definition configure_spec :: command_spec where
  "configure_spec = (command_spec ''gateway.configure'')\<lparr>cs_params := [\<lparr>ps_name = ''url'', ps_choices = None\<rparr>]\<rparr>"

definition register_gateway_commands :: "'w device command_registry \<Rightarrow> bool \<times> 'w device command_registry" where
  "register_gateway_commands registry = registry_add configure_spec (Some handle_configure) registry"

section \<open>conversation.*\<close>

definition handle_start :: "'w device command_handler" where
  "handle_start d params payload =
    (let (input_error, words, params) = read_conversation_start_input params
     in if input_error \<noteq> ErrorCode_none then (input_error, payload, d)
        else
          (let d = refresh_state d
           in if \<not> can_start_conversation (dv_state d)
              then
                (if estop (dv_state d) then (ErrorCode_estop_engaged, payload, d)
                 else if conversation (dv_state d) \<noteq> ConversationPhase_idle \<or> audio_busy (dv_state d)
                 then (ErrorCode_busy, payload, d)
                 else (ErrorCode_unavailable, payload, d))
              else
                (let (started, t) = request_start words (dv_task d);
                     d = d\<lparr>dv_task := t\<rparr>
                 in if \<not> started then (ErrorCode_busy, payload, d)
                    else
                      (let payload = begin_object payload;
                           payload = member_bool ''accepted'' True payload;
                           payload = member_string ''mode'' (if input_listens words then ''listen'' else ''text'') payload
                       in (ErrorCode_none, end_object payload, d)))))"

definition handle_cancel :: "'w device command_handler" where
  "handle_cancel d params payload =
    (let running = (task_phase (dv_task d) \<noteq> ConversationPhase_idle);
         d = (if running then d\<lparr>dv_cancel := cancel CancelReason_requested (dv_cancel d)\<rparr> else d)
     in (ErrorCode_none, end_object (member_bool ''cancelled'' running (begin_object payload)), d))"

definition start_spec :: "bool \<Rightarrow> command_spec" where
  "start_spec voice_available =
    (command_spec ''conversation.start'')
      \<lparr>cs_params := [\<lparr>ps_name = ''text'', ps_choices = None\<rparr>], cs_is_async := True,
       cs_available := voice_available, cs_unavailable_reason := ''voice_base_not_detected''\<rparr>"

definition cancel_spec :: "bool \<Rightarrow> command_spec" where
  "cancel_spec voice_available =
    (command_spec ''conversation.cancel'')
      \<lparr>cs_available := voice_available, cs_unavailable_reason := ''voice_base_not_detected''\<rparr>"

definition register_conversation_commands ::
  "bool \<Rightarrow> 'w device command_registry \<Rightarrow> bool \<times> 'w device command_registry" where
  "register_conversation_commands voice_available registry =
    (let (ok, registry) = registry_add (start_spec voice_available) (Some handle_start) registry;
         (added, registry) = registry_add (cancel_spec voice_available) (Some handle_cancel) registry
     in (added \<and> ok, registry))"

section \<open>token.*\<close>

definition handle_rotate :: "'w device command_handler" where
  "handle_rotate d params payload =
    (if task_phase (dv_task d) \<noteq> ConversationPhase_idle then (ErrorCode_busy, payload, d)
     else if \<not> dv_access_point_up d \<and> dv_ip d = [] then (ErrorCode_unavailable, payload, d)
     else
       (let (rotated, secrets) = rotate_access_token (dv_nvs_up d) (dv_stored_token d) (dv_secrets d);
            d = d\<lparr>dv_secrets := secrets\<rparr>
        in if \<not> rotated then (ErrorCode_internal, payload, d)
           else
             (let secrets = access_token (dv_nvs_up d) (dv_stored_token d) (dv_secrets d);
                  d = d\<lparr>dv_secrets := secrets\<rparr>
              in (ErrorCode_none,
                  end_object (member_string ''token'' (token_text (is_token secrets)) (begin_object payload)), d))))"

definition register_token_commands :: "'w device command_registry \<Rightarrow> bool \<times> 'w device command_registry" where
  "register_token_commands registry = registry_add (command_spec ''token.rotate'') (Some handle_rotate) registry"

section \<open>All of them\<close>

definition register_commands ::
  "bool \<Rightarrow> bool \<Rightarrow> 'w device command_registry \<Rightarrow> bool \<times> 'w device command_registry" where
  "register_commands display_available voice_available registry =
    (let (ok, registry) = register_device_commands registry;
         (added, registry) = register_estop_commands registry; ok = (added \<and> ok);
         (added, registry) = register_face_commands display_available registry; ok = (added \<and> ok);
         (added, registry) = register_gateway_commands registry; ok = (added \<and> ok);
         (added, registry) = register_conversation_commands voice_available registry; ok = (added \<and> ok);
         (added, registry) = register_token_commands registry
     in (added \<and> ok, registry))"

section \<open>The registry that results\<close>

definition device_commands :: "bool \<Rightarrow> bool \<Rightarrow> 'w device command_registry" where
  "device_commands display_available voice_available =
    [\<lparr>en_spec = command_spec ''device.describe'', en_handler = handle_describe\<rparr>,
     \<lparr>en_spec = command_spec ''device.state'', en_handler = handle_state\<rparr>,
     \<lparr>en_spec = command_spec ''device.health'', en_handler = handle_health\<rparr>,
     \<lparr>en_spec = command_spec ''estop.engage'', en_handler = handle_engage\<rparr>,
     \<lparr>en_spec = command_spec ''estop.clear'', en_handler = handle_clear\<rparr>,
     \<lparr>en_spec = set_expression_spec display_available, en_handler = handle_set_expression\<rparr>,
     \<lparr>en_spec = configure_spec, en_handler = handle_configure\<rparr>,
     \<lparr>en_spec = start_spec voice_available, en_handler = handle_start\<rparr>,
     \<lparr>en_spec = cancel_spec voice_available, en_handler = handle_cancel\<rparr>,
     \<lparr>en_spec = command_spec ''token.rotate'', en_handler = handle_rotate\<rparr>]"

lemma spec_names [simp]:
  "cs_name (command_spec name) = name"
  "cs_name (set_expression_spec display) = ''face.set_expression''"
  "cs_name configure_spec = ''gateway.configure''"
  "cs_name (start_spec voice) = ''conversation.start''" "cs_name (cancel_spec voice) = ''conversation.cancel''"
  by (simp_all add: command_spec_def set_expression_spec_def configure_spec_def start_spec_def cancel_spec_def)

lemma register_commands_all: "register_commands display voice [] = (True, device_commands display voice)"
  by (simp add: register_commands_def register_device_commands_def register_estop_commands_def
      register_face_commands_def register_gateway_commands_def register_conversation_commands_def
      register_token_commands_def registry_add_def kMaxCommands_def device_commands_def)

section \<open>Every handler writes one document, or nothing\<close>

definition writes_document :: "json_writer \<Rightarrow> ErrorCode \<times> json_writer \<times> 'w device \<Rightarrow> bool" where
  "writes_document payload result =
    (case result of (code, payload', d) \<Rightarrow>
       if code = ErrorCode_none then \<exists>j. payload' = write_json j payload \<and> height j \<le> 5 \<and> tree_ok True 5 j
       else payload' = payload)"

lemma writes_documentI:
  "payload' = write_json j payload \<Longrightarrow> height j \<le> 5 \<Longrightarrow> tree_ok True 5 j \<Longrightarrow>
   writes_document payload (ErrorCode_none, payload', d)"
  by (auto simp: writes_document_def)

lemma writes_nothing: "code \<noteq> ErrorCode_none \<Longrightarrow> writes_document payload (code, payload, d)"
  by (simp add: writes_document_def)

lemma flag_document: "end_object (member_bool n b (begin_object w)) = write_json (JObject [(n, JBool b)]) w"
  and text_document: "end_object (member_string n s (begin_object w)) = write_json (JObject [(n, JText s)]) w"
  by (simp_all add: member_bool_def member_string_def)

lemmas literal_keys = escape_def escape_char_def char_byte_def key_ok_def

definition state_tree :: "device_state \<Rightarrow> jtree" where
  "state_tree st =
    JObject [(''estop'', JBool (estop st)), (''conversation'', JText (phase_to_string (conversation st))),
      (''audio_busy'', JBool (audio_busy st)), (''expression'', JText (expression_to_string (expression st))),
      (''network_connected'', JBool (network_connected st)),
      (''can_start_conversation'', JBool (can_start_conversation st)), (''blocked_by'', JText (why_cannot_start st))]"

lemma handle_state_tree:
  "handle_state d params payload = (ErrorCode_none, write_json (state_tree (dv_state (refresh_state d))) payload, refresh_state d)"
  by (simp add: handle_state_def state_tree_def member_bool_def member_string_def Let_def)

lemma state_tree_ok: "tree_ok True 5 (state_tree st)" "height (state_tree st) \<le> 5"
  by (simp_all add: state_tree_def literal_keys)

lemma health_tree_ok: "tree_ok True 5 (health_tree uptime snapshot psram level)"
  by (simp add: health_tree_def literal_keys)

lemma one_member_ok [simp]: "key_ok n \<Longrightarrow> tree_ok True 5 (JObject [(n, JBool b)])" "height (JObject [(n, JBool b)]) \<le> 5"
  "key_ok n \<Longrightarrow> tree_ok True 5 (JObject [(n, JText s)])" "height (JObject [(n, JText s)]) \<le> 5"
  by simp_all

lemma start_answer:
  "writes_document payload
    (ErrorCode_none, end_object (member_string ''mode'' mode (member_bool ''accepted'' True (begin_object payload))), d)"
proof (rule writes_documentI)
  show "end_object (member_string ''mode'' mode (member_bool ''accepted'' True (begin_object payload))) =
      write_json (JObject [(''accepted'', JBool True), (''mode'', JText mode)]) payload"
    by (simp add: member_bool_def member_string_def)
qed (simp_all add: literal_keys)

lemma items_ok_map: "items_ok u l (map f xs) \<longleftrightarrow> (\<forall>x\<in>set xs. tree_ok u l (f x))"
  by (induction xs) simp_all

lemma specs_ok: "\<forall>e\<in>set (device_commands display voice). tree_ok True 3 (spec_tree (en_spec e))"
  by (cases display; cases voice)
    (auto simp: device_commands_def spec_tree_def choices_tree_def command_spec_def set_expression_spec_def
      configure_spec_def start_spec_def cancel_spec_def literal_keys kExpressionNames_def)

lemma description_ok: "tree_ok True 5 (description_tree identity (map en_spec (device_commands display voice)) uptime)"
proof -
  have "\<forall>e\<in>set (device_commands display voice). tree_ok True 3 (spec_tree (en_spec e))" by (rule specs_ok)
  then have "items_ok True 3 (map spec_tree (map en_spec (device_commands display voice)))"
    by (simp only: items_ok_map list.map_comp o_def)
  then show ?thesis by (simp add: description_tree_def literal_keys)
qed

lemma description_document:
  assumes "dv_specs d = map en_spec (device_commands display voice)"
  shows "writes_document payload (handle_describe d params payload)"
  unfolding handle_describe_def assms write_description_tree
  by (rule writes_documentI [OF refl description_height description_ok])

lemma start_input_code: "read_conversation_start_input p = (code, words, unread) \<Longrightarrow>
    code = ErrorCode_none \<or> code = ErrorCode_invalid_argument"
  by (auto simp: read_conversation_start_input_def split: if_splits option.splits prod.splits)

lemma start_document: "writes_document payload (handle_start d params payload)"
proof -
  obtain code words unread where i: "read_conversation_start_input params = (code, words, unread)" by (metis prod_cases3)
  show ?thesis
    by (auto simp: handle_start_def i Let_def split: prod.split intro!: writes_nothing start_answer)
qed

lemma handler_documents:
  "writes_document payload (handle_state d params payload)"
  "writes_document payload (handle_health d params payload)"
  "writes_document payload (handle_engage d params payload)"
  "writes_document payload (handle_clear d params payload)"
  "writes_document payload (handle_set_expression d params payload)"
  "writes_document payload (handle_configure d params payload)"
  "writes_document payload (handle_cancel d params payload)"
  "writes_document payload (handle_rotate d params payload)"
proof -
  note one = writes_documentI [OF flag_document one_member_ok(2,1)] writes_documentI [OF text_document one_member_ok(4,3)]
  have keys: "key_ok ''estop''" "key_ok ''expression''" "key_ok ''url''" "key_ok ''cancelled''" "key_ok ''token''"
    by (simp_all add: key_ok_def)
  show "writes_document payload (handle_state d params payload)"
    unfolding handle_state_tree by (rule writes_documentI [OF refl state_tree_ok(2,1)])
  show "writes_document payload (handle_health d params payload)"
    unfolding handle_health_def Let_def write_health_tree
    by (rule writes_documentI [OF refl _ health_tree_ok]) simp
  show "writes_document payload (handle_engage d params payload)" "writes_document payload (handle_clear d params payload)"
    "writes_document payload (handle_cancel d params payload)"
    by (auto simp: handle_engage_def handle_clear_def handle_cancel_def Let_def intro!: one keys)
  show "writes_document payload (handle_set_expression d params payload)"
    "writes_document payload (handle_configure d params payload)"
    "writes_document payload (handle_rotate d params payload)"
    by (auto simp: handle_set_expression_def handle_configure_def handle_rotate_def Let_def
        split: option.split prod.split intro!: one keys writes_nothing)
qed

lemma dispatch_document:
  fixes d :: "'w device"
  assumes "dv_specs d = map en_spec (device_commands display voice :: 'w device command_registry)"
  shows "writes_document payload (dispatch (device_commands display voice) name params payload d)"
proof (cases "registry_find name (device_commands display voice :: 'w device command_registry)")
  case None
  then show ?thesis by (simp add: dispatch_def writes_nothing)
next
  case (Some e)
  have "e \<in> set (device_commands display voice)" using registry_find_Some [OF Some] by simp
  then have "writes_document payload (en_handler e d params payload)"
    by (auto simp: device_commands_def intro: handler_documents start_document description_document [OF assms])
  then show ?thesis using Some by (simp add: dispatch_def writes_nothing)
qed

section \<open>Every answer\<close>

lemma error_tree_ok: "tree_ok True 7 (error_tree ident code message)"
  by (simp add: error_tree_def header_members_def literal_keys)

lemma result_tree_ok: "jvalue True 6 payload \<Longrightarrow> tree_ok True 7 (result_tree ident payload)"
  using jv_empty_object [OF ws_Nil, of True 5]
  by (cases payload) (simp_all add: result_tree_def header_members_def payload_tree_def literal_keys kEmptyPayload_def)

lemma jvalue_deeper:
  "jvalue u l t \<Longrightarrow> l \<le> l' \<Longrightarrow> jvalue u l' t"
  "jmembers u l ms t \<Longrightarrow> l \<le> l' \<Longrightarrow> jmembers u l' ms t"
  "jelements u l t \<Longrightarrow> l \<le> l' \<Longrightarrow> jelements u l' t"
proof (induction arbitrary: l' and l' and l' rule: jvalue_jmembers_jelements.inducts)
  case (jv_empty_object w l)
  then show ?case by (cases l') (auto intro: jvalue_jmembers_jelements.intros)
next
  case (jv_object w l ms t)
  then show ?case by (cases l') (auto intro: jvalue_jmembers_jelements.intros)
next
  case (jv_empty_array w l)
  then show ?case by (cases l') (auto intro: jvalue_jmembers_jelements.intros)
next
  case (jv_array w l t)
  then show ?case by (cases l') (auto intro: jvalue_jmembers_jelements.intros)
qed (auto intro: jvalue_jmembers_jelements.intros)

lemma handled_answer:
  fixes d :: "'w device"
  assumes "writes_document (json_writer kPayloadBytes) (code, payload, d)"
  shows "tree_ok True 7 (handled_tree ident code payload)"
proof (cases "code = ErrorCode_none \<and> jw_valid payload")
  case True
  then obtain j where "payload = write_json j (json_writer kPayloadBytes)" "tree_ok True 5 j"
    using assms by (auto simp: writes_document_def)
  then have "jvalue True 5 (jw_text payload)" using True valid_document by simp
  then have "jvalue True 6 (jw_text payload)" by (rule jvalue_deeper(1)) simp
  then show ?thesis using True by (simp add: handled_tree_def error_tree_ok result_tree_ok)
next
  case False
  then show ?thesis by (auto simp: handled_tree_def error_tree_ok)
qed

section \<open>What handlers leave alone\<close>

lemma refresh_state_frame [frame_rules, simp]:
  "dv_specs (refresh_state d) = dv_specs d" "dv_cancel (refresh_state d) = dv_cancel d"
  "dv_shown (refresh_state d) = dv_shown d" "dv_task (refresh_state d) = dv_task d"
  "estop (dv_state (refresh_state d)) = emergency (dv_cancel d)"
  "can_start_conversation (dv_state (refresh_state d)) \<longleftrightarrow>
     \<not> emergency (dv_cancel d) \<and> ct_phase (dv_task d) = ConversationPhase_idle \<and>
     dv_network_phase d = NetworkPhase_connected \<and> dv_gateway_url d \<noteq> []"
  by (simp_all add: refresh_state_def can_start_conversation_def task_phase_def Let_def)

lemma emergency_kept [simp]: "emergency m \<Longrightarrow> emergency (cancel reason m)"
  by (simp add: emergency_def cancel_def)

lemma cancel_emergency [simp]: "emergency (cancel CancelReason_emergency_stop m)"
  by (cases m) (simp_all add: emergency_def cancel_def less_CancelReason_def)

definition holds_still :: "'w device \<Rightarrow> 'w device \<Rightarrow> bool" where
  "holds_still d d' \<longleftrightarrow> emergency (dv_cancel d') \<and> dv_shown d' = dv_shown d \<and> dv_task d' = dv_task d"

lemma handlers_hold_still:
  assumes "emergency (dv_cancel d)" and "e \<in> set (device_commands display voice)"
    and "cs_name (en_spec e) \<noteq> ''estop.clear''"
  shows "holds_still d (snd (snd (en_handler e d params payload)))"
  using assms
  by (auto simp: device_commands_def holds_still_def handle_describe_def handle_state_def handle_health_def
      handle_engage_def handle_set_expression_def handle_configure_def handle_start_def handle_cancel_def
      handle_rotate_def Let_def split: option.split prod.split)

lemma handlers_keep_specs:
  assumes "e \<in> set (device_commands display voice)"
  shows "dv_specs (snd (snd (en_handler e d params payload))) = dv_specs d"
  using assms
  by (auto simp: device_commands_def handle_describe_def handle_state_def handle_health_def
      handle_engage_def handle_clear_def handle_set_expression_def handle_configure_def handle_start_def
      handle_cancel_def handle_rotate_def Let_def split: option.split prod.split)

lemma dispatch_result:
  assumes "dispatch registry name params payload d = (code, answer, d')"
  obtains "d' = d" | e where "e \<in> set registry" and "cs_name (en_spec e) = name"
    and "en_handler e d params payload = (code, answer, d')"
proof (cases "registry_find name registry")
  case None
  then show ?thesis using assms that(1) by (simp add: dispatch_def)
next
  case (Some e)
  then show ?thesis
    using assms that registry_find_Some [OF Some] by (cases "cs_available (en_spec e)") (auto simp: dispatch_def)
qed

lemma dispatch_keeps_specs:
  assumes "dispatch (device_commands display voice) name params payload d = (code, answer, d')"
  shows "dv_specs d' = dv_specs d"
proof (rule dispatch_result [OF assms])
  fix e
  assume "e \<in> set (device_commands display voice)" and h: "en_handler e d params payload = (code, answer, d')"
  from handlers_keep_specs [OF this(1), of d params payload] h show ?thesis by simp
qed simp

lemma dispatch_holds_still:
  assumes "emergency (dv_cancel d)" and "name \<noteq> ''estop.clear''"
    and "dispatch (device_commands display voice) name params payload d = (code, answer, d')"
  shows "holds_still d d'"
proof (rule dispatch_result [OF assms(3)])
  fix e
  assume e: "e \<in> set (device_commands display voice)" "cs_name (en_spec e) = name"
    and h: "en_handler e d params payload = (code, answer, d')"
  from handlers_hold_still [OF assms(1) e(1), of params payload] e(2) assms(2) h show ?thesis by simp
qed (simp add: holds_still_def assms(1))

section \<open>Properties\<close>

lemma route_dispatched:
  fixes d :: "'w device"
  assumes "token_wf token"
  obtains ident code message where
      "route registry token presented body d = (render (error_tree ident code message), d)"
  | name code payload d' where "read_request_name body = Some name"
    and "dispatch registry name (scan_params (request_payload body)) (json_writer kPayloadBytes) d = (code, payload, d')"
    and "route registry token presented body d = (render (handled_tree (read_request_id body) code payload), d')"
proof (cases "refusal token presented body")
  case None
  obtain name where name: "read_request_name body = Some name"
    using None by (auto simp: refusal_def split: if_splits)
  obtain code payload d' where r: "dispatch registry (the (read_request_name body)) (scan_params (request_payload body))
      (json_writer kPayloadBytes) d = (code, payload, d')" by (metis prod_cases3)
  from that(2) [OF name _ route_accepted [OF assms None r]] r name show ?thesis by simp
next
  case (Some r)
  obtain ident message where "r = (ident, message)" by fastforce
  with Some that(1) show ?thesis using route_refused [OF assms, of presented body ident message registry d] by simp
qed

text \<open>While the emergency stop is engaged, no request other than \<open>estop.clear\<close> moves anything.\<close>

lemma request_holds_still:
  fixes d :: "'w device"
  assumes "token_wf token" and "emergency (dv_cancel d)" and "read_request_name body \<noteq> Some ''estop.clear''"
  shows "holds_still d (snd (route (device_commands display voice) token presented body d))"
proof -
  let ?registry = "device_commands display voice :: 'w device command_registry"
  show ?thesis 
  proof (cases rule: route_dispatched [OF assms(1), of ?registry presented body d])
    case (1 ident code message)
    then show "holds_still d (snd (route ?registry token presented body d))"
      using assms(2) by (simp add: holds_still_def)
  next
    case (2 name code payload d')
    then show "holds_still d (snd (route ?registry token presented body d))"
      using dispatch_holds_still [OF assms(2) _ 2(2)] assms(3) 2(1,3) by auto
  qed
qed

text \<open>Whatever the request, the answer of the device with all its commands is one JSON value of the
  grammar the checked reader accepts, with distinct keys.\<close>

lemma request_json:
  fixes d :: "'w device"
  assumes "token_wf token"
    and specs: "dv_specs d = map en_spec (device_commands display voice :: 'w device command_registry)"
  shows "jvalue True 7 (fst (route (device_commands display voice) token presented body d))"
proof -
  let ?registry = "device_commands display voice :: 'w device command_registry"
  show ?thesis
  proof (cases rule: route_dispatched [OF assms(1), of ?registry presented body d])
    case (1 ident code message)
    then show "jvalue True 7 (fst (route ?registry token presented body d))"
      using tree_ok_value(1) [OF error_tree_ok, of ident code message] by simp
  next
    case (2 name code payload d')
    have "writes_document (json_writer kPayloadBytes) (code, payload, d')"
      using dispatch_document [OF specs, of "json_writer kPayloadBytes" name] 2(2) by metis
    from tree_ok_value(1) [OF handled_answer [OF this]] show "jvalue True 7 (fst (route ?registry token presented body d))"
      using 2(3) by simp
  qed
qed

text \<open>C15: a conversation is started exactly when the device can start one and the words are in order;
  then, and only then, the task is handed the words, and in every case the emergency stop, the
  cancellation and the face stay as they are.\<close>
theorem start_accepted_exactly:
  assumes "read_conversation_start_input params = (input_error, words, unread)"
  shows "let ready = (input_error = ErrorCode_none \<and> \<not> emergency (dv_cancel d) \<and>
        ct_phase (dv_task d) = ConversationPhase_idle \<and> dv_network_phase d = NetworkPhase_connected \<and>
        dv_gateway_url d \<noteq> [] \<and> ct_running (dv_task d));
      (code, answer, d') = handle_start d params payload
    in (code = ErrorCode_none \<longleftrightarrow> ready) \<and>
      dv_task d' = (if ready then (dv_task d)\<lparr>ct_phase := ConversationPhase_listening, ct_spoken := words, ct_notified := True\<rparr>
        else dv_task d) \<and>
      dv_cancel d' = dv_cancel d \<and> dv_shown d' = dv_shown d"
proof -
  have "length words \<le> kMaxSpokenTextBytes" if "input_error = ErrorCode_none"
    using assms(1) that by (auto simp: read_conversation_start_input_def kMaxSpokenTextBytes_def
        split: if_splits option.splits prod.splits)
  then show ?thesis
    unfolding handle_start_def assms(1)
    by (auto simp: Let_def request_start_def not_less split: prod.split)
qed

definition demo_device :: "demo_world device" where
  "demo_device =
    \<lparr>dv_specs = map en_spec (device_commands True True :: demo_world device command_registry),
     dv_state = initial_device_state, dv_cancel = CancelReason_none, dv_shown = [],
     dv_task = demo_task CancelReason_none, dv_network_phase = NetworkPhase_connected,
     dv_access_point_up = False, dv_ip = ''10.0.0.2'', dv_gateway_url = ''http://g'',
     dv_url_write_works = True,
     dv_identity = \<lparr>di_device_id = ''d'', di_boot_id = boot_unset, di_firmware_version = ''1'',
       di_firmware_idf = ''5'', di_firmware_build = ''b''\<rparr>,
     dv_uptime_ms = 1, dv_memory = \<lparr>internal_free = 100000, largest_internal_block = 50000\<rparr>,
     dv_psram_free = 1000,
     dv_secrets = \<lparr>is_token = open_token, is_loaded = True, is_new = False, is_drawn = 0, is_writes = 0,
       is_stored = [], is_random = (\<lambda>i. word_of_nat i), is_write_works = (\<lambda>i. True)\<rparr>,
     dv_nvs_up = True, dv_stored_token = None\<rparr>"

lemma start_accepted_exactly_witness:
  "ct_phase (dv_task (snd (snd (handle_start demo_device (scan_params []) (json_writer 100))))) =
    ConversationPhase_listening"
proof -
  have "read_conversation_start_input (scan_params []) = (ErrorCode_none, [], scan_params [])"
    by (simp add: read_conversation_start_input_def params_empty_def scan_params_def)
  from start_accepted_exactly [OF this, of demo_device "json_writer 100"] show ?thesis
    by (simp add: demo_device_def demo_task_def conversation_task_def emergency_def split: prod.splits)
qed

end
