(* ===== verification/Wifi.thy ===== *)
theory Wifi
  imports Network_Policy
begin

unbundle bit_operations_syntax

text \<open>
  \<open>stackchan_net/wifi.cpp\<close>: the glue between the radio and the reconnection policy. The radio, its
  driver and the storage are a parameter (\<open>radio\<close>) over a world; what the event task does between two
  operations is a list of events. The builds for the emulator are left out.
\<close>

section \<open>State\<close>

datatype wifi_event =
    Event_scan_done
  | Event_guest_joined
  | Event_guest_left
  | Event_disconnected
  | Event_got_ip string

datatype wifi_mode = Mode_sta | Mode_apsta

datatype nvs_result = Nvs_ok | Nvs_no_free_pages | Nvs_new_version | Nvs_failed

record 'w radio =
  nvs_init :: "'w \<Rightarrow> nvs_result \<times> 'w"
  nvs_erase :: "'w \<Rightarrow> bool \<times> 'w"
  nvs_credentials :: "'w \<Rightarrow> (string option \<times> string option) option"
  nvs_store :: "string \<Rightarrow> string \<Rightarrow> 'w \<Rightarrow> bool \<times> 'w"
  netif_init :: "'w \<Rightarrow> bool \<times> 'w"
  radio_init :: "'w \<Rightarrow> bool \<times> 'w"
  radio_random :: "'w \<Rightarrow> u32 \<times> 'w"
  radio_mac :: "'w \<Rightarrow> u8 list option"
  radio_mode :: "wifi_mode \<Rightarrow> 'w \<Rightarrow> bool \<times> 'w"
  radio_configure_ap :: "string \<Rightarrow> string \<Rightarrow> 'w \<Rightarrow> bool \<times> 'w"
  radio_configure_sta :: "string \<Rightarrow> string \<Rightarrow> 'w \<Rightarrow> bool \<times> 'w"
  radio_start :: "'w \<Rightarrow> bool \<times> 'w"
  radio_stop :: "'w \<Rightarrow> 'w"
  radio_connect :: "'w \<Rightarrow> bool \<times> 'w"
  scan_start :: "'w \<Rightarrow> bool \<times> 'w"
  scan_stop :: "'w \<Rightarrow> 'w"
  scan_count :: "'w \<Rightarrow> nat"
  scan_records :: "nat \<Rightarrow> 'w \<Rightarrow> (string \<times> 8 word) list option \<times> 'w"
  radio_wait :: "nat \<Rightarrow> 'w \<Rightarrow> wifi_event list \<times> 'w"

text \<open>The file's globals: \<open>Status\<close>, the policy, the scan and the flags the event task sets.\<close>

record 'w wifi =
  wf_phase :: NetworkPhase
  wf_access_point_up :: bool
  wf_ip :: string
  wf_ap_ssid :: string
  wf_ap_password :: string
  wf_consecutive_failures :: u8
  wf_policy :: network_policy
  wf_started :: bool
  wf_credentials_present :: bool
  wf_scan :: "(string \<times> 8 word) list"
  wf_scan_done :: bool
  wf_sta_got_ip :: bool
  wf_sta_lost :: bool
  wf_ap_guests :: u8
  wf_world :: 'w

definition wifi_new :: "'w \<Rightarrow> 'w wifi" where
  "wifi_new w =
    \<lparr>wf_phase = NetworkPhase_unprovisioned, wf_access_point_up = False, wf_ip = [], wf_ap_ssid = [],
     wf_ap_password = [], wf_consecutive_failures = 0, wf_policy = network_policy 1000 60000 3,
     wf_started = False, wf_credentials_present = False, wf_scan = [], wf_scan_done = False,
     wf_sta_got_ip = False, wf_sta_lost = False, wf_ap_guests = 0, wf_world = w\<rparr>"

definition kMaxScanEntries :: nat where
  "kMaxScanEntries = 20"

definition kApAlphabet :: string where
  "kApAlphabet = ''0123456789ABCDEFGHJKMNPQRSTVWXYZ''"

definition kScanDeadlineMs :: nat where
  "kScanDeadlineMs = 6000"

section \<open>Names and credentials\<close>

primrec ap_password :: "nat \<Rightarrow> 'w radio \<Rightarrow> 'w \<Rightarrow> string \<times> 'w" where
  "ap_password 0 radio w = ([], w)"
| "ap_password (Suc n) radio w =
    (let (r, w) = radio_random radio w;
         (rest, w) = ap_password n radio w
     in (kApAlphabet ! unat (r mod 32) # rest, w))"

text \<open>\<open>make_ap_password\<close> for a buffer of \<open>room\<close> bytes, the last of which is the zero.\<close>

definition make_ap_password :: "nat \<Rightarrow> 'w radio \<Rightarrow> 'w \<Rightarrow> string \<times> 'w" where
  "make_ap_password room radio w = ap_password (room - 1) radio w"

definition kUpperHex :: string where
  "kUpperHex = ''0123456789ABCDEF''"

text \<open>The conversion \<open>%X\<close>: no leading zeros.\<close>

fun hex_digits :: "nat \<Rightarrow> string" where
  "hex_digits n = (if n < 16 then [kUpperHex ! n] else hex_digits (n div 16) @ [kUpperHex ! (n mod 16)])"

declare hex_digits.simps [simp del]

definition build_ap_ssid :: "'w radio \<Rightarrow> 'w \<Rightarrow> string" where
  "build_ap_ssid radio w =
    (let mac = (case radio_mac radio w of None \<Rightarrow> replicate 6 0 | Some m \<Rightarrow> m);
         id = push_bit 16 (ucast (mac ! 2)) OR push_bit 8 (ucast (mac ! 1)) OR ucast (mac ! 0) :: u32
     in ''STACKCHAN-'' @ hex_digits (unat id))"

text \<open>The buffers hold 32 and 64 bytes and a zero; what does not fit is an error of the storage.\<close>

definition load_credentials :: "'w radio \<Rightarrow> 'w \<Rightarrow> (string \<times> string) option" where
  "load_credentials radio w =
    (case nvs_credentials radio w of
       None \<Rightarrow> None
     | Some (ssid, password) \<Rightarrow>
         (case (ssid, password) of
            (Some s, Some p) \<Rightarrow>
              if length s < 33 \<and> length p < 65 \<and> s \<noteq> [] then Some (s, p) else None
          | _ \<Rightarrow> None))"

section \<open>Events\<close>

fun on_wifi_event :: "wifi_event \<Rightarrow> 'w wifi \<Rightarrow> 'w wifi" where
  "on_wifi_event Event_scan_done s = s\<lparr>wf_scan_done := True\<rparr>"
| "on_wifi_event Event_guest_joined s = s\<lparr>wf_ap_guests := wf_ap_guests s + 1\<rparr>"
| "on_wifi_event Event_guest_left s =
    (if wf_ap_guests s > 0 then s\<lparr>wf_ap_guests := wf_ap_guests s - 1\<rparr> else s)"
| "on_wifi_event Event_disconnected s = s\<lparr>wf_ip := [], wf_sta_lost := True\<rparr>"
| "on_wifi_event (Event_got_ip address) s = s\<lparr>wf_ip := address, wf_sta_got_ip := True\<rparr>"

section \<open>Operations\<close>

definition configure_access_point :: "'w radio \<Rightarrow> 'w wifi \<Rightarrow> bool \<times> 'w wifi" where
  "configure_access_point radio s =
    (let s = s\<lparr>wf_ap_ssid := build_ap_ssid radio (wf_world s)\<rparr>;
         (ok, w) = radio_configure_ap radio (wf_ap_ssid s) (wf_ap_password s) (wf_world s)
     in (ok, s\<lparr>wf_world := w\<rparr>))"

text \<open>The wait of a scan: a tenth of a second at a time, while the event task may run.\<close>

function wait_for_scan :: "'w radio \<Rightarrow> nat \<Rightarrow> 'w wifi \<Rightarrow> 'w wifi" where
  "wait_for_scan radio waited s =
    (if \<not> wf_scan_done s \<and> waited < kScanDeadlineMs then
       (let (events, w) = radio_wait radio 100 (wf_world s)
        in wait_for_scan radio (waited + 100) (fold on_wifi_event events (s\<lparr>wf_world := w\<rparr>)))
     else s)"
  by pat_completeness auto
termination
  by (relation "measure (\<lambda>(radio, waited, s). kScanDeadlineMs - waited)") auto

declare wait_for_scan.simps [simp del]

text \<open>Networks with a name, each cut to the entry's 32 bytes.\<close>

definition scan_entries :: "(string \<times> 8 word) list \<Rightarrow> (string \<times> 8 word) list" where
  "scan_entries records = map (\<lambda>(ssid, rssi). (take 32 ssid, rssi)) (filter (\<lambda>(ssid, rssi). ssid \<noteq> []) records)"

definition run_bounded_scan :: "'w radio \<Rightarrow> 'w wifi \<Rightarrow> bool \<times> 'w wifi" where
  "run_bounded_scan radio s =
    (let s = s\<lparr>wf_scan_done := False\<rparr>;
         (ok, w) = scan_start radio (wf_world s);
         s = s\<lparr>wf_world := w\<rparr>
     in if \<not> ok then (False, s)
        else
          (let s = wait_for_scan radio 0 s
           in if \<not> wf_scan_done s then (False, s\<lparr>wf_world := scan_stop radio (wf_world s)\<rparr>)
              else
                (let count = scan_count radio (wf_world s);
                     taken = (if count < kMaxScanEntries then count else kMaxScanEntries);
                     (records, w) = scan_records radio taken (wf_world s);
                     s = s\<lparr>wf_world := w\<rparr>
                 in case records of
                      None \<Rightarrow> (False, s)
                    | Some rs \<Rightarrow> (True, s\<lparr>wf_scan := scan_entries rs\<rparr>))))"

definition start_access_point :: "'w radio \<Rightarrow> 'w wifi \<Rightarrow> bool \<times> 'w wifi" where
  "start_access_point radio s =
    (if wf_access_point_up s then (True, s)
     else
       (let s = (if wf_scan s = [] then snd (run_bounded_scan radio s) else s);
            (ok, w) = radio_mode radio Mode_apsta (wf_world s);
            s = s\<lparr>wf_world := w\<rparr>
        in if \<not> ok then (False, s)
           else
             (let (ok, s) = configure_access_point radio s
              in if \<not> ok then (False, s) else (True, s\<lparr>wf_access_point_up := True\<rparr>))))"

definition try_connect :: "'w radio \<Rightarrow> u32 \<Rightarrow> 'w wifi \<Rightarrow> 'w wifi" where
  "try_connect radio now s =
    (case load_credentials radio (wf_world s) of
       None \<Rightarrow> s\<lparr>wf_credentials_present := False, wf_policy := set_provisioned False (wf_policy s)\<rparr>
     | Some (ssid, password) \<Rightarrow>
         (let (ok, w) = radio_configure_sta radio ssid password (wf_world s);
              s = s\<lparr>wf_world := w\<rparr>
          in if \<not> ok then s\<lparr>wf_policy := on_failed now (wf_policy s)\<rparr>
             else
               (let s = s\<lparr>wf_policy := on_attempt_started now (wf_policy s)\<rparr>;
                    (ok, w) = radio_connect radio (wf_world s);
                    s = s\<lparr>wf_world := w\<rparr>
                in if \<not> ok then s\<lparr>wf_policy := on_failed now (wf_policy s)\<rparr> else s)))"

definition scan_before_access_point :: "'w radio \<Rightarrow> 'w wifi \<Rightarrow> 'w wifi" where
  "scan_before_access_point radio s =
    (let (moded, w) = radio_mode radio Mode_sta (wf_world s)
     in if \<not> moded then s\<lparr>wf_world := w\<rparr>
        else
          (let (started, w) = radio_start radio w;
               s = s\<lparr>wf_world := w\<rparr>
           in if \<not> started then s
              else (let s = snd (run_bounded_scan radio s)
                    in s\<lparr>wf_world := radio_stop radio (wf_world s)\<rparr>)))"

text \<open>The storage of \<open>begin\<close>, erased when it cannot be used.\<close>

definition bring_up_nvs :: "'w radio \<Rightarrow> 'w \<Rightarrow> bool \<times> 'w" where
  "bring_up_nvs radio w =
    (let (result, w) = nvs_init radio w
     in if result = Nvs_no_free_pages \<or> result = Nvs_new_version then
          (let (erased, w) = nvs_erase radio w
           in if \<not> erased then (False, w)
              else (let (result, w) = nvs_init radio w in (result = Nvs_ok, w)))
        else (result = Nvs_ok, w))"

text \<open>The rest of \<open>begin\<close>, from the credentials on. What it only logs is left out.\<close>

definition bring_up_radio :: "'w radio \<Rightarrow> 'w wifi \<Rightarrow> bool \<times> 'w wifi" where
  "bring_up_radio radio s =
    (let s = s\<lparr>wf_credentials_present := load_credentials radio (wf_world s) \<noteq> None\<rparr>;
         s = s\<lparr>wf_policy := set_provisioned (wf_credentials_present s) (wf_policy s)\<rparr>;
         need_ap = should_open_access_point (wf_policy s);
         s = (if need_ap then scan_before_access_point radio s else s);
         (moded, w) = radio_mode radio (if need_ap then Mode_apsta else Mode_sta) (wf_world s);
         s = s\<lparr>wf_world := w\<rparr>
     in if \<not> moded then (False, s)
        else
          (let (configured, s) = (if need_ap then configure_access_point radio s else (True, s))
           in if \<not> configured then (False, s)
              else
                (let (started, w) = radio_start radio (wf_world s);
                     s = s\<lparr>wf_world := w\<rparr>
                 in if \<not> started then (False, s)
                    else (True, s\<lparr>wf_access_point_up := need_ap, wf_started := True\<rparr>))))"

definition wifi_begin :: "'w radio \<Rightarrow> 'w wifi \<Rightarrow> bool \<times> 'w wifi" where
  "wifi_begin radio s =
    (if wf_started s then (True, s)
     else
       (let (ready, w) = bring_up_nvs radio (wf_world s); s = s\<lparr>wf_world := w\<rparr>
        in if \<not> ready then (False, s)
           else
             (let (ready, w) = netif_init radio (wf_world s); s = s\<lparr>wf_world := w\<rparr>
              in if \<not> ready then (False, s)
                 else
                   (let (password, w) = make_ap_password 9 radio (wf_world s);
                        s = s\<lparr>wf_ap_password := password, wf_world := w\<rparr>;
                        (ready, w) = radio_init radio (wf_world s);
                        s = s\<lparr>wf_world := w\<rparr>
                    in if \<not> ready then (False, s) else bring_up_radio radio s))))"

definition wifi_tick :: "'w radio \<Rightarrow> u32 \<Rightarrow> 'w wifi \<Rightarrow> 'w wifi" where
  "wifi_tick radio now s =
    (if \<not> wf_started s then s
     else
       (let s = (if wf_sta_got_ip s
                 then s\<lparr>wf_sta_got_ip := False, wf_policy := on_connected (wf_policy s)\<rparr> else s);
            s = (if wf_sta_lost s
                 then s\<lparr>wf_sta_lost := False, wf_policy := on_failed now (wf_policy s)\<rparr> else s);
            s = s\<lparr>wf_policy := set_guest_count (wf_ap_guests s) (wf_policy s)\<rparr>;
            s = (if should_attempt now (wf_policy s) then try_connect radio now s else s);
            s = (if should_open_access_point (wf_policy s) \<and> \<not> wf_access_point_up s
                 then snd (start_access_point radio s) else s)
        in s\<lparr>wf_phase := np_phase (wf_policy s), wf_consecutive_failures := failures (wf_policy s)\<rparr>))"

text \<open>The strings are copied into zero-terminated buffers, so what is stored ends at a zero.\<close>

definition save_credentials :: "'w radio \<Rightarrow> string \<Rightarrow> string \<Rightarrow> 'w wifi \<Rightarrow> bool \<times> 'w wifi" where
  "save_credentials radio ssid password s =
    (if ssid = [] \<or> length ssid > 32 \<or> length password > 64 then (False, s)
     else
       (let (wrote, w) = nvs_store radio (takeWhile (\<lambda>c. c \<noteq> CHR 0x00) ssid)
                           (takeWhile (\<lambda>c. c \<noteq> CHR 0x00) password) (wf_world s);
            s = s\<lparr>wf_world := w\<rparr>
        in if wrote
           then (True, s\<lparr>wf_credentials_present := True, wf_policy := set_provisioned True (wf_policy s)\<rparr>)
           else (False, s)))"

definition has_credentials :: "'w wifi \<Rightarrow> bool" where
  "has_credentials s \<longleftrightarrow> wf_credentials_present s"

definition scan_results :: "'w wifi \<Rightarrow> (string \<times> 8 word) list" where
  "scan_results s = wf_scan s"

section \<open>What every operation keeps\<close>

text \<open>The policy is consistent, the scanned list fits its entries, and the phase reported is one the
  policy has had.\<close>

definition entry_ok :: "string \<times> 8 word \<Rightarrow> bool" where
  "entry_ok e \<longleftrightarrow> fst e \<noteq> [] \<and> length (fst e) \<le> 32"

definition wifi_wf :: "'w wifi \<Rightarrow> bool" where
  "wifi_wf s \<longleftrightarrow> policy_invar (wf_policy s) \<and> length (wf_scan s) \<le> kMaxScanEntries \<and> list_all entry_ok (wf_scan s)"

text \<open>The driver gives no more records than it was asked for.\<close>

definition bounded_records :: "'w radio \<Rightarrow> bool" where
  "bounded_records radio \<longleftrightarrow>
    (\<forall>n w. case fst (scan_records radio n w) of None \<Rightarrow> True | Some rs \<Rightarrow> length rs \<le> n)"

lemma wifi_wf_new [invariant_rules]: "wifi_wf (wifi_new w)"
  by (simp add: wifi_wf_def wifi_new_def policy_invar_new)

lemma wifi_wf_world [simp]: "wifi_wf (s\<lparr>wf_world := w\<rparr>) = wifi_wf s"
  by (simp add: wifi_wf_def)

lemma wifi_event_keeps [simp]:
  "wifi_wf (on_wifi_event e s) = wifi_wf s" "wf_access_point_up (on_wifi_event e s) = wf_access_point_up s"
  "wf_policy (on_wifi_event e s) = wf_policy s" "wf_started (on_wifi_event e s) = wf_started s"
  "wf_scan (on_wifi_event e s) = wf_scan s"
  by (cases e; simp add: wifi_wf_def)+

lemma wifi_events_keep [simp]:
  "wifi_wf (fold on_wifi_event es s) = wifi_wf s"
  "wf_access_point_up (fold on_wifi_event es s) = wf_access_point_up s"
  "wf_policy (fold on_wifi_event es s) = wf_policy s" "wf_started (fold on_wifi_event es s) = wf_started s"
  "wf_scan (fold on_wifi_event es s) = wf_scan s"
  by (induction es arbitrary: s) simp_all

lemma wait_for_scan_keeps_all:
  "wifi_wf (wait_for_scan radio waited s) = wifi_wf s \<and>
   wf_access_point_up (wait_for_scan radio waited s) = wf_access_point_up s \<and>
   wf_policy (wait_for_scan radio waited s) = wf_policy s \<and>
   wf_started (wait_for_scan radio waited s) = wf_started s \<and> wf_scan (wait_for_scan radio waited s) = wf_scan s"
proof (induction radio waited s rule: wait_for_scan.induct)
  case (1 radio waited s)
  obtain events w where e: "radio_wait radio 100 (wf_world s) = (events, w)" by fastforce
  show ?case
  proof (cases "\<not> wf_scan_done s \<and> waited < kScanDeadlineMs")
    case True
    with 1 [OF True e [symmetric] refl] e show ?thesis by (subst (1 2 3 4 5) wait_for_scan.simps) simp
  next
    case False
    then show ?thesis by (subst (1 2 3 4 5) wait_for_scan.simps) auto
  qed
qed

lemmas wait_for_scan_keeps [simp] = wait_for_scan_keeps_all [THEN conjunct1]
  wait_for_scan_keeps_all [THEN conjunct2, THEN conjunct1]
  wait_for_scan_keeps_all [THEN conjunct2, THEN conjunct2, THEN conjunct1]
  wait_for_scan_keeps_all [THEN conjunct2, THEN conjunct2, THEN conjunct2, THEN conjunct1]
  wait_for_scan_keeps_all [THEN conjunct2, THEN conjunct2, THEN conjunct2, THEN conjunct2]

text \<open>What the operations below \<open>tick\<close> keep: they never take the access point down.\<close>

lemma scan_entries_ok: "list_all entry_ok (scan_entries rs)" "length (scan_entries rs) \<le> length rs"
  by (auto simp: scan_entries_def entry_ok_def list_all_iff)

lemma run_bounded_scan_keeps:
  assumes "run_bounded_scan radio s = (ok, s')"
  shows "wf_access_point_up s' = wf_access_point_up s \<and> wf_policy s' = wf_policy s \<and>
    wf_started s' = wf_started s \<and> (bounded_records radio \<and> wifi_wf s \<longrightarrow> wifi_wf s')"
proof -
  let ?t = "\<lambda>w. wait_for_scan radio 0 (s\<lparr>wf_scan_done := False, wf_world := w\<rparr>)"
  have kept: "wifi_wf (?t w\<lparr>wf_world := v, wf_scan := scan_entries rs\<rparr>)"
    if "length rs \<le> kMaxScanEntries" "wifi_wf s" for v w rs
    using that scan_entries_ok [of rs] by (simp add: wifi_wf_def)
  have few: "length rs \<le> kMaxScanEntries"
    if "bounded_records radio" "scan_records radio n w = (Some rs, v)" "n \<le> kMaxScanEntries" for n w rs v
    using that unfolding bounded_records_def by (metis (mono_tags, lifting) fst_conv option.simps(5) order_trans)
  have same: "wifi_wf (s\<lparr>wf_scan_done := b, wf_world := w\<rparr>) = wifi_wf s" for b w by (simp add: wifi_wf_def)
  show ?thesis
    using assms kept few same
    by (auto simp: run_bounded_scan_def Let_def split: prod.splits option.splits if_splits)
qed

definition keeps :: "'w radio \<Rightarrow> 'w wifi \<Rightarrow> 'w wifi \<Rightarrow> bool" where
  "keeps radio s s' \<longleftrightarrow> (wf_access_point_up s \<longrightarrow> wf_access_point_up s') \<and> (bounded_records radio \<and> wifi_wf s \<longrightarrow> wifi_wf s')"

lemma keeps_refl [simp]: "keeps radio s s"
  by (simp add: keeps_def)

lemma keeps_trans: "keeps radio s t \<Longrightarrow> keeps radio t u \<Longrightarrow> keeps radio s u"
  by (auto simp: keeps_def)

lemma keeps_fields [simp]:
  "keeps radio s (t\<lparr>wf_world := w\<rparr>) = keeps radio s t"
  "keeps radio s (t\<lparr>wf_ap_ssid := name\<rparr>) = keeps radio s t"
  "keeps radio s (t\<lparr>wf_ap_password := name\<rparr>) = keeps radio s t"
  "keeps radio s (t\<lparr>wf_credentials_present := b\<rparr>) = keeps radio s t"
  "keeps radio s (t\<lparr>wf_sta_got_ip := b\<rparr>) = keeps radio s t"
  "keeps radio s (t\<lparr>wf_sta_lost := b\<rparr>) = keeps radio s t"
  "keeps radio s (t\<lparr>wf_phase := p\<rparr>) = keeps radio s t"
  "keeps radio s (t\<lparr>wf_consecutive_failures := n\<rparr>) = keeps radio s t"
  "keeps radio s (t\<lparr>wf_started := b\<rparr>) = keeps radio s t"
  by (simp_all add: keeps_def wifi_wf_def)

lemma keeps_policy:
  "keeps radio s t \<Longrightarrow> (policy_invar (wf_policy t) \<Longrightarrow> policy_invar p) \<Longrightarrow> keeps radio s (t\<lparr>wf_policy := p\<rparr>)"
  by (auto simp: keeps_def wifi_wf_def)

lemma keeps_up: "keeps radio s t \<Longrightarrow> keeps radio s (t\<lparr>wf_access_point_up := True\<rparr>)"
  by (auto simp: keeps_def wifi_wf_def)

lemma scan_keeps: "keeps radio s (snd (run_bounded_scan radio s))"
  using run_bounded_scan_keeps [of radio s] by (cases "run_bounded_scan radio s") (auto simp: keeps_def)

lemma configure_keeps: "keeps radio s (snd (configure_access_point radio s))"
  by (simp add: configure_access_point_def Let_def split: prod.split)

lemma start_access_point_keeps: "keeps radio s (snd (start_access_point radio s))"
proof (cases "wf_access_point_up s")
  case False
  let ?s = "if wf_scan s = [] then snd (run_bounded_scan radio s) else s"
  obtain moded w where m: "radio_mode radio Mode_apsta (wf_world ?s) = (moded, w)" by fastforce
  obtain ok t where c: "configure_access_point radio (?s\<lparr>wf_world := w\<rparr>) = (ok, t)" by fastforce
  have "keeps radio s ?s" using scan_keeps [of radio s] by simp
  moreover have "keeps radio (?s\<lparr>wf_world := w\<rparr>) t" using configure_keeps [of radio "?s\<lparr>wf_world := w\<rparr>"] c by simp
  ultimately have "keeps radio s (?s\<lparr>wf_world := w\<rparr>)" "keeps radio s t"
    using keeps_trans [of radio s "?s\<lparr>wf_world := w\<rparr>" t] by simp_all
  moreover from this(2) have "keeps radio s (t\<lparr>wf_access_point_up := True\<rparr>)" by (rule keeps_up)
  ultimately show ?thesis
    using False m c by (simp add: start_access_point_def Let_def split del: if_split) (simp split: if_split)
qed (simp add: start_access_point_def)

lemma try_connect_keeps: "keeps radio s (try_connect radio now s)"
proof -
  have pol: "keeps radio s (s\<lparr>wf_world := w, wf_policy := p\<rparr>)" if "policy_invar (wf_policy s) \<Longrightarrow> policy_invar p" for w p
    using keeps_policy [of radio s "s\<lparr>wf_world := w\<rparr>" p] that by simp
  have alone: "keeps radio s (s\<lparr>wf_credentials_present := b, wf_policy := p\<rparr>)"
    if "policy_invar (wf_policy s) \<Longrightarrow> policy_invar p" for b p
    using keeps_policy [of radio s "s\<lparr>wf_credentials_present := b\<rparr>" p] that by simp
  have again: "keeps radio s (s\<lparr>wf_world := w, wf_policy := p, wf_world := v, wf_policy := q\<rparr>)"
    if "policy_invar (wf_policy s) \<Longrightarrow> policy_invar q" for w p v q
    using pol [of q] that by simp
  have just: "keeps radio s (s\<lparr>wf_policy := p\<rparr>)" if "policy_invar (wf_policy s) \<Longrightarrow> policy_invar p" for p
    using keeps_policy [of radio s s p] that by simp
  show ?thesis
    by (auto simp: try_connect_def Let_def split: option.split prod.split
        intro!: pol just alone again policy_invar_set_provisioned policy_invar_failed policy_invar_attempt)
qed

lemma wifi_tick_keeps: "keeps radio s (wifi_tick radio now s)"
proof (cases "wf_started s")
  case True
  define s1 where "s1 = (if wf_sta_got_ip s then s\<lparr>wf_sta_got_ip := False, wf_policy := on_connected (wf_policy s)\<rparr> else s)"
  define s2 where "s2 = (if wf_sta_lost s1 then s1\<lparr>wf_sta_lost := False, wf_policy := on_failed now (wf_policy s1)\<rparr> else s1)"
  define s3 where "s3 = s2\<lparr>wf_policy := set_guest_count (wf_ap_guests s2) (wf_policy s2)\<rparr>"
  define s4 where "s4 = (if should_attempt now (wf_policy s3) then try_connect radio now s3 else s3)"
  define s5 where "s5 = (if should_open_access_point (wf_policy s4) \<and> \<not> wf_access_point_up s4
    then snd (start_access_point radio s4) else s4)"
  have s1: "keeps radio s s1"
    using keeps_policy [of radio s "s\<lparr>wf_sta_got_ip := False\<rparr>" "on_connected (wf_policy s)"]
    by (simp add: s1_def policy_invar_connected)
  have s2: "keeps radio s1 s2"
    using keeps_policy [of radio s1 "s1\<lparr>wf_sta_lost := False\<rparr>" "on_failed now (wf_policy s1)"]
    by (simp add: s2_def policy_invar_failed)
  have s3: "keeps radio s2 s3"
    using keeps_policy [of radio s2 s2 "set_guest_count (wf_ap_guests s2) (wf_policy s2)"]
    by (simp add: s3_def policy_invar_guests)
  have s4: "keeps radio s3 s4" by (simp add: s4_def try_connect_keeps)
  have s5: "keeps radio s4 s5" by (simp add: s5_def start_access_point_keeps)
  have "keeps radio s s5" by (rule keeps_trans [OF s1 keeps_trans [OF s2 keeps_trans [OF s3 keeps_trans [OF s4 s5]]]])
  moreover have "wifi_tick radio now s = s5\<lparr>wf_phase := np_phase (wf_policy s5), wf_consecutive_failures := failures (wf_policy s5)\<rparr>"
    using True unfolding wifi_tick_def Let_def s5_def s4_def s3_def s2_def s1_def by (simp only: if_True not_True_eq_False if_False)
  ultimately show ?thesis by simp
qed (simp add: wifi_tick_def)

lemma save_credentials_keeps: "keeps radio s (snd (save_credentials radio ssid password s))"
proof -
  have "keeps radio s (s\<lparr>wf_world := w, wf_credentials_present := True, wf_policy := set_provisioned True (wf_policy s)\<rparr>)" for w
    using keeps_policy [of radio s "s\<lparr>wf_world := w, wf_credentials_present := True\<rparr>" "set_provisioned True (wf_policy s)"]
    by (simp add: policy_invar_set_provisioned)
  then show ?thesis by (simp add: save_credentials_def Let_def split: prod.split)
qed

section \<open>Runs\<close>

datatype wifi_op = Op_event wifi_event | Op_tick u32 | Op_save string string

fun wifi_step :: "'w radio \<Rightarrow> wifi_op \<Rightarrow> 'w wifi \<Rightarrow> 'w wifi" where
  "wifi_step radio (Op_event e) s = on_wifi_event e s"
| "wifi_step radio (Op_tick now) s = wifi_tick radio now s"
| "wifi_step radio (Op_save ssid password) s = snd (save_credentials radio ssid password s)"

lemma wifi_step_keeps: "keeps radio s (wifi_step radio op s)"
proof (cases op)
  case (Op_event e)
  then show ?thesis by (simp add: keeps_def)
qed (simp_all add: wifi_tick_keeps save_credentials_keeps)

lemma wifi_run_keeps: "keeps radio s (fold (wifi_step radio) ops s)"
proof (induction ops arbitrary: s)
  case (Cons op ops)
  from keeps_trans [OF wifi_step_keeps Cons.IH] show ?case by simp
qed simp

section \<open>Start\<close>

lemma keeps_when_down: "keeps radio s t \<Longrightarrow> \<not> wf_access_point_up s \<Longrightarrow> keeps radio s (t\<lparr>wf_access_point_up := b\<rparr>)"
  by (auto simp: keeps_def wifi_wf_def)

lemma scan_before_keeps: "keeps radio s (scan_before_access_point radio s)"
proof -
  obtain moded w where m: "radio_mode radio Mode_sta (wf_world s) = (moded, w)" by fastforce
  obtain started w' where st: "radio_start radio w = (started, w')" by fastforce
  have "keeps radio s (snd (run_bounded_scan radio (s\<lparr>wf_world := w'\<rparr>)))"
    by (rule keeps_trans [OF _ scan_keeps]) simp
  then show ?thesis by (simp add: scan_before_access_point_def m st Let_def)
qed

lemma bring_up_radio_keeps:
  assumes "\<not> wf_access_point_up s"
  shows "keeps radio s (snd (bring_up_radio radio s))"
proof -
  define s1 where "s1 = s\<lparr>wf_credentials_present := load_credentials radio (wf_world s) \<noteq> None\<rparr>"
  define s2 where "s2 = s1\<lparr>wf_policy := set_provisioned (wf_credentials_present s1) (wf_policy s1)\<rparr>"
  define need where "need = should_open_access_point (wf_policy s2)"
  define s3 where "s3 = (if need then scan_before_access_point radio s2 else s2)"
  obtain moded w where m: "radio_mode radio (if need then Mode_apsta else Mode_sta) (wf_world s3) = (moded, w)" by fastforce
  obtain configured s4 where c: "(if need then configure_access_point radio (s3\<lparr>wf_world := w\<rparr>)
      else (True, s3\<lparr>wf_world := w\<rparr>)) = (configured, s4)" by fastforce
  obtain started w' where st: "radio_start radio (wf_world s4) = (started, w')" by fastforce
  have s2: "keeps radio s s2"
    using keeps_policy [of radio s s1 "set_provisioned (wf_credentials_present s1) (wf_policy s1)"]
    by (simp add: s2_def s1_def policy_invar_set_provisioned)
  have "keeps radio s2 s3" by (simp add: s3_def scan_before_keeps)
  with s2 have s3: "keeps radio s s3" by (rule keeps_trans)
  have "keeps radio (s3\<lparr>wf_world := w\<rparr>) s4"
    using c configure_keeps [of radio "s3\<lparr>wf_world := w\<rparr>"] by (auto split: if_splits)
  with s3 have s4: "keeps radio s s4" by (intro keeps_trans [of radio s "s3\<lparr>wf_world := w\<rparr>" s4]) simp_all
  have up: "keeps radio s (s4\<lparr>wf_world := w', wf_access_point_up := need, wf_started := True\<rparr>)"
    using keeps_when_down [of radio s "s4\<lparr>wf_world := w'\<rparr>" need] s4 assms by simp
  have "bring_up_radio radio s =
      (if \<not> moded then (False, s3\<lparr>wf_world := w\<rparr>) else if \<not> configured then (False, s4)
       else if \<not> started then (False, s4\<lparr>wf_world := w'\<rparr>)
       else (True, s4\<lparr>wf_world := w', wf_access_point_up := need, wf_started := True\<rparr>))"
    unfolding bring_up_radio_def Let_def
    by (simp only: s1_def [symmetric] s2_def [symmetric] need_def [symmetric] s3_def [symmetric] m c st prod.case)
  then show ?thesis using s3 s4 up by simp
qed

lemma wifi_begin_keeps:
  assumes "\<not> wf_access_point_up s"
  shows "keeps radio s (snd (wifi_begin radio s))"
proof -
  have "keeps radio s (snd (bring_up_radio radio (s\<lparr>wf_world := v, wf_ap_password := password, wf_world := w\<rparr>)))"
    for v password w
    by (rule keeps_trans [OF _ bring_up_radio_keeps]) (simp_all add: assms)
  then show ?thesis by (auto simp: wifi_begin_def Let_def split: prod.split)
qed

section \<open>The setup page can be reached\<close>

lemma tick_opens:
  assumes "wf_started s" and "\<forall>w. fst (radio_mode radio Mode_apsta w)"
    and "\<forall>ssid password w. fst (radio_configure_ap radio ssid password w)"
    and "should_open_access_point (wf_policy (wifi_tick radio now s))"
  shows "wf_access_point_up (wifi_tick radio now s)"
proof -
  have up: "wf_access_point_up (snd (start_access_point radio t))" for t
    using assms(2,3) by (auto simp: start_access_point_def configure_access_point_def Let_def split: prod.split)
      (metis fst_conv)+
  have same: "wf_policy (snd (start_access_point radio t)) = wf_policy t" for t
    using run_bounded_scan_keeps [of radio t] by (cases "run_bounded_scan radio t")
      (auto simp: start_access_point_def configure_access_point_def Let_def split: prod.split)
  define t where "t = (let s = (if wf_sta_got_ip s
                 then s\<lparr>wf_sta_got_ip := False, wf_policy := on_connected (wf_policy s)\<rparr> else s);
            s = (if wf_sta_lost s
                 then s\<lparr>wf_sta_lost := False, wf_policy := on_failed now (wf_policy s)\<rparr> else s);
            s = s\<lparr>wf_policy := set_guest_count (wf_ap_guests s) (wf_policy s)\<rparr>
     in if should_attempt now (wf_policy s) then try_connect radio now s else s)"
  define u where "u = (if should_open_access_point (wf_policy t) \<and> \<not> wf_access_point_up t
    then snd (start_access_point radio t) else t)"
  have tick: "wifi_tick radio now s = u\<lparr>wf_phase := np_phase (wf_policy u), wf_consecutive_failures := failures (wf_policy u)\<rparr>"
    using assms(1) unfolding wifi_tick_def u_def t_def Let_def by (simp only: if_True not_True_eq_False if_False)
  have "wf_policy u = wf_policy t" by (simp add: u_def same)
  then have "should_open_access_point (wf_policy t)" using assms(4) tick by simp
  then have "wf_access_point_up u" using up by (simp add: u_def)
  then show ?thesis by (simp add: tick)
qed

text \<open>Credentials that are saved while the station is connected change nothing at the next tick: the old
  connection stays, and the radio is not asked for anything.\<close>

lemma saved_while_connected:
  assumes "save_credentials radio ssid password s = (True, s')" and "np_phase (wf_policy s) = NetworkPhase_connected"
    and "\<not> wf_sta_lost s" and "wf_started s"
  shows "wf_world (wifi_tick radio now s') = wf_world s' \<and> wf_phase (wifi_tick radio now s') = NetworkPhase_connected"
proof -
  have p: "provisioned (wf_policy s')" "np_phase (wf_policy s') = NetworkPhase_connected" "\<not> wf_sta_lost s'" "wf_started s'"
    using assms by (auto simp: save_credentials_def Let_def set_provisioned_def split: if_splits prod.splits)
  then show ?thesis
    by (simp add: wifi_tick_def Let_def on_connected_def set_guest_count_def should_attempt_def
        should_open_access_point_def)
qed

section \<open>Properties\<close>

text \<open>C30: whatever the radio, the storage and the event task do from the start on, the reconnection policy
  stays consistent, the list of networks fits its entries and names each of them, and an access
  point that is up stays up until the restart.\<close>
theorem wifi_consistent:
  assumes "bounded_records radio" and "s = fold (wifi_step radio) ops (snd (wifi_begin radio (wifi_new w)))"
  shows "policy_invar (wf_policy s) \<and> length (wf_scan s) \<le> kMaxScanEntries \<and> list_all entry_ok (wf_scan s) \<and>
    wf_access_point_up s \<le> wf_access_point_up (fold (wifi_step radio) later s)"
proof -
  have "\<not> wf_access_point_up (wifi_new w)" by (simp add: wifi_new_def)
  from keeps_trans [OF wifi_begin_keeps [OF this, of radio] wifi_run_keeps [of radio _ ops]] have "wifi_wf s"
    using assms wifi_wf_new [of w] by (simp add: keeps_def)
  then show ?thesis using wifi_run_keeps [of radio s later] by (auto simp: wifi_wf_def keeps_def le_bool_def)
qed


text \<open>A radio with one network in sight and no credentials stored.\<close>

definition quiet_radio :: "unit radio" where
  "quiet_radio =
    \<lparr>nvs_init = (\<lambda>w. (Nvs_ok, w)), nvs_erase = (\<lambda>w. (True, w)), nvs_credentials = (\<lambda>w. None),
     nvs_store = (\<lambda>ssid password w. (True, w)), netif_init = (\<lambda>w. (True, w)), radio_init = (\<lambda>w. (True, w)),
     radio_random = (\<lambda>w. (7, w)), radio_mac = (\<lambda>w. Some [1, 2, 3, 4, 5, 6]), radio_mode = (\<lambda>m w. (True, w)),
     radio_configure_ap = (\<lambda>ssid password w. (True, w)), radio_configure_sta = (\<lambda>ssid password w. (True, w)),
     radio_start = (\<lambda>w. (True, w)), radio_stop = (\<lambda>w. w), radio_connect = (\<lambda>w. (True, w)),
     scan_start = (\<lambda>w. (True, w)), scan_stop = (\<lambda>w. w), scan_count = (\<lambda>w. 30),
     scan_records = (\<lambda>n w. (Some (replicate n (''home'', 200)), w)), radio_wait = (\<lambda>n w. ([Event_scan_done], w))\<rparr>"

lemma quiet_bounded: "bounded_records quiet_radio"
  by (simp add: bounded_records_def quiet_radio_def)

lemma wifi_consistent_witness:
  "length (wf_scan (fold (wifi_step quiet_radio) [Op_save ''home'' ''secret'', Op_tick 5, Op_event Event_disconnected, Op_tick 9]
     (snd (wifi_begin quiet_radio (wifi_new ()))))) \<le> 20"
  using wifi_consistent [OF quiet_bounded refl, where w = "()" and later = "[]" and
    ops = "[Op_save ''home'' ''secret'', Op_tick 5, Op_event Event_disconnected, Op_tick 9]"]
  by (simp add: kMaxScanEntries_def)


end
