(* ===== verification/Device_Api.thy ===== *)
theory Device_Api
  imports Commands Wifi Receive_Exact
begin

unbundle bit_operations_syntax

text \<open>
  \<open>stackchan_deviceapi\<close>: the HTTP routes over the router and the Wi-Fi glue. What the HTTP server, the
  socket and the network interface say of a request is data of the request; the transport of its body
  is the one of \<open>Receive_Exact\<close>.
\<close>

section \<open>Requests, answers and state\<close>

datatype sock_address =
    Sock_unknown
  | Sock_inet u32
  | Sock_inet6 "u8 list"

record 's http_request =
  hr_token_header :: "string option"
  hr_content_len :: nat
  hr_address :: sock_address
  hr_receive :: "'s transport"
  hr_transport :: 's

record http_response =
  rs_status :: string
  rs_type :: string
  rs_body :: string

text \<open>What the handlers reach: the device, the Wi-Fi state, the access point's interface (no handle; no
  address to be had; an address in network order) and the static buffer of the command route.\<close>

record ('w, 'r) api =
  api_device :: "'w device"
  api_wifi :: "'r wifi"
  api_ap_netif :: "u32 option option"
  api_body :: string

text \<open>\<open>net::status()\<close> as the command handlers see it.\<close>

definition sees_network :: "('w, 'r) api \<Rightarrow> 'w device" where
  "sees_network a =
    (api_device a)\<lparr>dv_network_phase := wf_phase (api_wifi a),
       dv_access_point_up := wf_access_point_up (api_wifi a), dv_ip := wf_ip (api_wifi a)\<rparr>"

section \<open>Answers\<close>

definition send_json :: "string \<Rightarrow> http_response" where
  "send_json body = \<lparr>rs_status = ''200 OK'', rs_type = ''application/json'', rs_body = body\<rparr>"

definition not_ok :: "string \<Rightarrow> string" where
  "not_ok reason =
    ''{'' @ [q] @ ''ok'' @ [q] @ '':false,'' @ [q] @ ''error'' @ [q] @ '':'' @ [q] @ reason @ [q] @ ''}''"

definition ok_body :: string where
  "ok_body = ''{'' @ [q] @ ''ok'' @ [q] @ '':true}''"

definition send_forbidden :: http_response where
  "send_forbidden =
    (send_json (not_ok ''provisioning is only available via the setup access point''))\<lparr>rs_status := ''403 Forbidden''\<rparr>"

definition send_transport_error :: "ErrorCode \<Rightarrow> string \<Rightarrow> http_response" where
  "send_transport_error code message =
    (let writer = write_error [] code message (json_writer 512)
     in if \<not> jw_valid writer then send_json kLastResort else send_json (jw_text writer))"

section \<open>Where a request came from\<close>

definition from_network_order :: "u32 \<Rightarrow> ipv4" where
  "from_network_order addr =
    (ucast addr, ucast (drop_bit 8 addr), ucast (drop_bit 16 addr), ucast (drop_bit 24 addr))"

definition v4_mapped :: "u8 list \<Rightarrow> bool" where
  "v4_mapped bytes \<longleftrightarrow> take 10 bytes = replicate 10 0 \<and> bytes ! 10 = 0xFF \<and> bytes ! 11 = 0xFF"

definition request_local_address :: "'s http_request \<Rightarrow> ipv4 option" where
  "request_local_address request =
    (case hr_address request of
       Sock_unknown \<Rightarrow> None
     | Sock_inet addr \<Rightarrow> Some (from_network_order addr)
     | Sock_inet6 bytes \<Rightarrow>
         if \<not> v4_mapped bytes then None
         else Some (bytes ! 12, bytes ! 13, bytes ! 14, bytes ! 15))"

definition access_point_address :: "('w, 'r) api \<Rightarrow> ipv4 option" where
  "access_point_address a =
    (case api_ap_netif a of
       None \<Rightarrow> None
     | Some None \<Rightarrow> None
     | Some (Some addr) \<Rightarrow> if addr = 0 then None else Some (from_network_order addr))"

definition provisioning_request_allowed :: "'s http_request \<Rightarrow> ('w, 'r) api \<Rightarrow> bool" where
  "provisioning_request_allowed request a =
    (case access_point_address a of
       None \<Rightarrow> False
     | Some ap \<Rightarrow>
         provisioning_allowed (wf_access_point_up (api_wifi a)) ap (request_local_address request))"

section \<open>The command route\<close>

text \<open>The header is copied into 48 bytes; without one the buffer stays empty.\<close>

definition presented_token :: "'s http_request \<Rightarrow> string" where
  "presented_token request =
    (case hr_token_header request of None \<Rightarrow> [] | Some text \<Rightarrow> takeWhile (\<lambda>c. c \<noteq> CHR 0x00) (take 47 text))"

definition routed ::
  "'w device command_registry \<Rightarrow> string \<Rightarrow> string \<Rightarrow> ('w, 'r) api \<Rightarrow> http_response \<times> ('w, 'r) api" where
  "routed registry presented body a =
    (let d = sees_network a;
         (answer, d) = route registry (is_token (dv_secrets d)) presented body d
     in (send_json answer, a\<lparr>api_device := d\<rparr>))"

text \<open>No response stands for \<open>ESP_FAIL\<close>: the server closes the connection.\<close>

definition handle_command ::
  "'w device command_registry \<Rightarrow> 's http_request \<Rightarrow> ('w, 'r) api \<Rightarrow> http_response option \<times> ('w, 'r) api" where
  "handle_command registry request a =
    (let presented = presented_token request
     in if hr_content_len request = 0 \<or> hr_content_len request > kMaxBodyBytes
        then (let (response, a) = routed registry presented [] a in (Some response, a))
        else
          (case receive_exact (hr_receive request) (Some (api_body a)) (hr_content_len request) (hr_transport request) of
             (result, body, _) \<Rightarrow>
               (let a = a\<lparr>api_body := the body\<rparr>
                in case result of
                     ReceiveExactResult_error \<Rightarrow> (None, a)
                   | ReceiveExactResult_incomplete \<Rightarrow>
                       (Some (send_transport_error ErrorCode_bad_request ''body truncated''), a)
                   | ReceiveExactResult_complete \<Rightarrow>
                       (let (response, a) = routed registry presented (take (hr_content_len request) (api_body a)) a
                        in (Some response, a)))))"

section \<open>The configuration routes\<close>

definition kPage :: string where
  "kPage =
    ''StackChan provisioning'' @ [CHR 0x0A] @
    ''GET  /scan : list nearby networks'' @ [CHR 0x0A] @
    ''POST /save : {'' @ [q] @ ''ssid'' @ [q] @ '':'' @ [q] @ ''...'' @ [q] @ '','' @ [q] @ ''pass'' @ [q] @ '':''
      @ [q] @ ''...'' @ [q] @ ''}'' @ [CHR 0x0A]"

definition handle_root :: "'s http_request \<Rightarrow> ('w, 'r) api \<Rightarrow> http_response" where
  "handle_root request a =
    (if \<not> provisioning_request_allowed request a then send_forbidden
     else \<lparr>rs_status = ''200 OK'', rs_type = ''text/plain; charset=utf-8'', rs_body = kPage\<rparr>)"

definition write_scan_entry :: "string \<times> 8 word \<Rightarrow> json_writer \<Rightarrow> json_writer" where
  "write_scan_entry entry w =
    end_object (member_i64 ''rssi'' (scast (snd entry)) (member_string ''ssid'' (fst entry) (begin_object w)))"

definition handle_scan :: "'s http_request \<Rightarrow> ('w, 'r) api \<Rightarrow> http_response" where
  "handle_scan request a =
    (if \<not> provisioning_request_allowed request a then send_forbidden
     else
       (let writer = end_array (fold write_scan_entry (scan_results (api_wifi a)) (begin_array (json_writer 1536)))
        in send_json (if jw_valid writer then jw_text writer else ''[]'')))"

text \<open>The body of \<open>/save\<close> once it is there: the credentials, or the answer that refuses them.\<close>

definition read_credentials :: "string \<Rightarrow> string + string \<times> string" where
  "read_credentials body =
    (case json_find_raw_string body ''ssid'' of
       None \<Rightarrow> Inl (not_ok ''not json'')
     | Some raw_ssid \<Rightarrow>
         (case json_unescape raw_ssid True 32 of
            (_, None) \<Rightarrow> Inl (not_ok ''bad ssid'')
          | (ssid, Some ssid_len) \<Rightarrow>
              if ssid_len = 0 then Inl (not_ok ''bad ssid'')
              else
                (case json_find_raw_string body ''pass'' of
                   None \<Rightarrow> Inr (take ssid_len ssid, [])
                 | Some raw_password \<Rightarrow>
                     (case json_unescape raw_password True 64 of
                        (_, None) \<Rightarrow> Inl (not_ok ''bad pass'')
                      | (password, Some password_len) \<Rightarrow>
                          Inr (take ssid_len ssid, take password_len password)))))"

definition handle_save ::
  "'r radio \<Rightarrow> 's http_request \<Rightarrow> ('w, 'r) api \<Rightarrow> http_response option \<times> ('w, 'r) api" where
  "handle_save radio request a =
    (if \<not> provisioning_request_allowed request a then (Some send_forbidden, a)
     else if hr_content_len request = 0 \<or> hr_content_len request > 512
     then (Some (send_json (not_ok ''bad request'')), a)
     else
       (case receive_exact (hr_receive request) (Some (replicate 513 (CHR 0x00))) (hr_content_len request)
               (hr_transport request) of
          (result, body, _) \<Rightarrow>
            (case result of
               ReceiveExactResult_error \<Rightarrow> (None, a)
             | ReceiveExactResult_incomplete \<Rightarrow> (Some (send_json (not_ok ''truncated'')), a)
             | ReceiveExactResult_complete \<Rightarrow>
                 (case read_credentials (take (hr_content_len request) (the body)) of
                    Inl problem \<Rightarrow> (Some (send_json problem), a)
                  | Inr (ssid, password) \<Rightarrow>
                      (let (saved, wifi) = save_credentials radio ssid password (api_wifi a)
                       in (Some (send_json (if saved then ok_body else not_ok ''could not store'')),
                           a\<lparr>api_wifi := wifi\<rparr>))))))"

definition handle_info :: "'s http_request \<Rightarrow> ('w, 'r) api \<Rightarrow> http_response" where
  "handle_info request a =
    (if \<not> provisioning_request_allowed request a then send_forbidden
     else
       (let identity = dv_identity (api_device a);
            wifi = api_wifi a;
            writer = begin_object (json_writer 256);
            writer = member_string ''device_id'' (di_device_id identity) writer;
            writer = member_string ''version'' (di_firmware_version identity) writer;
            writer = member_bool ''ap'' (wf_access_point_up wifi) writer;
            writer = member_string ''ip'' (wf_ip wifi) writer;
            writer = end_object writer
        in send_json (if jw_valid writer then jw_text writer else ''{}'')))"

section \<open>The server\<close>

text \<open>\<open>begin\<close>: the routes registered, in order; a failing one ends its own group only.\<close>

fun install_routes :: "(string \<Rightarrow> bool) \<Rightarrow> string list \<Rightarrow> bool \<times> string list" where
  "install_routes register [] = (True, [])"
| "install_routes register (path # paths) =
    (if \<not> register path then (False, [])
     else let (ok, installed) = install_routes register paths in (ok, path # installed))"

definition server_begin :: "bool \<Rightarrow> (string \<Rightarrow> bool) \<Rightarrow> string list option \<Rightarrow> bool \<times> string list option" where
  "server_begin started register server =
    (case server of
       Some routes \<Rightarrow> (True, Some routes)
     | None \<Rightarrow>
         if \<not> started then (False, None)
         else
           (let (_, command) = install_routes register [''/api/v1/command''];
                (_, provisioning) = install_routes register [''/'', ''/scan'', ''/save''];
                (_, info) = install_routes register [''/info'']
            in (True, Some (command @ provisioning @ info))))"

datatype http_path = Path_command | Path_root | Path_scan | Path_save | Path_info

fun serve ::
  "'w device command_registry \<Rightarrow> 'r radio \<Rightarrow> http_path \<times> 's http_request \<Rightarrow> ('w, 'r) api \<Rightarrow>
   http_response option \<times> ('w, 'r) api" where
  "serve registry radio (Path_command, request) a = handle_command registry request a"
| "serve registry radio (Path_root, request) a = (Some (handle_root request a), a)"
| "serve registry radio (Path_scan, request) a = (Some (handle_scan request a), a)"
| "serve registry radio (Path_save, request) a = handle_save radio request a"
| "serve registry radio (Path_info, request) a = (Some (handle_info request a), a)"

section \<open>Every JSON answer is JSON\<close>

definition json_answer :: "http_response \<Rightarrow> bool" where
  "json_answer r \<longleftrightarrow> (rs_type r = ''application/json'' \<longrightarrow> jvalue True 7 (rs_body r))"

lemma json_answer_send [simp]: "json_answer (send_json body) \<longleftrightarrow> jvalue True 7 body"
  by (simp add: json_answer_def send_json_def)

lemma rendered: "tree_ok True l j \<Longrightarrow> l \<le> 7 \<Longrightarrow> render j = t \<Longrightarrow> jvalue True 7 t"
  using tree_ok_value(1) jvalue_deeper(1) by blast

lemma ok_body_json: "jvalue True 7 ok_body"
  by (rule rendered [of 1 "JObject [(''ok'', JBool True)]"])
    (simp_all add: ok_body_def q_def quoted_def literal_keys)

lemma not_ok_json: "escape reason = reason \<Longrightarrow> jvalue True 7 (not_ok reason)"
  by (rule rendered [of 1 "JObject [(''ok'', JBool False), (''error'', JText reason)]"])
    (simp_all add: not_ok_def q_def quoted_def key_ok_def)

lemma reasons_plain:
  "escape ''provisioning is only available via the setup access point'' =
    ''provisioning is only available via the setup access point''"
  "escape ''bad request'' = ''bad request''" "escape ''truncated'' = ''truncated''"
  "escape ''not json'' = ''not json''" "escape ''bad ssid'' = ''bad ssid''" "escape ''bad pass'' = ''bad pass''"
  "escape ''could not store'' = ''could not store''"
  by (simp_all add: escape_def escape_char_def char_byte_def)

lemma reasons_json [simp]:
  "jvalue True 7 (not_ok ''provisioning is only available via the setup access point'')"
  "jvalue True 7 (not_ok ''bad request'')" "jvalue True 7 (not_ok ''truncated'')"
  "jvalue True 7 (not_ok ''not json'')" "jvalue True 7 (not_ok ''bad ssid'')"
  "jvalue True 7 (not_ok ''bad pass'')" "jvalue True 7 (not_ok ''could not store'')" "jvalue True 7 ok_body"
  by (simp_all add: not_ok_json reasons_plain ok_body_json)

lemma forbidden_json [simp]: "json_answer send_forbidden"
  by (simp add: json_answer_def send_forbidden_def send_json_def)

lemma transport_error_json: "json_answer (send_transport_error ErrorCode_bad_request ''body truncated'')"
proof -
  let ?j = "error_tree [] ErrorCode_bad_request ''body truncated''"
  have "length (render ?j) \<le> 512"
    using render_error_length [of "[]" ErrorCode_bad_request "''body truncated''"]
      error_name_length [of ErrorCode_bad_request] by simp
  then have "jw_valid (write_json ?j (json_writer 512))" by (simp add: write_json_exact(1) kMaxDepth_def)
  then show ?thesis
    using valid_document [OF error_tree_ok] by (simp add: send_transport_error_def write_error_tree)
qed

definition scan_tree :: "(string \<times> 8 word) list \<Rightarrow> jtree" where
  "scan_tree entries =
    JArray (map (\<lambda>e. JObject [(''ssid'', JText (fst e)), (''rssi'', JSigned (scast (snd e)))]) entries)"

lemma write_scan_tree:
  "end_array (fold write_scan_entry entries (begin_array w)) = write_json (scan_tree entries) w"
proof -
  have "write_scan_entry = (\<lambda>e. write_json (JObject [(''ssid'', JText (fst e)), (''rssi'', JSigned (scast (snd e)))]))"
    by (simp add: fun_eq_iff write_scan_entry_def member_string_def member_i64_def)
  then show ?thesis by (simp add: scan_tree_def fold_write_items [symmetric])
qed

lemma scan_tree_ok: "tree_ok True 2 (scan_tree entries)"
  by (simp add: scan_tree_def items_ok_map literal_keys)

lemma handle_scan_json: "json_answer (handle_scan request a)"
proof -
  have "jvalue True 7 ''[]''" by (rule rendered [of 1 "JArray []"]) simp_all
  moreover have "jvalue True 7 (jw_text (write_json (scan_tree es) (json_writer 1536)))"
    if "jw_valid (write_json (scan_tree es) (json_writer 1536))" for es
    using jvalue_deeper(1) [OF valid_document [OF scan_tree_ok that], of 7] by simp
  ultimately show ?thesis by (simp add: handle_scan_def write_scan_tree Let_def)
qed

lemma handle_info_json:
  fixes a :: "('w, 'r) api"
  shows "json_answer (handle_info request a)"
proof -
  let ?j = "\<lambda>(i :: device_identity) (w :: 'r wifi). JObject [(''device_id'', JText (di_device_id i)), (''version'', JText (di_firmware_version i)),
    (''ap'', JBool (wf_access_point_up w)), (''ip'', JText (wf_ip w))]"
  have written: "end_object (member_string ''ip'' (wf_ip w) (member_bool ''ap'' (wf_access_point_up w)
      (member_string ''version'' (di_firmware_version i) (member_string ''device_id'' (di_device_id i)
        (begin_object (json_writer 256)))))) = write_json (?j i w) (json_writer 256)" for i w
    by (simp add: member_string_def member_bool_def)
  have ok: "tree_ok True 1 (?j i w)" for i w by (simp add: literal_keys)
  have "jvalue True 7 ''{}''" by (rule rendered [of 1 "JObject []"]) simp_all
  moreover have "jvalue True 7 (jw_text (write_json (?j i w) (json_writer 256)))"
    if "jw_valid (write_json (?j i w) (json_writer 256))" for i w
    using jvalue_deeper(1) [OF valid_document [OF ok that], of 7] by simp
  ultimately show ?thesis by (simp add: handle_info_def written Let_def del: write_json.simps)
qed

lemma read_credentials_json: "read_credentials body = Inl problem \<Longrightarrow> jvalue True 7 problem"
  by (auto simp: read_credentials_def split: option.splits prod.splits if_splits)

lemma handle_save_json: "handle_save radio request a = (Some r, a') \<Longrightarrow> json_answer r"
  by (auto simp: handle_save_def Let_def read_credentials_json
      split: if_splits prod.splits sum.splits ReceiveExactResult.splits)

section \<open>Runs of the server\<close>

fun serve_all ::
  "'w device command_registry \<Rightarrow> 'r radio \<Rightarrow> (http_path \<times> 's http_request) list \<Rightarrow> ('w, 'r) api \<Rightarrow>
   http_response option list \<times> ('w, 'r) api" where
  "serve_all registry radio [] a = ([], a)"
| "serve_all registry radio (r # rs) a =
    (let (response, a) = serve registry radio r a;
         (responses, a) = serve_all registry radio rs a
     in (response # responses, a))"

text \<open>What the server relies on: the described commands are the registered ones, and the token is one.\<close>

definition api_good :: "bool \<Rightarrow> bool \<Rightarrow> ('w, 'r) api \<Rightarrow> bool" where
  "api_good display voice a \<longleftrightarrow>
    dv_specs (api_device a) = map en_spec (device_commands display voice :: 'w device command_registry) \<and>
    identity_wf (dv_secrets (api_device a))"

lemma handlers_keep_identity:
  assumes "e \<in> set (device_commands display voice)" and "identity_wf (dv_secrets d)"
  shows "identity_wf (dv_secrets (snd (snd (en_handler e d params payload))))"
proof -
  obtain rotated secrets where r: "rotate_access_token (dv_nvs_up d) (dv_stored_token d) (dv_secrets d) = (rotated, secrets)"
    by fastforce
  then have "identity_wf secrets" using rotate_wf [OF assms(2), of "dv_nvs_up d" "dv_stored_token d"] by simp
  then show ?thesis
    using assms r access_token_wf
    by (auto simp: device_commands_def handle_describe_def handle_state_def handle_health_def handle_engage_def
        handle_clear_def handle_set_expression_def handle_configure_def handle_start_def handle_cancel_def
        handle_rotate_def refresh_state_def Let_def split: option.split prod.split)
qed

lemma routed_good:
  fixes a :: "('w, 'r) api"
  assumes "api_good display voice a" and "routed (device_commands display voice) presented body a = (r, a')"
  shows "json_answer r \<and> api_good display voice a' \<and> api_wifi a' = api_wifi a"
proof -
  let ?registry = "device_commands display voice :: 'w device command_registry"
  let ?d = "sees_network a"
  have wf: "token_wf (is_token (dv_secrets ?d))" "identity_wf (dv_secrets ?d)"
    and specs: "dv_specs ?d = map en_spec ?registry"
    using assms(1) by (simp_all add: api_good_def sees_network_def identity_wf_def)
  obtain answer d where r: "route ?registry (is_token (dv_secrets ?d)) presented body ?d = (answer, d)" by fastforce
  have "jvalue True 7 answer \<and> dv_specs d = dv_specs ?d \<and> identity_wf (dv_secrets d)"
  proof (cases rule: route_dispatched [OF wf(1), of ?registry presented body ?d])
    case (1 ident code message)
    then show ?thesis using r wf(2) tree_ok_value(1) [OF error_tree_ok] by simp
  next
    case (2 name code payload d')
    have "identity_wf (dv_secrets d')"
    proof (rule dispatch_result [OF 2(2)])
      fix e
      assume e: "e \<in> set ?registry" and h: "en_handler e ?d (scan_params (request_payload body)) (json_writer kPayloadBytes) = (code, payload, d')"
      show ?thesis using handlers_keep_identity [OF e wf(2)] h by (metis snd_conv)
    qed (simp add: wf(2))
    then show ?thesis using request_json [OF wf(1) specs, of presented body] 2(3) r dispatch_keeps_specs [OF 2(2)] by simp
  qed
  then show ?thesis using assms r specs by (auto simp: routed_def api_good_def Let_def)
qed

lemma serve_good:
  assumes "api_good display voice a" and "serve (device_commands display voice) radio (path, request) a = (r, a')"
  shows "(case r of None \<Rightarrow> True | Some response \<Rightarrow> json_answer response) \<and> api_good display voice a'"
proof (cases path)
  case Path_command
  have body: "api_good display voice (a\<lparr>api_body := b\<rparr>)" for b using assms(1) by (simp add: api_good_def)
  show ?thesis
    using assms(2) Path_command routed_good [OF assms(1)] routed_good [OF body] body transport_error_json
    by (auto simp: handle_command_def Let_def split: prod.splits if_splits ReceiveExactResult.splits)
next
  case Path_save
  have wifi: "api_good display voice (a\<lparr>api_wifi := w\<rparr>)" for w using assms(1) by (simp add: api_good_def)
  have "api_good display voice a'"
    using assms Path_save wifi
    by (auto simp: handle_save_def Let_def split: prod.splits if_splits ReceiveExactResult.splits sum.splits)
  moreover have "case r of None \<Rightarrow> True | Some response \<Rightarrow> json_answer response"
    using assms(2) Path_save handle_save_json [of radio request a] by (cases r) auto
  ultimately show ?thesis by simp
qed (use assms in \<open>auto simp: handle_scan_json handle_info_json handle_root_def json_answer_def [of "\<lparr>rs_status = _, rs_type = _, rs_body = _\<rparr>"]\<close>)

lemma serve_all_good:
  "api_good display voice a \<Longrightarrow> serve_all (device_commands display voice) radio requests a = (rs, a') \<Longrightarrow>
   list_all (\<lambda>r. case r of None \<Rightarrow> True | Some response \<Rightarrow> json_answer response) rs \<and> api_good display voice a'"
proof (induction requests arbitrary: a rs a')
  case (Cons r requests)
  obtain response a1 where s: "serve (device_commands display voice) radio r a = (response, a1)" by fastforce
  obtain rest a2 where t: "serve_all (device_commands display voice) radio requests a1 = (rest, a2)" by fastforce
  obtain path request where "r = (path, request)" by fastforce
  then have "(case response of None \<Rightarrow> True | Some x \<Rightarrow> json_answer x) \<and> api_good display voice a1"
    using serve_good [OF Cons.prems(1)] s by simp
  with Cons.IH [OF _ t] Cons.prems(2) s t show ?case by auto
qed simp

section \<open>The emergency stop over runs\<close>

text \<open>The body that reaches the router, and whether a request asks to clear the emergency stop.\<close>

definition received_body :: "'s http_request \<Rightarrow> string \<Rightarrow> string" where
  "received_body request buffer =
    (case receive_exact (hr_receive request) (Some buffer) (hr_content_len request) (hr_transport request) of
       (_, body, _) \<Rightarrow> take (hr_content_len request) (the body))"

definition asks_to_clear :: "http_path \<times> 's http_request \<Rightarrow> ('w, 'r) api \<Rightarrow> bool" where
  "asks_to_clear r a \<longleftrightarrow>
    fst r = Path_command \<and> read_request_name (received_body (snd r) (api_body a)) = Some ''estop.clear''"

fun nobody_clears ::
  "'w device command_registry \<Rightarrow> 'r radio \<Rightarrow> (http_path \<times> 's http_request) list \<Rightarrow> ('w, 'r) api \<Rightarrow> bool" where
  "nobody_clears registry radio [] a \<longleftrightarrow> True"
| "nobody_clears registry radio (r # rs) a \<longleftrightarrow>
    \<not> asks_to_clear r a \<and> nobody_clears registry radio rs (snd (serve registry radio r a))"

lemma sees_network_still [simp]:
  "dv_cancel (sees_network a) = dv_cancel (api_device a)" "dv_shown (sees_network a) = dv_shown (api_device a)"
  "dv_task (sees_network a) = dv_task (api_device a)" "dv_secrets (sees_network a) = dv_secrets (api_device a)"
  by (simp_all add: sees_network_def)

lemma empty_names_nothing: "read_request_name [] \<noteq> Some ''estop.clear''"
  by code_simp

lemma routed_still:
  assumes "api_good display voice a" and "emergency (dv_cancel (api_device a))"
    and "read_request_name body \<noteq> Some ''estop.clear''"
    and "routed (device_commands display voice) presented body a = (r, a')"
  shows "holds_still (api_device a) (api_device a')"
proof -
  have wf: "token_wf (is_token (dv_secrets (sees_network a)))" using assms(1) by (simp add: api_good_def identity_wf_def)
  have "emergency (dv_cancel (sees_network a))" using assms(2) by simp
  from request_holds_still [OF wf this assms(3), of display voice presented] assms(4) show ?thesis
    by (auto simp: routed_def holds_still_def Let_def split: prod.splits)
qed

lemma serve_still:
  assumes "api_good display voice a" and "emergency (dv_cancel (api_device a))" and "\<not> asks_to_clear r a"
  shows "holds_still (api_device a) (api_device (snd (serve (device_commands display voice) radio r a)))"
proof -
  obtain path request where r: "r = (path, request)" by fastforce
  have same: "holds_still (api_device a) (api_device a)" using assms(2) by (simp add: holds_still_def)
  have body: "api_good display voice (a\<lparr>api_body := b\<rparr>)" for b using assms(1) by (simp add: api_good_def)
  show ?thesis
  proof (cases path)
    case Path_command
    obtain result b t where v: "receive_exact (hr_receive request) (Some (api_body a)) (hr_content_len request)
        (hr_transport request) = (result, b, t)" by (metis prod_cases3)
    have named: "read_request_name (take (hr_content_len request) (the b)) \<noteq> Some ''estop.clear''"
      using assms(3) Path_command r v by (simp add: asks_to_clear_def received_body_def)
    show ?thesis
      using Path_command r v same routed_still [OF assms(1,2) empty_names_nothing]
        routed_still [OF body _ named] assms(2)
      by (auto simp: handle_command_def Let_def split: prod.split ReceiveExactResult.split)
  qed (use r same in \<open>auto simp: handle_save_def Let_def split: prod.split ReceiveExactResult.split sum.split\<close>)
qed

lemma serve_all_still:
  "api_good display voice a \<Longrightarrow> emergency (dv_cancel (api_device a)) \<Longrightarrow>
   nobody_clears (device_commands display voice) radio requests a \<Longrightarrow>
   holds_still (api_device a) (api_device (snd (serve_all (device_commands display voice) radio requests a)))"
proof (induction requests arbitrary: a)
  case (Cons r requests)
  obtain path request where r: "r = (path, request)" by fastforce
  obtain response a1 where s: "serve (device_commands display voice) radio r a = (response, a1)" by fastforce
  have still: "holds_still (api_device a) (api_device a1)"
    using serve_still [OF Cons.prems(1,2), of r radio] Cons.prems(3) s by simp
  have good: "api_good display voice a1" using serve_good [OF Cons.prems(1), of radio path request] s r by simp
  have "holds_still (api_device a1) (api_device (snd (serve_all (device_commands display voice) radio requests a1)))"
    using Cons.IH [OF good] still Cons.prems(3) s by (simp add: holds_still_def)
  with still show ?case using s by (simp add: holds_still_def split_beta)
qed (simp add: holds_still_def)

section \<open>Properties\<close>

text \<open>C4: whatever requests arrive on whatever routes, every answer that says it is JSON is one JSON value
  of the grammar the checked reader accepts, with distinct keys.\<close>
theorem server_answers_json:
  fixes a :: "('w, 'r) api"
  assumes "registry = snd (register_commands display voice [] :: bool \<times> 'w device command_registry)"
    and "dv_specs (api_device a) = map en_spec registry" and "identity_wf (dv_secrets (api_device a))"
  shows "list_all (\<lambda>r. case r of None \<Rightarrow> True
      | Some response \<Rightarrow> rs_type response = ''application/json'' \<longrightarrow> jvalue True 7 (rs_body response))
    (fst (serve_all registry radio requests a))"
proof -
  have "registry = device_commands display voice" using assms(1) by (simp add: register_commands_all)
  moreover from this have "api_good display voice a" using assms(2,3) by (simp add: api_good_def)
  ultimately show ?thesis
    using serve_all_good [of display voice a radio requests]
    by (cases "serve_all registry radio requests a") (simp add: json_answer_def [abs_def])
qed

text \<open>C3: once the emergency stop is engaged, no sequence of requests without \<open>estop.clear\<close> releases it,
  changes the face or touches the conversation, whoever sends them and however they are cut short.\<close>
theorem emergency_stops_requests:
  fixes a :: "('w, 'r) api"
  assumes "registry = snd (register_commands display voice [] :: bool \<times> 'w device command_registry)"
    and "dv_specs (api_device a) = map en_spec registry" and "identity_wf (dv_secrets (api_device a))"
    and "emergency (dv_cancel (api_device a))" and "nobody_clears registry radio requests a"
    and "d = api_device (snd (serve_all registry radio requests a))"
  shows "emergency (dv_cancel d) \<and> dv_shown d = dv_shown (api_device a) \<and> dv_task d = dv_task (api_device a)"
proof -
  have r: "registry = device_commands display voice" using assms(1) by (simp add: register_commands_all)
  then have "api_good display voice a" using assms(2,3) by (simp add: api_good_def)
  from serve_all_still [OF this assms(4), of radio requests] assms(5,6) r show ?thesis by (simp add: holds_still_def)
qed

text \<open>C5: the Wi-Fi credentials are only ever changed by a save that arrived on the access point's own
  interface while it was up, and that carried a name of 1 to 32 bytes and a password of at most 64.\<close>
theorem configured_only_from_access_point:
  assumes "api_wifi (snd (serve registry radio (path, request) a)) \<noteq> api_wifi a"
  shows "path = Path_save \<and> wf_access_point_up (api_wifi a) \<and>
    (\<exists>address. access_point_address a = Some address \<and> request_local_address request = Some address) \<and>
    (\<exists>ssid password. 1 \<le> length ssid \<and> length ssid \<le> 32 \<and> length password \<le> 64 \<and>
      api_wifi (snd (serve registry radio (path, request) a)) = snd (save_credentials radio ssid password (api_wifi a)))"
proof -
  have command: "api_wifi (snd (handle_command registry request a)) = api_wifi a"
    by (auto simp: handle_command_def routed_def Let_def split: prod.split ReceiveExactResult.split)
  have save: "path = Path_save" using assms command by (cases path) auto
  then have "\<exists>ssid password. api_wifi (snd (serve registry radio (path, request) a)) =
      snd (save_credentials radio ssid password (api_wifi a))"
    using assms
    by (auto simp: handle_save_def Let_def split: prod.splits if_splits ReceiveExactResult.splits sum.splits)
      (metis snd_conv)
  then obtain ssid password where s: "api_wifi (snd (serve registry radio (path, request) a)) =
      snd (save_credentials radio ssid password (api_wifi a))" by blast
  have allowed: "provisioning_request_allowed request a"
    using assms save by (auto simp: handle_save_def split: if_splits)
  have "1 \<le> length ssid \<and> length ssid \<le> 32 \<and> length password \<le> 64"
    using assms s by (auto simp: save_credentials_def not_less Suc_le_eq split: if_splits)
  then show ?thesis
    using save s allowed
    by (auto simp: provisioning_request_allowed_def provisioning_allowed_iff split: option.splits)
qed

text \<open>A device whose access point is up, and a request for it that arrives in one piece.\<close>

definition whole_body :: "string transport" where
  "whole_body s n = (int (length (take n s)), take n s, drop n s)"

lemma whole_body_received:
  "body \<noteq> [] \<Longrightarrow> receive_exact whole_body (Some buffer) (length body) body =
    (ReceiveExactResult_complete, Some (body @ drop (length body) buffer), [])"
  by (simp add: receive_exact_def receive_loop.simps whole_body_def written_at_def)

definition demo_api :: "(demo_world, unit) api" where
  "demo_api =
    \<lparr>api_device = demo_device, api_wifi = (wifi_new ())\<lparr>wf_started := True, wf_access_point_up := True\<rparr>,
     api_ap_netif = Some (Some 0x0104A8C0), api_body = replicate 2049 (CHR 0x00)\<rparr>"

definition demo_request :: "string \<Rightarrow> string http_request" where
  "demo_request body =
    \<lparr>hr_token_header = Some (token_text open_token), hr_content_len = length body,
     hr_address = Sock_inet 0x0104A8C0, hr_receive = whole_body, hr_transport = body\<rparr>"

lemma demo_save:
  assumes "provisioning_request_allowed (demo_request body) a" and "body \<noteq> []" and "length body \<le> 512"
    and "read_credentials body = Inr (ssid, password)"
  shows "api_wifi (snd (serve registry radio (Path_save, demo_request body) a)) =
    snd (save_credentials radio ssid password (api_wifi a))"
proof -
  have "take (length body) (body @ more) = body" for more by simp
  then show ?thesis
    using assms whole_body_received [OF assms(2), of "replicate 513 (CHR 0x00)"]
    by (simp add: handle_save_def demo_request_def Let_def split: prod.split)
qed

lemma demo_api_good:
  "dv_specs (api_device demo_api) = map en_spec (snd (register_commands True True [] :: bool \<times> demo_world device command_registry))"
  "identity_wf (dv_secrets (api_device demo_api))"
  by (simp_all add: demo_api_def demo_device_def register_commands_all identity_wf_def open_token_wf)

lemma server_answers_json_witness:
  "list_all (\<lambda>r. case r of None \<Rightarrow> True
      | Some response \<Rightarrow> rs_type response = ''application/json'' \<longrightarrow> jvalue True 7 (rs_body response))
    (fst (serve_all (snd (register_commands True True [])) quiet_radio
      [(Path_command, demo_request ''{}''), (Path_scan, demo_request []), (Path_save, demo_request ''{}'')] demo_api))"
  by (rule server_answers_json [OF refl demo_api_good])

lemma emergency_stops_requests_witness:
  "emergency (dv_cancel (api_device (snd (serve_all (snd (register_commands True True [])) quiet_radio
    [(Path_info, demo_request []), (Path_root, demo_request [])]
    (demo_api\<lparr>api_device := demo_device\<lparr>dv_cancel := CancelReason_emergency_stop\<rparr>\<rparr>)))))"
proof -
  let ?a = "demo_api\<lparr>api_device := demo_device\<lparr>dv_cancel := CancelReason_emergency_stop\<rparr>\<rparr>"
  let ?rs = "[(Path_info, demo_request []), (Path_root, demo_request [])]"
  have good: "dv_specs (api_device ?a) = map en_spec (snd (register_commands True True [] :: bool \<times> demo_world device command_registry))"
    "identity_wf (dv_secrets (api_device ?a))" "emergency (dv_cancel (api_device ?a))"
    using demo_api_good by (simp_all add: demo_api_def emergency_def)
  have "nobody_clears (snd (register_commands True True [])) quiet_radio ?rs ?a"
    by (simp add: asks_to_clear_def)
  from emergency_stops_requests [OF refl good this refl] show ?thesis by blast
qed

definition home_body :: string where
  "home_body = ''{'' @ [q] @ ''ssid'' @ [q] @ '':'' @ [q] @ ''home'' @ [q] @ ''}''"

lemma home_body_facts:
  "read_credentials home_body = Inr (''home'', [])" "home_body \<noteq> []" "length home_body \<le> 512"
  by (code_simp, simp_all add: home_body_def)

lemma home_allowed:
  "access_point_address demo_api = Some (192, 168, 4, 1)"
  "request_local_address (demo_request body) = Some (192, 168, 4, 1)"
  "wf_access_point_up (api_wifi demo_api)" "\<not> wf_credentials_present (api_wifi demo_api)"
  by (simp_all add: access_point_address_def request_local_address_def demo_api_def demo_request_def
      from_network_order_def wifi_new_def)

lemma configured_only_from_access_point_witness:
  "api_wifi (snd (serve [] quiet_radio (Path_save, demo_request home_body) demo_api)) \<noteq> api_wifi demo_api \<and>
   (\<exists>address. access_point_address demo_api = Some address)"
proof -
  have "provisioning_request_allowed (demo_request home_body) demo_api"
    by (simp add: provisioning_request_allowed_def provisioning_allowed_iff home_allowed)
  from demo_save [OF this home_body_facts(2,3,1), of "[]" quiet_radio]
  have "wf_credentials_present (api_wifi (snd (serve [] quiet_radio (Path_save, demo_request home_body) demo_api)))"
    by (simp add: save_credentials_def quiet_radio_def)
  then have ne: "api_wifi (snd (serve [] quiet_radio (Path_save, demo_request home_body) demo_api)) \<noteq> api_wifi demo_api"
    using home_allowed(4) by metis
  from configured_only_from_access_point [OF ne] ne show ?thesis by blast
qed

end
