(* ===== verification/Device_Identity.thy ===== *)
theory Device_Identity
  imports Envelope
begin

text \<open>
  \<open>stackchan_identity/device.cpp\<close>: who this unit is, collected once. The MAC address, the two random
  numbers and what the build says of itself are arguments.
\<close>

definition kLowerHex :: string where
  "kLowerHex = ''0123456789abcdef''"

text \<open>The conversion \<open>%02x\<close> of a byte.\<close>

definition hex2 :: "u8 \<Rightarrow> string" where
  "hex2 b = [kLowerHex ! (unat b div 16), kLowerHex ! (unat b mod 16)]"

definition device_id_text :: "u8 list \<Rightarrow> string" where
  "device_id_text mac = ''atoms3r-'' @ concat (map hex2 mac)"

record build_facts =
  bf_version :: "string option"
  bf_idf_version :: string
  bf_app_idf_version :: string
  bf_elf_hash :: string

text \<open>\<open>collect()\<close>; the state is \<open>None\<close> until it has been called.\<close>

definition collect ::
  "u8 list option \<Rightarrow> u64 \<Rightarrow> u64 \<Rightarrow> build_facts \<Rightarrow> device_identity option \<Rightarrow> device_identity \<times> device_identity option"
where
  "collect mac_read high low facts collected =
    (case collected of
       Some identity \<Rightarrow> (identity, collected)
     | None \<Rightarrow>
         (let mac = (case mac_read of None \<Rightarrow> replicate 6 0 | Some m \<Rightarrow> m);
              identity =
                \<lparr>di_device_id = device_id_text mac,
                 di_boot_id = from_entropy high low,
                 di_firmware_version = (case bf_version facts of Some v \<Rightarrow> v | None \<Rightarrow> ''unknown''),
                 di_firmware_idf =
                   (case bf_version facts of Some v \<Rightarrow> bf_app_idf_version facts | None \<Rightarrow> bf_idf_version facts),
                 di_firmware_build = bf_elf_hash facts\<rparr>
          in (identity, Some identity)))"

section \<open>One device, one name\<close>

lemma kLowerHex_inj: "i < 16 \<Longrightarrow> j < 16 \<Longrightarrow> kLowerHex ! i = kLowerHex ! j \<longleftrightarrow> i = j"
  by (rule nth_eq_iff_index_eq) (simp_all add: kLowerHex_def)

lemma hex2_inj: "hex2 a = hex2 b \<longleftrightarrow> a = b"
proof
  assume h: "hex2 a = hex2 b"
  have lt: "unat x div 16 < 16" "unat x mod 16 < 16" for x :: u8 using unsigned_less [of x, where 'a = nat] by simp_all
  have "unat a div 16 = unat b div 16" "unat a mod 16 = unat b mod 16"
    using h lt kLowerHex_inj by (simp_all add: hex2_def)
  then have "unat a = unat b" by (metis div_mult_mod_eq)
  then show "a = b" by (simp add: word_unat_eq_iff)
qed simp

lemma hex_concat_inj: "length xs = length ys \<Longrightarrow> concat (map hex2 xs) = concat (map hex2 ys) \<Longrightarrow> xs = ys"
proof (induction xs ys rule: list_induct2)
  case (Cons x xs y ys)
  have two: "length (hex2 b) = 2" for b by (simp add: hex2_def)
  have "hex2 x = hex2 y \<and> concat (map hex2 xs) = concat (map hex2 ys)"
    using Cons.prems by (simp add: append_eq_append_conv two)
  then show ?case using Cons.IH by (simp add: hex2_inj)
qed simp

text \<open>Two boards with different addresses have different names, and the name fits its buffer.\<close>

lemma device_id_unique:
  "length mac = 6 \<Longrightarrow> length mac' = 6 \<Longrightarrow> device_id_text mac = device_id_text mac' \<longleftrightarrow> mac = mac'"
  using hex_concat_inj [of mac mac'] by (auto simp: device_id_text_def)

lemma device_id_length: "length (device_id_text mac) = 8 + 2 * length mac"
  by (induction mac) (simp_all add: device_id_text_def hex2_def)

lemma collect_once:
  "collect mac high low facts (snd (collect mac' high' low' facts' collected)) =
    (fst (collect mac' high' low' facts' collected), snd (collect mac' high' low' facts' collected))"
  by (simp add: collect_def Let_def split: option.split)

end
