(* ===== verification/Voice_Base.thy ===== *)
theory Voice_Base
  imports Audio_Direction Deadline
begin

text \<open>
  \<open>stackchan_audio/voice_base.cpp\<close>: the codec, the amplifier and the I2S channels behind the half-duplex
  table of \<open>Audio_Direction\<close>. The vendor's I2C and I2S drivers are a parameter (\<open>voice_bus\<close>) over a
  world. Changes of direction hold a lock, so they are one operation each. Arithmetic in floating
  point is not modelled: the waveform of a tone, its fading and the square root are arguments.
\<close>

section \<open>State\<close>

datatype io_result = Io_ok | Io_timeout | Io_failed

text \<open>A wait of \<open>None\<close> is \<open>portMAX_DELAY\<close>. Reads and writes of I2S count bytes.\<close>

record 'w voice_bus =
  lock_create :: "'w \<Rightarrow> bool \<times> 'w"
  i2c_open :: "'w \<Rightarrow> bool \<times> 'w"
  i2c_add :: "u8 \<Rightarrow> 'w \<Rightarrow> bool \<times> 'w"
  i2c_remove :: "u8 \<Rightarrow> 'w \<Rightarrow> 'w"
  i2c_write :: "u8 \<Rightarrow> u8 \<Rightarrow> u8 \<Rightarrow> 'w \<Rightarrow> bool \<times> 'w"
  i2c_read :: "u8 \<Rightarrow> u8 \<Rightarrow> 'w \<Rightarrow> u8 option \<times> 'w"
  i2s_new :: "bool \<Rightarrow> 'w \<Rightarrow> bool \<times> 'w"
  i2s_init :: "bool \<Rightarrow> u32 \<Rightarrow> 'w \<Rightarrow> bool \<times> 'w"
  i2s_enable :: "bool \<Rightarrow> 'w \<Rightarrow> bool \<times> 'w"
  i2s_delete :: "bool \<Rightarrow> 'w \<Rightarrow> 'w"
  i2s_read :: "nat \<Rightarrow> u32 option \<Rightarrow> 'w \<Rightarrow> io_result \<times> nat \<times> sample list \<times> 'w"
  i2s_write :: "sample list \<Rightarrow> u32 option \<Rightarrow> 'w \<Rightarrow> io_result \<times> nat \<times> 'w"
  bus_delay :: "u32 \<Rightarrow> 'w \<Rightarrow> 'w"
  bus_ticks :: "'w \<Rightarrow> u32 \<times> 'w"

text \<open>The object and the file's globals. A channel is there or not, and enabled or not;
  \<open>vb_registers\<close> has, for every device and register, the value of the last acknowledged write.\<close>

record 'w voice =
  vb_available :: bool
  vb_direction :: AudioDirectionState
  vb_sample_rate :: u32
  vb_volume :: u8
  vb_i2s_rate :: u32
  vb_lock :: bool
  vb_i2c :: bool
  vb_codec :: bool
  vb_expander :: bool
  vb_tx :: "bool option"
  vb_rx :: "bool option"
  vb_registers :: "u8 \<times> u8 \<Rightarrow> u8 option"
  vb_world :: 'w

definition kVoiceSampleRate :: u32 where
  "kVoiceSampleRate = 16000"

definition voice_new :: "'w \<Rightarrow> 'w voice" where
  "voice_new w =
    \<lparr>vb_available = False, vb_direction = AudioDirectionState_idle, vb_sample_rate = kVoiceSampleRate,
     vb_volume = 100, vb_i2s_rate = kVoiceSampleRate, vb_lock = False, vb_i2c = False, vb_codec = False,
     vb_expander = False, vb_tx = None, vb_rx = None, vb_registers = (\<lambda>_. None), vb_world = w\<rparr>"

definition kCodecAddress :: u8 where
  "kCodecAddress = 0x18"

definition kExpanderAddress :: u8 where
  "kExpanderAddress = 0x43"

definition kCodecForCapture :: "(u8 \<times> u8) list" where
  "kCodecForCapture =
    [(0x00, 0x80), (0x01, 0xBA), (0x02, 0x18), (0x0D, 0x01), (0x0E, 0x02), (0x14, 0x10), (0x17, 0xFF), (0x1C, 0x6A)]"

definition kCodecForPlayback :: "(u8 \<times> u8) list" where
  "kCodecForPlayback =
    [(0x00, 0x80), (0x01, 0xB5), (0x02, 0x18), (0x0D, 0x01), (0x12, 0x00), (0x13, 0x10), (0x32, 0xFF), (0x37, 0x08)]"

definition kExpanderForPlayback :: "(u8 \<times> u8) list" where
  "kExpanderForPlayback = [(0x03, 0xFF), (0x05, 0xFF), (0x07, 0x00), (0x0B, 0x00)]"

section \<open>The buses\<close>

definition open_i2c :: "'w voice_bus \<Rightarrow> 'w voice \<Rightarrow> bool \<times> 'w voice" where
  "open_i2c bus v =
    (if vb_i2c v then (True, v)
     else let (ok, w) = i2c_open bus (vb_world v) in (ok, v\<lparr>vb_i2c := ok, vb_world := w\<rparr>))"

definition close_i2s :: "'w voice_bus \<Rightarrow> 'w voice \<Rightarrow> 'w voice" where
  "close_i2s bus v =
    (let v = (if vb_rx v \<noteq> None then v\<lparr>vb_rx := None, vb_world := i2s_delete bus True (vb_world v)\<rparr> else v)
     in if vb_tx v \<noteq> None then v\<lparr>vb_tx := None, vb_world := i2s_delete bus False (vb_world v)\<rparr> else v)"

definition open_i2s :: "'w voice_bus \<Rightarrow> bool \<Rightarrow> 'w voice \<Rightarrow> bool \<times> 'w voice" where
  "open_i2s bus for_capture v =
    (let v = close_i2s bus v;
         (created, w) = i2s_new bus for_capture (vb_world v);
         v = v\<lparr>vb_world := w\<rparr>
     in if \<not> created then (False, v\<lparr>vb_tx := None, vb_rx := None\<rparr>)
        else
          (let v = (if for_capture then v\<lparr>vb_rx := Some False\<rparr> else v\<lparr>vb_tx := Some False\<rparr>);
               (configured, w) = i2s_init bus for_capture (vb_i2s_rate v) (vb_world v);
               v = v\<lparr>vb_world := w\<rparr>
           in if \<not> configured then (False, close_i2s bus v) else (True, v)))"

text \<open>\<open>i2s_channel_enable\<close> on the channel of the direction.\<close>

definition enable_i2s :: "'w voice_bus \<Rightarrow> bool \<Rightarrow> 'w voice \<Rightarrow> bool \<times> 'w voice" where
  "enable_i2s bus for_capture v =
    (let (ok, w) = i2s_enable bus for_capture (vb_world v);
         v = v\<lparr>vb_world := w\<rparr>
     in (ok, if \<not> ok then v else if for_capture then v\<lparr>vb_rx := Some True\<rparr> else v\<lparr>vb_tx := Some True\<rparr>))"

definition transmit :: "'w voice_bus \<Rightarrow> u8 \<Rightarrow> u8 \<Rightarrow> u8 \<Rightarrow> 'w voice \<Rightarrow> bool \<times> 'w voice" where
  "transmit bus device register_no value v =
    (let (ok, w) = i2c_write bus device register_no value (vb_world v);
         v = v\<lparr>vb_world := w\<rparr>
     in (ok, if ok then v\<lparr>vb_registers := (vb_registers v)((device, register_no) := Some value)\<rparr> else v))"

fun write_pairs :: "'w voice_bus \<Rightarrow> u8 \<Rightarrow> (u8 \<times> u8) list \<Rightarrow> 'w voice \<Rightarrow> bool \<times> 'w voice" where
  "write_pairs bus device [] v = (True, v)"
| "write_pairs bus device ((r, x) # pairs) v =
    (let (ok, v) = transmit bus device r x v
     in if \<not> ok then (False, v) else write_pairs bus device pairs v)"

definition write_registers ::
  "'w voice_bus \<Rightarrow> bool \<Rightarrow> u8 \<Rightarrow> (u8 \<times> u8) list \<Rightarrow> 'w voice \<Rightarrow> bool \<times> 'w voice" where
  "write_registers bus present device pairs v =
    (if \<not> present then (False, v) else write_pairs bus device pairs v)"

text \<open>The mean square is exact; its root, taken in floating point, is an argument.\<close>

definition rms_of :: "(u64 \<Rightarrow> u16) \<Rightarrow> sample list \<Rightarrow> u16" where
  "rms_of root samples =
    (if samples = [] then 0
     else root (sum_list (map (\<lambda>x. word_of_int (sint x * sint x)) samples) div word_of_nat (length samples)))"

section \<open>Starting\<close>

definition codec_answers :: "'w voice_bus \<Rightarrow> 'w \<Rightarrow> bool \<times> 'w" where
  "codec_answers bus w =
    (let (high, w) = i2c_read bus kCodecAddress 0xFD w
     in case high of
          None \<Rightarrow> (False, w)
        | Some h \<Rightarrow>
            (let (low, w) = i2c_read bus kCodecAddress 0xFE w
             in (case low of None \<Rightarrow> False | Some l \<Rightarrow> h = 0x83 \<and> l = 0x11, w)))"

definition voice_begin :: "'w voice_bus \<Rightarrow> 'w voice \<Rightarrow> bool \<times> 'w voice" where
  "voice_begin bus v =
    (if vb_available v then (True, v)
     else
       (let (locked, v) = (if vb_lock v then (True, v)
                           else let (ok, w) = lock_create bus (vb_world v) in (ok, v\<lparr>vb_lock := ok, vb_world := w\<rparr>))
        in if \<not> locked then (False, v)
           else
             (let (opened, v) = open_i2c bus v
              in if \<not> opened then (False, v)
                 else
                   (let (added, w) = i2c_add bus kCodecAddress (vb_world v);
                        v = v\<lparr>vb_world := w\<rparr>
                    in if \<not> added then (False, v)
                       else
                         (let (here, w) = codec_answers bus (vb_world v)
                          in if \<not> here
                             then (False, v\<lparr>vb_codec := False, vb_world := i2c_remove bus kCodecAddress w\<rparr>)
                             else
                               (let (expander, w) = i2c_add bus kExpanderAddress w
                                in (True, v\<lparr>vb_codec := True, vb_expander := expander, vb_available := True,
                                             vb_world := w\<rparr>)))))))"

section \<open>Volume\<close>

definition kUnityGain :: u8 where
  "kUnityGain = 0xBF"

definition volume_level :: "u8 \<Rightarrow> u8" where
  "volume_level volume = word_of_int (uint kUnityGain * uint volume div 100)"

definition set_volume :: "'w voice_bus \<Rightarrow> u8 \<Rightarrow> 'w voice \<Rightarrow> 'w voice" where
  "set_volume bus percent v =
    (let v = v\<lparr>vb_volume := (if percent > 100 then 100 else percent)\<rparr>
     in if \<not> vb_codec v then v
        else snd (transmit bus kCodecAddress 0x32 (volume_level (vb_volume v)) v))"

section \<open>Recording\<close>

definition undo_capture :: "'w voice \<Rightarrow> 'w voice" where
  "undo_capture v = v\<lparr>vb_direction := end_capture (vb_direction v)\<rparr>"

definition start_capture :: "'w voice_bus \<Rightarrow> u32 \<Rightarrow> 'w voice \<Rightarrow> bool \<times> 'w voice" where
  "start_capture bus rate v =
    (if \<not> vb_available v \<or> rate \<noteq> vb_sample_rate v then (False, v)
     else
       (let (transition, direction) = begin_capture (vb_direction v);
            v = v\<lparr>vb_direction := direction\<rparr>
        in case transition of
             AudioTransition_already_active \<Rightarrow> (True, v)
           | AudioTransition_denied \<Rightarrow> (False, v)
           | AudioTransition_proceed \<Rightarrow>
               (let (written, v) = write_registers bus (vb_codec v) kCodecAddress kCodecForCapture v
                in if \<not> written then (False, undo_capture v)
                   else
                     (let v = v\<lparr>vb_i2s_rate := rate\<rparr>;
                          (opened, v) = open_i2s bus True v
                      in if \<not> opened then (False, undo_capture v)
                         else
                           (let (enabled, v) = enable_i2s bus True v
                            in if \<not> enabled then (False, undo_capture (close_i2s bus v))
                               else (True, v))))))"

definition stop_capture :: "'w voice_bus \<Rightarrow> 'w voice \<Rightarrow> 'w voice" where
  "stop_capture bus v =
    (if vb_direction v \<noteq> AudioDirectionState_capturing then v else undo_capture (close_i2s bus v))"

definition wait_ticks :: "deadline \<Rightarrow> u32 \<Rightarrow> u32 option" where
  "wait_ticks d now = (if remaining d now = kUnbounded then None else Some (remaining d now))"

text \<open>What was read; a destination that is not there is a null pointer.\<close>

definition voice_read ::
  "'w voice_bus \<Rightarrow> bool \<Rightarrow> nat \<Rightarrow> deadline \<Rightarrow> u32 \<Rightarrow> 'w voice \<Rightarrow> sample list \<times> 'w voice" where
  "voice_read bus destination count d now v =
    (if vb_direction v \<noteq> AudioDirectionState_capturing \<or> \<not> destination \<or> count = 0 then ([], v)
     else
       (let (result, bytes, samples, w) = i2s_read bus (2 * count) (wait_ticks d now) (vb_world v);
            v = v\<lparr>vb_world := w\<rparr>
        in if result = Io_failed then ([], v) else (take (bytes div 2) samples, v)))"

section \<open>Playing\<close>

definition undo_playback :: "'w voice \<Rightarrow> 'w voice" where
  "undo_playback v = v\<lparr>vb_direction := end_playback (vb_direction v)\<rparr>"

definition start_playback :: "'w voice_bus \<Rightarrow> u32 \<Rightarrow> 'w voice \<Rightarrow> bool \<times> 'w voice" where
  "start_playback bus rate v =
    (if \<not> vb_available v \<or> rate \<noteq> vb_sample_rate v then (False, v)
     else
       (let (transition, direction) = begin_playback (vb_direction v);
            v = v\<lparr>vb_direction := direction\<rparr>
        in case transition of
             AudioTransition_already_active \<Rightarrow> (True, v)
           | AudioTransition_denied \<Rightarrow> (False, v)
           | AudioTransition_proceed \<Rightarrow>
               (let (written, v) = write_registers bus (vb_codec v) kCodecAddress kCodecForPlayback v
                in if \<not> written then (False, undo_playback v)
                   else
                     (let v = (if vb_expander v
                               then snd (write_registers bus True kExpanderAddress kExpanderForPlayback v) else v);
                          v = set_volume bus (vb_volume v) v;
                          v = v\<lparr>vb_i2s_rate := rate\<rparr>;
                          (opened, v) = open_i2s bus False v
                      in if \<not> opened then (False, undo_playback v)
                         else
                           (let (enabled, v) = enable_i2s bus False v
                            in if \<not> enabled then (False, undo_playback (close_i2s bus v))
                               else (True, v))))))"

definition stop_playback :: "'w voice_bus \<Rightarrow> 'w voice \<Rightarrow> 'w voice" where
  "stop_playback bus v =
    (if vb_direction v \<noteq> AudioDirectionState_playing then v
     else
       (let v = (if vb_expander v
                 then (let v = snd (transmit bus kExpanderAddress 0x05 0x00 v)
                       in v\<lparr>vb_world := bus_delay bus 10 (vb_world v)\<rparr>)
                 else v)
        in undo_playback (close_i2s bus v)))"

definition voice_write ::
  "'w voice_bus \<Rightarrow> sample list option \<Rightarrow> deadline \<Rightarrow> u32 \<Rightarrow> 'w voice \<Rightarrow> nat \<times> 'w voice" where
  "voice_write bus samples d now v =
    (case samples of
       None \<Rightarrow> (0, v)
     | Some xs \<Rightarrow>
         if vb_direction v \<noteq> AudioDirectionState_playing \<or> xs = [] then (0, v)
         else
           (let (result, bytes, w) = i2s_write bus xs (wait_ticks d now) (vb_world v);
                v = v\<lparr>vb_world := w\<rparr>
            in if result = Io_failed then (0, v) else (bytes div 2, v)))"

section \<open>Tones and the check of the microphone\<close>

definition kChunk :: nat where
  "kChunk = 800"

text \<open>\<open>chunk\<close> is one block of the tone, \<open>fade\<close> its first (true) or last (false) block from it.\<close>

definition tone_block ::
  "'w voice_bus \<Rightarrow> sample list \<Rightarrow> (bool \<Rightarrow> sample list) \<Rightarrow> nat \<Rightarrow> nat \<Rightarrow> nat \<times> 'w voice \<Rightarrow> nat \<times> 'w voice" where
  "tone_block bus chunk fade rounds i state =
    (let (written, v) = state;
         fade_in = (i = 0);
         fade_out = (\<not> fade_in \<and> i + 1 = rounds);
         out = (if fade_in \<or> fade_out then fade fade_in else chunk);
         (at, w) = bus_ticks bus (vb_world v);
         (wrote, v) = voice_write bus (Some out) (after at 500) at (v\<lparr>vb_world := w\<rparr>)
     in (written + wrote, v))"

definition play_tone ::
  "'w voice_bus \<Rightarrow> sample list \<Rightarrow> (bool \<Rightarrow> sample list) \<Rightarrow> u32 \<Rightarrow> 'w voice \<Rightarrow> nat \<times> 'w voice" where
  "play_tone bus chunk fade duration_ms v =
    (if \<not> vb_available v then (0, v)
     else
       (let (started, v) = start_playback bus (vb_sample_rate v) v
        in if \<not> started then (0, v)
           else
             (let rounds = unat (duration_ms * vb_sample_rate v div 1000) div kChunk;
                  (written, v) = fold (tone_block bus chunk fade rounds) [0..<rounds] (0, v)
              in (written, v\<lparr>vb_world := bus_delay bus 120 (vb_world v)\<rparr>))))"

record microphone_check =
  mc_ran :: bool
  mc_samples :: nat
  mc_rms :: u16

definition kFrames :: nat where
  "kFrames = 1600"

definition check_microphone :: "'w voice_bus \<Rightarrow> (u64 \<Rightarrow> u16) \<Rightarrow> 'w voice \<Rightarrow> microphone_check \<times> 'w voice" where
  "check_microphone bus root v =
    (let result = \<lparr>mc_ran = False, mc_samples = 0, mc_rms = 0\<rparr>
     in if \<not> vb_available v then (result, v)
        else
          (let v = stop_playback bus v;
               (started, v) = start_capture bus (vb_sample_rate v) v
           in if \<not> started then (result, v)
              else
                (let (first, w) = bus_ticks bus (vb_world v);
                     (_, v) = voice_read bus True kFrames (after first 300) first (v\<lparr>vb_world := w\<rparr>);
                     (second, w) = bus_ticks bus (vb_world v);
                     (got, v) = voice_read bus True kFrames (after second 300) second (v\<lparr>vb_world := w\<rparr>);
                     v = stop_capture bus v
                 in (\<lparr>mc_ran = True, mc_samples = length got, mc_rms = rms_of root got\<rparr>, v))))"

definition receiving :: "microphone_check \<Rightarrow> bool" where
  "receiving result \<longleftrightarrow> mc_ran result \<and> 0 < mc_samples result"

section \<open>What the buses leave alone\<close>

text \<open>A step of the buses changes only what they hold.\<close>

definition bus_step :: "'w voice \<Rightarrow> 'w voice \<Rightarrow> bool" where
  "bus_step v v' \<longleftrightarrow>
    vb_available v' = vb_available v \<and> vb_direction v' = vb_direction v \<and> vb_volume v' = vb_volume v \<and>
    vb_sample_rate v' = vb_sample_rate v \<and> vb_codec v' = vb_codec v \<and> vb_expander v' = vb_expander v \<and>
    vb_tx v' = vb_tx v \<and> vb_rx v' = vb_rx v"

lemma bus_step_refl [simp]: "bus_step v v" "bus_step v (v\<lparr>vb_world := w\<rparr>)"
  by (simp_all add: bus_step_def)

lemma bus_step_trans: "bus_step a b \<Longrightarrow> bus_step b c \<Longrightarrow> bus_step a c"
  by (simp add: bus_step_def)

lemma bus_step_fields:
  assumes "bus_step v v'"
  shows "vb_available v' = vb_available v" "vb_direction v' = vb_direction v" "vb_volume v' = vb_volume v"
    "vb_sample_rate v' = vb_sample_rate v" "vb_codec v' = vb_codec v" "vb_expander v' = vb_expander v"
    "vb_tx v' = vb_tx v" "vb_rx v' = vb_rx v"
  using assms by (simp_all add: bus_step_def)

lemma transmit_step: "bus_step v (snd (transmit bus d r x v))"
  by (cases "i2c_write bus d r x (vb_world v)") (simp add: transmit_def bus_step_def Let_def)

lemmas transmit_fields [simp] = bus_step_fields [OF transmit_step]

lemma transmit_registers:
  "vb_registers (snd (transmit bus d r x v)) =
    (if fst (transmit bus d r x v) then (vb_registers v)((d, r) := Some x) else vb_registers v)"
  by (simp add: transmit_def Let_def split: prod.split)

lemma write_pairs_step: "bus_step v (snd (write_pairs bus d pairs v))"
proof (induction pairs arbitrary: v)
  case (Cons p pairs)
  obtain r x where p: "p = (r, x)" by fastforce
  obtain ok v1 where t: "transmit bus d r x v = (ok, v1)" by fastforce
  have "bus_step v v1" using transmit_step [of v bus d r x] t by simp
  with Cons [of v1] show ?case by (auto simp: p t Let_def intro: bus_step_trans)
qed simp

lemma write_pairs_elsewhere:
  "key \<notin> (\<lambda>(r, x). (d, r)) ` set pairs \<Longrightarrow>
   vb_registers (snd (write_pairs bus d pairs v)) key = vb_registers v key"
proof (induction pairs arbitrary: v)
  case (Cons p pairs)
  obtain r x where p: "p = (r, x)" by fastforce
  obtain ok v1 where t: "transmit bus d r x v = (ok, v1)" by fastforce
  have "vb_registers v1 key = vb_registers v key"
    using transmit_registers [of bus d r x v] t Cons.prems by (auto simp: p)
  with Cons show ?case by (simp add: p t Let_def)
qed simp

definition registers_hold :: "u8 \<Rightarrow> (u8 \<times> u8) list \<Rightarrow> 'w voice \<Rightarrow> bool" where
  "registers_hold d pairs v \<longleftrightarrow> (\<forall>(r, x)\<in>set pairs. vb_registers v (d, r) = Some x)"

lemma write_pairs_hold:
  "write_pairs bus d pairs v = (True, v') \<Longrightarrow> distinct (map fst pairs) \<Longrightarrow> registers_hold d pairs v'"
proof (induction pairs arbitrary: v)
  case (Cons p pairs)
  obtain r x where p: "p = (r, x)" by fastforce
  obtain ok v1 where t: "transmit bus d r x v = (ok, v1)" by fastforce
  have ok: "ok" and rest: "write_pairs bus d pairs v1 = (True, v')"
    using Cons.prems(1) by (auto simp: p t Let_def split: if_splits)
  have "vb_registers v1 (d, r) = Some x" using transmit_registers [of bus d r x v] t ok by simp
  moreover have "(d, r) \<notin> (\<lambda>(r, x). (d, r)) ` set pairs" using Cons.prems(2) by (auto simp: p image_iff)
  ultimately have "vb_registers v' (d, r) = Some x"
    using write_pairs_elsewhere [of "(d, r)" d pairs bus v1] rest by simp
  with Cons.IH [OF rest] Cons.prems(2) show ?case by (simp add: registers_hold_def p)
qed (simp add: registers_hold_def)

section \<open>Half duplex\<close>

text \<open>The channels are those of the direction, and the codec is set up for it. The volume register is
  written again after the sequence that is in force.\<close>

definition set_up :: "'w voice \<Rightarrow> bool" where
  "set_up v \<longleftrightarrow>
    (case vb_direction v of
       AudioDirectionState_idle \<Rightarrow> True
     | AudioDirectionState_capturing \<Rightarrow> registers_hold kCodecAddress kCodecForCapture v
     | AudioDirectionState_playing \<Rightarrow>
         registers_hold kCodecAddress (filter (\<lambda>(r, x). r \<noteq> 0x32) kCodecForPlayback) v)"

definition channels_match :: "'w voice \<Rightarrow> bool" where
  "channels_match v \<longleftrightarrow>
    vb_rx v = (if vb_direction v = AudioDirectionState_capturing then Some True else None) \<and>
    vb_tx v = (if vb_direction v = AudioDirectionState_playing then Some True else None)"

definition voice_wf :: "'w voice \<Rightarrow> bool" where
  "voice_wf v \<longleftrightarrow> channels_match v \<and> set_up v \<and> vb_volume v \<le> 100 \<and>
    (vb_direction v \<noteq> AudioDirectionState_idle \<longrightarrow> vb_available v)"

lemma voice_wf_new: "voice_wf (voice_new w)"
  by (simp add: voice_wf_def channels_match_def set_up_def voice_new_def)

lemma registers_hold_world [simp]:
  "registers_hold d pairs (v\<lparr>vb_world := w\<rparr>) = registers_hold d pairs v"
  "registers_hold d pairs (v\<lparr>vb_direction := s\<rparr>) = registers_hold d pairs v"
  "registers_hold d pairs (v\<lparr>vb_i2s_rate := r\<rparr>) = registers_hold d pairs v"
  "registers_hold d pairs (v\<lparr>vb_rx := x\<rparr>) = registers_hold d pairs v"
  "registers_hold d pairs (v\<lparr>vb_tx := y\<rparr>) = registers_hold d pairs v"
  "registers_hold d pairs (v\<lparr>vb_volume := p\<rparr>) = registers_hold d pairs v"
  by (simp_all add: registers_hold_def)

lemma voice_wf_world [simp]: "voice_wf (v\<lparr>vb_world := w\<rparr>) = voice_wf v"
  by (simp add: voice_wf_def channels_match_def set_up_def split: AudioDirectionState.split)

text \<open>A write of a register outside the sequence in force keeps everything.\<close>

lemma sequence_registers:
  "(\<lambda>(r, x). r) ` set kCodecForCapture = {0x00, 0x01, 0x02, 0x0D, 0x0E, 0x14, 0x17, 0x1C}"
  "distinct (map fst kCodecForCapture)" "distinct (map fst kCodecForPlayback)"
  by (auto simp: kCodecForCapture_def kCodecForPlayback_def)

lemma hold_elsewhere:
  assumes "registers_hold d pairs v" and "\<And>r x. (r, x) \<in> set pairs \<Longrightarrow> vb_registers v' (d, r) = vb_registers v (d, r)"
  shows "registers_hold d pairs v'"
  using assms by (fastforce simp: registers_hold_def)

lemma transmit_hold:
  assumes "registers_hold d pairs v" and "(d', r') \<notin> (\<lambda>(r, x). (d, r)) ` set pairs"
  shows "registers_hold d pairs (snd (transmit bus d' r' y v))"
  using assms by (fastforce simp: registers_hold_def transmit_registers image_iff)

lemma channels_match_step: "bus_step v v' \<Longrightarrow> channels_match v' = channels_match v"
  by (simp add: channels_match_def bus_step_fields)

lemma outside_sequences:
  "(d', 0x32) \<notin> (\<lambda>(r, x). (d, r)) ` set kCodecForCapture"
  "(d', 0x32) \<notin> (\<lambda>(r, x). (d, r)) ` set (filter (\<lambda>(r, x). r \<noteq> 0x32) kCodecForPlayback)"
  "(kExpanderAddress, r') \<notin> (\<lambda>(r, x). (kCodecAddress, r)) ` A"
  by (auto simp: kCodecForCapture_def kExpanderAddress_def kCodecAddress_def)

lemma volume_transmit_set_up:
  "set_up v \<Longrightarrow> set_up (snd (transmit bus kCodecAddress 0x32 y v))"
  using transmit_hold [where d = kCodecAddress and d' = kCodecAddress and r' = "0x32" and y = y and bus = bus and v = v,
      OF _ outside_sequences(1)]
    transmit_hold [where d = kCodecAddress and d' = kCodecAddress and r' = "0x32" and y = y and bus = bus and v = v,
      OF _ outside_sequences(2)]
  unfolding set_up_def by (cases "vb_direction v") simp_all

lemma expander_transmit_set_up:
  "set_up v \<Longrightarrow> set_up (snd (transmit bus kExpanderAddress r y v))"
  using transmit_hold [where d = kCodecAddress and d' = kExpanderAddress and r' = r and y = y and bus = bus and v = v,
      OF _ outside_sequences(3)]
  unfolding set_up_def by (cases "vb_direction v") simp_all

lemma volume_level_gain: "volume \<le> 100 \<Longrightarrow> volume_level volume \<le> kUnityGain"
  and volume_level_full: "volume_level 100 = kUnityGain"
proof -
  assume "volume \<le> 100"
  then have "uint volume \<le> 100" by (simp add: word_le_def)
  moreover have "0 \<le> uint volume" by simp
  ultimately have "191 * uint volume div 100 \<le> 191" "0 \<le> 191 * uint volume div 100" by (simp_all add: pos_imp_zdiv_nonneg_iff)
  then show "volume_level volume \<le> kUnityGain"
    by (simp add: volume_level_def kUnityGain_def word_le_def uint_word_of_int take_bit_int_eq_self)
qed (simp add: volume_level_def kUnityGain_def)

lemma set_volume_fields [simp]:
  "vb_available (set_volume bus p v) = vb_available v" "vb_direction (set_volume bus p v) = vb_direction v"
  "vb_sample_rate (set_volume bus p v) = vb_sample_rate v" "vb_codec (set_volume bus p v) = vb_codec v"
  "vb_expander (set_volume bus p v) = vb_expander v" "vb_tx (set_volume bus p v) = vb_tx v"
  "vb_rx (set_volume bus p v) = vb_rx v" "vb_volume (set_volume bus p v) \<le> 100"
  by (simp_all add: set_volume_def Let_def not_less)

lemma set_up_plain [simp]:
  "set_up (v\<lparr>vb_volume := p\<rparr>) = set_up v" "set_up (v\<lparr>vb_world := w\<rparr>) = set_up v"
  "set_up (v\<lparr>vb_i2s_rate := rate\<rparr>) = set_up v" "set_up (v\<lparr>vb_rx := x\<rparr>) = set_up v" "set_up (v\<lparr>vb_tx := y\<rparr>) = set_up v"
  by (simp_all add: set_up_def split: AudioDirectionState.split)

lemma set_volume_set_up: "set_up v \<Longrightarrow> set_up (set_volume bus p v)"
  by (simp add: set_volume_def Let_def volume_transmit_set_up)

lemma set_volume_wf [invariant_rules]: "voice_wf v \<Longrightarrow> voice_wf (set_volume bus p v)"
  by (simp add: voice_wf_def channels_match_def set_volume_set_up)

lemma expander_pairs_set_up: "set_up v \<Longrightarrow> set_up (snd (write_pairs bus kExpanderAddress pairs v))"
proof (induction pairs arbitrary: v)
  case (Cons p pairs)
  obtain r x where p: "p = (r, x)" by fastforce
  obtain ok v1 where t: "transmit bus kExpanderAddress r x v = (ok, v1)" by fastforce
  have "set_up v1" using expander_transmit_set_up [OF Cons.prems, of bus r x] t by simp
  with Cons.IH show ?case by (simp add: p t Let_def)
qed simp

section \<open>The channels\<close>

lemma close_i2s_fields [simp]:
  "vb_rx (close_i2s bus v) = None" "vb_tx (close_i2s bus v) = None"
  "vb_available (close_i2s bus v) = vb_available v" "vb_direction (close_i2s bus v) = vb_direction v"
  "vb_volume (close_i2s bus v) = vb_volume v" "vb_registers (close_i2s bus v) = vb_registers v"
  by (simp_all add: close_i2s_def Let_def)

lemma open_i2s_fields:
  assumes "open_i2s bus for_capture v = (ok, v')"
  shows "vb_rx v' = (if ok \<and> for_capture then Some False else None)"
    "vb_tx v' = (if ok \<and> \<not> for_capture then Some False else None)"
    "vb_available v' = vb_available v" "vb_direction v' = vb_direction v"
    "vb_volume v' = vb_volume v" "vb_registers v' = vb_registers v"
  using assms by (auto simp: open_i2s_def Let_def split: prod.splits if_splits)

lemma enable_i2s_fields:
  assumes "enable_i2s bus for_capture v = (ok, v')"
  shows "vb_rx v' = (if ok \<and> for_capture then Some True else vb_rx v)"
    "vb_tx v' = (if ok \<and> \<not> for_capture then Some True else vb_tx v)"
    "vb_available v' = vb_available v" "vb_direction v' = vb_direction v"
    "vb_volume v' = vb_volume v" "vb_registers v' = vb_registers v"
  using assms by (auto simp: enable_i2s_def Let_def split: prod.splits if_splits)

lemma registers_same: "vb_registers v' = vb_registers v \<Longrightarrow> registers_hold d pairs v' = registers_hold d pairs v"
  by (simp add: registers_hold_def)

lemma undo_fields [simp]:
  "vb_rx (undo_capture v) = vb_rx v" "vb_tx (undo_capture v) = vb_tx v"
  "vb_available (undo_capture v) = vb_available v" "vb_volume (undo_capture v) = vb_volume v"
  "vb_direction (undo_capture v) = end_capture (vb_direction v)"
  "vb_rx (undo_playback v) = vb_rx v" "vb_tx (undo_playback v) = vb_tx v"
  "vb_available (undo_playback v) = vb_available v" "vb_volume (undo_playback v) = vb_volume v"
  "vb_direction (undo_playback v) = end_playback (vb_direction v)"
  by (simp_all add: undo_capture_def undo_playback_def)

lemma end_ends [simp]:
  "end_capture AudioDirectionState_capturing = AudioDirectionState_idle"
  "end_playback AudioDirectionState_playing = AudioDirectionState_idle"
  by (simp_all add: end_capture_def end_playback_def)

text \<open>Idle with no channel is all the invariant asks of a start that failed.\<close>

lemma idle_wf:
  "vb_direction v = AudioDirectionState_idle \<Longrightarrow> vb_rx v = None \<Longrightarrow> vb_tx v = None \<Longrightarrow> vb_volume v \<le> 100 \<Longrightarrow> voice_wf v"
  by (simp add: voice_wf_def channels_match_def set_up_def)

section \<open>A start either takes the direction or leaves it\<close>

definition start_outcome :: "AudioDirectionState \<Rightarrow> 'w voice \<Rightarrow> bool \<Rightarrow> 'w voice \<Rightarrow> bool" where
  "start_outcome wanted v ok v' \<longleftrightarrow> voice_wf v' \<and> vb_available v' = vb_available v \<and>
    (if ok then vb_direction v' = wanted
     else vb_direction v' = vb_direction v \<and> vb_rx v' = vb_rx v \<and> vb_tx v' = vb_tx v)"

lemma start_capture_idle:
  assumes wf: "voice_wf v" and idle: "vb_direction v = AudioDirectionState_idle"
    and available: "vb_available v" and start: "start_capture bus (vb_sample_rate v) v = (ok, v')"
  shows "start_outcome AudioDirectionState_capturing v ok v'"
proof -
  let ?v0 = "v\<lparr>vb_direction := AudioDirectionState_capturing\<rparr>"
  have none: "vb_rx v = None" "vb_tx v = None" and volume: "vb_volume v \<le> 100"
    using wf idle by (simp_all add: voice_wf_def channels_match_def)
  obtain written v1 where w: "write_registers bus (vb_codec v) kCodecAddress kCodecForCapture ?v0 = (written, v1)"
    by fastforce
  have step: "bus_step ?v0 v1"
    using w write_pairs_step [of ?v0 bus kCodecAddress kCodecForCapture]
    by (auto simp: write_registers_def split: if_splits)
  have hold: "written \<Longrightarrow> registers_hold kCodecAddress kCodecForCapture v1"
    using w write_pairs_hold [OF _ sequence_registers(2)] by (auto simp: write_registers_def split: if_splits)
  obtain opened v2 where o: "open_i2s bus True (v1\<lparr>vb_i2s_rate := vb_sample_rate v\<rparr>) = (opened, v2)" by fastforce
  obtain enabled v3 where e: "enable_i2s bus True v2 = (enabled, v3)" by fastforce
  note fields = bus_step_fields [OF step] open_i2s_fields [OF o] enable_i2s_fields [OF e]
  have started: "(ok, v') = (if \<not> written then (False, undo_capture v1)
      else if \<not> opened then (False, undo_capture v2)
      else if \<not> enabled then (False, undo_capture (close_i2s bus v3)) else (True, v3))"
    using start available idle by (simp add: start_capture_def begin_capture_def w o e Let_def cong: if_cong)
  have "registers_hold kCodecAddress kCodecForCapture v3 = registers_hold kCodecAddress kCodecForCapture v1"
    using fields by (intro registers_same) simp
  then have "voice_wf v3" if "written" "opened" "enabled"
    using hold that fields volume available none by (simp add: voice_wf_def channels_match_def set_up_def)
  then show ?thesis
    using started fields none volume idle
    by (auto simp: start_outcome_def idle_wf split: if_splits)
qed

lemma same_direction [simp]: "vb_direction v = s \<Longrightarrow> v\<lparr>vb_direction := s\<rparr> = v"
  by simp

lemma start_capture_outcome:
  assumes "voice_wf v" and "start_capture bus rate v = (ok, v')"
  shows "start_outcome AudioDirectionState_capturing v ok v'"
proof (cases "vb_available v \<and> rate = vb_sample_rate v \<and> vb_direction v = AudioDirectionState_idle")
  case True
  then show ?thesis using start_capture_idle [OF assms(1)] assms(2) by blast
next
  case False
  then show ?thesis
    using assms by (cases "vb_direction v") (auto simp: start_capture_def begin_capture_def start_outcome_def Let_def split: if_splits)
qed

lemma start_playback_idle:
  assumes wf: "voice_wf v" and idle: "vb_direction v = AudioDirectionState_idle"
    and available: "vb_available v" and start: "start_playback bus (vb_sample_rate v) v = (ok, v')"
  shows "start_outcome AudioDirectionState_playing v ok v'"
proof -
  let ?v0 = "v\<lparr>vb_direction := AudioDirectionState_playing\<rparr>"
  have none: "vb_rx v = None" "vb_tx v = None" and volume: "vb_volume v \<le> 100"
    using wf idle by (simp_all add: voice_wf_def channels_match_def)
  obtain written v1 where w: "write_registers bus (vb_codec v) kCodecAddress kCodecForPlayback ?v0 = (written, v1)"
    by fastforce
  have step: "bus_step ?v0 v1"
    using w write_pairs_step [of ?v0 bus kCodecAddress kCodecForPlayback]
    by (auto simp: write_registers_def split: if_splits)
  have "written \<Longrightarrow> registers_hold kCodecAddress kCodecForPlayback v1"
    using w write_pairs_hold [OF _ sequence_registers(3)] by (auto simp: write_registers_def split: if_splits)
  then have hold: "written \<Longrightarrow> set_up v1"
    using bus_step_fields [OF step] by (auto simp: set_up_def registers_hold_def)
  define v2 where "v2 = (if vb_expander v1 then snd (write_registers bus True kExpanderAddress kExpanderForPlayback v1) else v1)"
  define v3 where "v3 = (set_volume bus (vb_volume v2) v2)\<lparr>vb_i2s_rate := vb_sample_rate v\<rparr>"
  have step2: "bus_step v1 v2" by (simp add: v2_def write_registers_def write_pairs_step)
  have "set_up v2" if "written"
    using hold [OF that] expander_pairs_set_up [of v1 bus] by (simp add: v2_def write_registers_def)
  from set_volume_set_up [OF this] have hold3: "written \<Longrightarrow> set_up v3" by (simp add: v3_def)
  have "vb_volume v3 \<le> 100" "vb_direction v3 = vb_direction v2" "vb_available v3 = vb_available v2"
    by (simp_all add: v3_def)
  obtain opened v4 where o: "open_i2s bus False v3 = (opened, v4)" by fastforce
  obtain enabled v5 where e: "enable_i2s bus False v4 = (enabled, v5)" by fastforce
  note fields = bus_step_fields [OF step] bus_step_fields [OF step2] \<open>vb_volume v3 \<le> 100\<close>
    \<open>vb_direction v3 = vb_direction v2\<close> \<open>vb_available v3 = vb_available v2\<close>
    open_i2s_fields [OF o] enable_i2s_fields [OF e]
  have started: "(ok, v') = (if \<not> written then (False, undo_playback v1)
      else if \<not> opened then (False, undo_playback v4)
      else if \<not> enabled then (False, undo_playback (close_i2s bus v5)) else (True, v5))"
    using start available idle o e
    by (simp add: start_playback_def begin_playback_def w v2_def v3_def Let_def split del: if_split cong: if_cong)
  have failed: "start_outcome AudioDirectionState_playing v False u"
    if "vb_direction u = AudioDirectionState_idle" "vb_rx u = None" "vb_tx u = None" "vb_volume u \<le> 100" "vb_available u"
    for u using that idle none available by (simp add: start_outcome_def idle_wf)
  consider "\<not> written" | "written" "\<not> opened" | "written" "opened" "\<not> enabled" | "written" "opened" "enabled" by blast
  then show ?thesis
  proof cases
    case 4
    have "registers_hold kCodecAddress pairs v5 = registers_hold kCodecAddress pairs v3" for pairs
      using fields by (intro registers_same) simp
    then have "set_up v5" using hold3 [OF 4(1)] fields 4 by (simp add: set_up_def)
    then show ?thesis using started 4 fields available by (simp add: start_outcome_def voice_wf_def channels_match_def)
  qed (use started fields none volume available in \<open>simp_all add: failed\<close>)
qed

lemma start_playback_outcome:
  assumes "voice_wf v" and "start_playback bus rate v = (ok, v')"
  shows "start_outcome AudioDirectionState_playing v ok v'"
proof (cases "vb_available v \<and> rate = vb_sample_rate v \<and> vb_direction v = AudioDirectionState_idle")
  case True
  then show ?thesis using start_playback_idle [OF assms(1)] assms(2) by blast
next
  case False
  then show ?thesis
    using assms by (cases "vb_direction v")
      (auto simp: start_playback_def begin_playback_def start_outcome_def Let_def split: if_splits)
qed

lemma stop_capture_stops [invariant_rules]:
  assumes "voice_wf v"
  shows "voice_wf (stop_capture bus v)" "vb_direction (stop_capture bus v) \<noteq> AudioDirectionState_capturing"
proof -
  have "vb_volume v \<le> 100" using assms by (simp add: voice_wf_def)
  then show "voice_wf (stop_capture bus v)" "vb_direction (stop_capture bus v) \<noteq> AudioDirectionState_capturing"
    using assms by (simp_all add: stop_capture_def idle_wf)
qed

lemma stop_playback_stops [invariant_rules]:
  assumes "voice_wf v"
  shows "voice_wf (stop_playback bus v)" "vb_direction (stop_playback bus v) \<noteq> AudioDirectionState_playing"
proof -
  have "vb_volume v \<le> 100" using assms by (simp add: voice_wf_def)
  then show "voice_wf (stop_playback bus v)" "vb_direction (stop_playback bus v) \<noteq> AudioDirectionState_playing"
    using assms by (simp_all add: stop_playback_def idle_wf Let_def)
qed


lemma voice_read_wf [invariant_rules]:
  "voice_wf v \<Longrightarrow> voice_wf (snd (voice_read bus destination n d now v))"
  "vb_direction (snd (voice_read bus destination n d now v)) = vb_direction v"
  by (auto simp: voice_read_def Let_def split: prod.split)

lemma voice_write_wf [invariant_rules]:
  "voice_wf v \<Longrightarrow> voice_wf (snd (voice_write bus samples d now v))"
  "vb_direction (snd (voice_write bus samples d now v)) = vb_direction v"
  "vb_available (snd (voice_write bus samples d now v)) = vb_available v"
  by (auto simp: voice_write_def Let_def split: prod.split option.split)

lemma tone_block_wf:
  assumes "voice_wf (snd state)"
  shows "voice_wf (snd (tone_block bus chunk fade rounds i state))"
    "vb_direction (snd (tone_block bus chunk fade rounds i state)) = vb_direction (snd state)"
proof -
  obtain written v where s: "state = (written, v)" by fastforce
  obtain at w where t: "bus_ticks bus (vb_world v) = (at, w)" by fastforce
  obtain k v' where
    o: "voice_write bus (Some (if i = 0 \<or> i \<noteq> 0 \<and> i + 1 = rounds then fade (i = 0) else chunk)) (after at 500) at
      (v\<lparr>vb_world := w\<rparr>) = (k, v')" by fastforce
  have "voice_wf v'" "vb_direction v' = vb_direction v"
    using voice_write_wf(1,2) [where v = "v\<lparr>vb_world := w\<rparr>" and bus = bus] assms o s by (simp, metis snd_conv, simp, metis snd_conv)
  then show "voice_wf (snd (tone_block bus chunk fade rounds i state))"
    "vb_direction (snd (tone_block bus chunk fade rounds i state)) = vb_direction (snd state)"
    using s t o by (simp_all add: tone_block_def Let_def)
qed

lemma tone_blocks_wf:
  "voice_wf (snd state) \<Longrightarrow> voice_wf (snd (fold (tone_block bus chunk fade rounds) is state)) \<and>
    vb_direction (snd (fold (tone_block bus chunk fade rounds) is state)) = vb_direction (snd state)"
proof (induction "is" arbitrary: state)
  case (Cons i "is")
  then show ?case using tone_block_wf [of state bus chunk fade rounds i] by simp
qed simp

text \<open>A tone takes the direction only when it is free, and leaves the loudspeaker on.\<close>

lemma play_tone_wf [invariant_rules]:
  assumes "voice_wf v"
  shows "voice_wf (snd (play_tone bus chunk fade ms v))"
    "vb_direction (snd (play_tone bus chunk fade ms v)) \<in> {vb_direction v, AudioDirectionState_playing}"
proof -
  obtain ok v1 where s: "start_playback bus (vb_sample_rate v) v = (ok, v1)" by fastforce
  have o: "start_outcome AudioDirectionState_playing v ok v1" by (rule start_playback_outcome [OF assms s])
  have "voice_wf (snd (0 :: nat, v1))" using o by (simp add: start_outcome_def)
  note tone = tone_blocks_wf [OF this]
  show "voice_wf (snd (play_tone bus chunk fade ms v))"
    "vb_direction (snd (play_tone bus chunk fade ms v)) \<in> {vb_direction v, AudioDirectionState_playing}"
    using assms o tone by (auto simp: play_tone_def s start_outcome_def Let_def split_beta)
qed

lemma check_microphone_wf [invariant_rules]:
  assumes "voice_wf v"
  shows "voice_wf (snd (check_microphone bus root v))"
proof (cases "vb_available v")
  case True
  let ?v = "stop_playback bus v"
  obtain ok v1 where s: "start_capture bus (vb_sample_rate ?v) ?v = (ok, v1)" by fastforce
  have wf1: "voice_wf v1"
    using start_capture_outcome [OF stop_playback_stops(1) [OF assms] s] by (simp add: start_outcome_def)
  obtain t1 w1 where t1: "bus_ticks bus (vb_world v1) = (t1, w1)" by fastforce
  obtain g1 v2 where r1: "voice_read bus True kFrames (after t1 300) t1 (v1\<lparr>vb_world := w1\<rparr>) = (g1, v2)" by fastforce
  obtain t2 w2 where t2: "bus_ticks bus (vb_world v2) = (t2, w2)" by fastforce
  obtain g2 v3 where r2: "voice_read bus True kFrames (after t2 300) t2 (v2\<lparr>vb_world := w2\<rparr>) = (g2, v3)" by fastforce
  have "voice_wf v2" using voice_read_wf(1) [of "v1\<lparr>vb_world := w1\<rparr>"] wf1 r1 by (metis snd_conv voice_wf_world)
  then have "voice_wf v3" using voice_read_wf(1) [of "v2\<lparr>vb_world := w2\<rparr>"] r2 by (metis snd_conv voice_wf_world)
  then show ?thesis
    using True wf1 by (simp add: check_microphone_def s t1 r1 t2 r2 Let_def stop_capture_stops)
qed (use assms in \<open>simp add: check_microphone_def\<close>)

text \<open>What neither starting nor a failure to start touches.\<close>

definition untouched :: "'w voice \<Rightarrow> 'w voice \<Rightarrow> bool" where
  "untouched v v' \<longleftrightarrow> vb_direction v' = vb_direction v \<and> vb_rx v' = vb_rx v \<and> vb_tx v' = vb_tx v \<and>
    vb_registers v' = vb_registers v \<and> vb_volume v' = vb_volume v \<and> (vb_available v \<longrightarrow> vb_available v')"

lemma untouched_wf:
  assumes "untouched v v'" and "voice_wf v"
  shows "voice_wf v'"
proof -
  have "registers_hold d pairs v' = registers_hold d pairs v" for d pairs
    using assms(1) by (intro registers_same) (simp add: untouched_def)
  then have "set_up v' = set_up v" using assms(1) by (simp add: set_up_def untouched_def split: AudioDirectionState.split)
  then show ?thesis using assms by (auto simp: untouched_def voice_wf_def channels_match_def)
qed

lemma voice_begin_untouched: "untouched v (snd (voice_begin bus v))"
proof -
  obtain locked v1 where l: "(if vb_lock v then (True, v)
      else let (ok, w) = lock_create bus (vb_world v) in (ok, v\<lparr>vb_lock := ok, vb_world := w\<rparr>)) = (locked, v1)" by fastforce
  obtain opened v2 where o: "open_i2c bus v1 = (opened, v2)" by fastforce
  obtain added w where a: "i2c_add bus kCodecAddress (vb_world v2) = (added, w)" by fastforce
  obtain here w2 where h: "codec_answers bus w = (here, w2)" by fastforce
  obtain expander w3 where x: "i2c_add bus kExpanderAddress w2 = (expander, w3)" by fastforce
  have v1: "untouched v v1" using l by (cases "lock_create bus (vb_world v)") (auto simp: untouched_def split: if_splits)
  have "untouched v1 v2" using o by (cases "i2c_open bus (vb_world v1)") (auto simp: open_i2c_def untouched_def split: if_splits)
  with v1 have v2: "untouched v v2" by (simp add: untouched_def)
  have "snd (voice_begin bus v) =
      (if vb_available v then v else if \<not> locked then v1 else if \<not> opened then v2
       else if \<not> added then v2\<lparr>vb_world := w\<rparr>
       else if \<not> here then v2\<lparr>vb_world := w, vb_codec := False, vb_world := i2c_remove bus kCodecAddress w2\<rparr>
       else v2\<lparr>vb_world := w, vb_codec := True, vb_expander := expander, vb_available := True, vb_world := w3\<rparr>)"
    unfolding voice_begin_def l by (simp add: o a h x Let_def if_distrib [of snd] split del: if_split cong: if_cong)
  moreover have "untouched v v" "untouched v (v2\<lparr>vb_world := w\<rparr>)"
    "untouched v (v2\<lparr>vb_world := w, vb_codec := False, vb_world := i2c_remove bus kCodecAddress w2\<rparr>)"
    "untouched v (v2\<lparr>vb_world := w, vb_codec := True, vb_expander := expander, vb_available := True, vb_world := w3\<rparr>)"
    using v2 by (simp_all add: untouched_def)
  ultimately show ?thesis using v1 v2 by presburger
qed

lemma voice_begin_wf [invariant_rules]: "voice_wf v \<Longrightarrow> voice_wf (snd (voice_begin bus v))"
  by (rule untouched_wf [OF voice_begin_untouched])

section \<open>Runs\<close>

datatype voice_op =
    Voice_begin
  | Start_capture u32
  | Stop_capture
  | Voice_read bool nat deadline u32
  | Start_playback u32
  | Stop_playback
  | Voice_write "sample list option" deadline u32
  | Set_volume u8
  | Play_tone "sample list" "bool \<Rightarrow> sample list" u32
  | Check_microphone "u64 \<Rightarrow> u16"

fun voice_step :: "'w voice_bus \<Rightarrow> voice_op \<Rightarrow> 'w voice \<Rightarrow> 'w voice" where
  "voice_step bus Voice_begin v = snd (voice_begin bus v)"
| "voice_step bus (Start_capture rate) v = snd (start_capture bus rate v)"
| "voice_step bus Stop_capture v = stop_capture bus v"
| "voice_step bus (Voice_read destination n d now) v = snd (voice_read bus destination n d now v)"
| "voice_step bus (Start_playback rate) v = snd (start_playback bus rate v)"
| "voice_step bus Stop_playback v = stop_playback bus v"
| "voice_step bus (Voice_write samples d now) v = snd (voice_write bus samples d now v)"
| "voice_step bus (Set_volume percent) v = set_volume bus percent v"
| "voice_step bus (Play_tone chunk fade ms) v = snd (play_tone bus chunk fade ms v)"
| "voice_step bus (Check_microphone root) v = snd (check_microphone bus root v)"

lemma start_wf [invariant_rules]:
  assumes "voice_wf v"
  shows "voice_wf (snd (start_capture bus rate v))" "voice_wf (snd (start_playback bus rate v))"
  using start_capture_outcome [OF assms] start_playback_outcome [OF assms]
  by (metis start_outcome_def surjective_pairing)+

lemma voice_step_wf: "voice_wf v \<Longrightarrow> voice_wf (voice_step bus op v)"
  by (cases op) (simp_all add: invariant_rules)

lemma voice_run_wf: "voice_wf v \<Longrightarrow> voice_wf (fold (voice_step bus) ops v)"
  by (induction ops arbitrary: v) (simp_all add: voice_step_wf)

section \<open>Properties\<close>

text \<open>C9: whatever the buses answer and in whatever order the operations are called, the microphone and
  the loudspeaker are never open together: an enabled channel is there exactly for the direction taken,
  and the codec's registers are those of that direction.\<close>
theorem voice_half_duplex:
  assumes "v = fold (voice_step bus) ops (voice_new w)"
  shows "vb_rx v = (if vb_direction v = AudioDirectionState_capturing then Some True else None) \<and>
    vb_tx v = (if vb_direction v = AudioDirectionState_playing then Some True else None) \<and>
    (case vb_direction v of
       AudioDirectionState_idle \<Rightarrow> True
     | AudioDirectionState_capturing \<Rightarrow> registers_hold kCodecAddress kCodecForCapture v
     | AudioDirectionState_playing \<Rightarrow>
         registers_hold kCodecAddress (filter (\<lambda>(r, x). r \<noteq> 0x32) kCodecForPlayback) v)"
proof -
  have "voice_wf v" unfolding assms by (rule voice_run_wf [OF voice_wf_new])
  then show ?thesis by (simp add: voice_wf_def channels_match_def set_up_def)
qed

text \<open>A start that is refused or fails, at whatever step, leaves the other direction as it was, its
  channel included; one that succeeds has taken the direction.\<close>
theorem failed_start_harmless:
  assumes "v = fold (voice_step bus) ops (voice_new w)"
    and "start_capture bus rate v = (ok, v')" and "start_playback bus rate v = (ok', v'')"
  shows "(if ok then vb_direction v' = AudioDirectionState_capturing
      else (vb_direction v', vb_rx v', vb_tx v') = (vb_direction v, vb_rx v, vb_tx v)) \<and>
    (if ok' then vb_direction v'' = AudioDirectionState_playing
      else (vb_direction v'', vb_rx v'', vb_tx v'') = (vb_direction v, vb_rx v, vb_tx v))"
proof -
  have "voice_wf v" using voice_run_wf [OF voice_wf_new, of bus ops w] assms(1) by simp
  from start_capture_outcome [OF this assms(2)] start_playback_outcome [OF this assms(3)]
  show ?thesis by (simp add: start_outcome_def)
qed

text \<open>Buses on which everything works but a new channel for playback.\<close>

definition quiet_bus :: "unit voice_bus" where
  "quiet_bus =
    \<lparr>lock_create = (\<lambda>w. (True, w)), i2c_open = (\<lambda>w. (True, w)), i2c_add = (\<lambda>a w. (True, w)), i2c_remove = (\<lambda>a w. w),
     i2c_write = (\<lambda>a r x w. (True, w)), i2c_read = (\<lambda>a r w. (Some (if r = 0xFD then 0x83 else 0x11), w)),
     i2s_new = (\<lambda>capture w. (capture, w)), i2s_init = (\<lambda>capture rate w. (True, w)),
     i2s_enable = (\<lambda>capture w. (True, w)), i2s_delete = (\<lambda>capture w. w),
     i2s_read = (\<lambda>n wait w. (Io_ok, n, replicate (n div 2) 0, w)),
     i2s_write = (\<lambda>xs wait w. (Io_ok, 2 * length xs, w)), bus_delay = (\<lambda>ms w. w), bus_ticks = (\<lambda>w. (0, w))\<rparr>"

definition capturing_voice :: "unit voice" where
  "capturing_voice = fold (voice_step quiet_bus) [Voice_begin, Start_capture 16000] (voice_new ())"

lemma capturing_voice_state: "vb_direction capturing_voice = AudioDirectionState_capturing"
  by code_simp

lemma voice_half_duplex_witness:
  "vb_rx capturing_voice = Some True \<and> vb_tx capturing_voice = None \<and>
    registers_hold kCodecAddress kCodecForCapture capturing_voice"
  using voice_half_duplex [OF capturing_voice_def] by (simp add: capturing_voice_state)

lemma failed_start_harmless_witness:
  "vb_direction (snd (start_playback quiet_bus 16000 capturing_voice)) = AudioDirectionState_capturing"
proof -
  have "start_capture quiet_bus 16000 capturing_voice = (fst (start_capture quiet_bus 16000 capturing_voice), snd (start_capture quiet_bus 16000 capturing_voice))"
    "start_playback quiet_bus 16000 capturing_voice = (fst (start_playback quiet_bus 16000 capturing_voice), snd (start_playback quiet_bus 16000 capturing_voice))"
    by simp_all
  moreover have "\<not> fst (start_playback quiet_bus 16000 capturing_voice)" by code_simp
  ultimately show ?thesis
    using failed_start_harmless [OF capturing_voice_def] capturing_voice_state by (metis fst_conv)
qed

end
