(* ===== verification/Voice_Turn.thy ===== *)
theory Voice_Turn
  imports Conversation_Task Voice_Base
begin

text \<open>
  The conversation on the device's own audio: \<open>main.cpp\<close> hands the conversation task the voice base as
  its microphone and its loudspeaker. The ports of \<open>Conversation_Task\<close> are the operations of
  \<open>Voice_Base\<close>; the clock, the delay, the cancellation and the gateway act on the rest of the world.
\<close>

section \<open>The wiring\<close>

record 'w surroundings =
  su_clock :: "'w \<Rightarrow> u32 \<times> 'w"
  su_delay :: "u32 \<Rightarrow> 'w \<Rightarrow> 'w"
  su_reason :: "'w \<Rightarrow> CancelReason"
  su_reset :: "'w \<Rightarrow> 'w"

definition behind :: "('w \<Rightarrow> 'a \<times> 'w) \<Rightarrow> 'w voice \<Rightarrow> 'a \<times> 'w voice" where
  "behind f v = (let (a, w) = f (vb_world v) in (a, v\<lparr>vb_world := w\<rparr>))"

definition voice_player_ports :: "'w voice_bus \<Rightarrow> 'w surroundings \<Rightarrow> bool \<Rightarrow> 'w voice player_ports" where
  "voice_player_ports bus su face =
    \<lparr>has_sink = True, has_face = face, has_stage = True,
     sink_playing = (\<lambda>v. vb_direction v = AudioDirectionState_playing),
     sink_start = start_playback bus,
     sink_write = (\<lambda>xs. voice_write bus (Some xs)),
     clock = behind (su_clock su),
     token_cancelled = (\<lambda>v. cancelled (su_reason su (vb_world v)))\<rparr>"

definition voice_task_ports :: "'w voice_bus \<Rightarrow> 'w surroundings \<Rightarrow> bool \<Rightarrow> 'w voice task_ports" where
  "voice_task_ports bus su face =
    \<lparr>tk_player = voice_player_ports bus su face,
     source_start = start_capture bus Player.kSampleRate,
     source_read = voice_read bus True,
     source_stop = stop_capture bus,
     sink_stop = stop_playback bus,
     task_delay = (\<lambda>ms v. v\<lparr>vb_world := su_delay su ms (vb_world v)\<rparr>),
     cancel_reason = (\<lambda>v. su_reason su (vb_world v)),
     cancel_reset = (\<lambda>v. v\<lparr>vb_world := su_reset su (vb_world v)\<rparr>)\<rparr>"

definition gateway_behind :: "'w http_ports \<Rightarrow> 'w voice http_ports" where
  "gateway_behind http =
    \<lparr>http_init = (\<lambda>url. behind (http_init http url)),
     http_headers = (\<lambda>headers v. v\<lparr>vb_world := http_headers http headers (vb_world v)\<rparr>),
     http_open = (\<lambda>n. behind (http_open http n)),
     http_write = (\<lambda>bytes. behind (http_write http bytes)),
     http_fetch = behind (http_fetch http),
     http_status = (\<lambda>v. http_status http (vb_world v)),
     http_read = (\<lambda>n v. let (got, chunk, w) = http_read http n (vb_world v) in (got, chunk, v\<lparr>vb_world := w\<rparr>)),
     http_close = (\<lambda>v. v\<lparr>vb_world := http_close http (vb_world v)\<rparr>),
     http_eagain = http_eagain http\<rparr>"

section \<open>Nobody but the recording opens the microphone\<close>

definition microphone_off :: "'w voice \<Rightarrow> bool" where
  "microphone_off v \<longleftrightarrow> voice_wf v \<and> vb_direction v \<noteq> AudioDirectionState_capturing"

text \<open>As a measure, so that what is known of measures applies to it.\<close>

definition microphone_on :: "'w voice \<Rightarrow> nat" where
  "microphone_on v = (if microphone_off v then 0 else 1)"

lemma microphone_on_le: "(microphone_off v \<Longrightarrow> microphone_off v') \<Longrightarrow> microphone_on v' \<le> microphone_on v"
  by (auto simp: microphone_on_def)

lemma microphone_off_le: "microphone_on v' \<le> microphone_on v \<Longrightarrow> microphone_off v \<Longrightarrow> microphone_off v'"
  by (simp add: microphone_on_def split: if_splits)

lemma microphone_off_world [simp]: "microphone_off (v\<lparr>vb_world := w\<rparr>) = microphone_off v"
  "microphone_on (v\<lparr>vb_world := w\<rparr>) = microphone_on v"
  by (simp_all add: microphone_off_def microphone_on_def)

lemma behind_off [simp]: "microphone_on (snd (behind f v)) = microphone_on v"
  by (simp add: behind_def split: prod.split)

lemma playback_keeps_off:
  assumes "microphone_off v"
  shows "microphone_off (snd (start_playback bus rate v))"
proof -
  obtain ok v' where s: "start_playback bus rate v = (ok, v')" by fastforce
  have "start_outcome AudioDirectionState_playing v ok v'"
    using start_playback_outcome [OF _ s] assms by (simp add: microphone_off_def)
  then show ?thesis using s assms by (auto simp: start_outcome_def microphone_off_def split: if_splits)
qed

lemma write_keeps_off: "microphone_off v \<Longrightarrow> microphone_off (snd (voice_write bus samples d now v))"
  by (simp add: microphone_off_def voice_write_wf)

lemma player_keeps_off: "never_raises microphone_on (voice_player_ports bus su face)"
  by (auto simp: never_raises_def voice_player_ports_def intro!: microphone_on_le playback_keeps_off write_keeps_off)

lemma gateway_keeps_off: "http_calm microphone_on (gateway_behind http)"
  by (simp add: http_calm_def sending_calm_def gateway_behind_def split: prod.split)

lemma exchange_keeps_off:
  assumes "microphone_off (ct_world t)"
    and "exchange fuel (voice_task_ports bus su face) (gateway_behind http) names spoken captured t = Some t'"
  shows "microphone_off (ct_world t')"
proof -
  let ?ports = "voice_player_ports bus su face"
  let ?ids = "case ct_ids t of None \<Rightarrow> id_generator (dn_boot names) | Some g \<Rightarrow> g"
  let ?player = "(reset_audio_counters (ct_player t))\<lparr>pl_speaking_phase := False\<rparr>"
  let ?s = "\<lparr>ss_turn = conversation_turn, ss_player = ?player\<rparr>"
  obtain id g where ids: "next_id ?ids = (id, g)" by fastforce
  let ?request = "\<lparr>rq_pcm = (if spoken = [] then Some (sample_bytes captured) else None), rq_text = spoken,
    rq_conversation_id = id_text id\<rparr>"
  let ?headers = "request_headers (dn_token names) (dn_device names) (boot_text (dn_boot names)) (id_text id) (spoken \<noteq> [])"
  have tk: "tk_player (voice_task_ports bus su face) = ?ports" by (simp add: voice_task_ports_def)
  obtain ok s where r: "converse fuel (gateway_behind http) ?ports (dn_url names) ?headers ?request ?s = Some (ok, s)"
    and t': "ct_world t' = ss_world s"
    using assms(2) by (auto simp: exchange_def Let_def ids tk ct_world_def ss_world_def count_outcome_def
        split: option.splits prod.splits Outcome.splits)
  have "microphone_on (ss_world s) \<le> microphone_on (ss_world ?s)"
    by (rule converse_measure [OF player_keeps_off gateway_keeps_off r])
  moreover have "ss_world ?s = ct_world t" by (simp add: ss_world_def ct_world_def reset_audio_counters_def)
  ultimately show ?thesis using assms(1) t' microphone_off_le by metis
qed

section \<open>A recording closes the microphone\<close>

lemma record_loop_wf:
  "record_loop fuel (voice_task_ports bus su face) overall captured v = Some (got, v') \<Longrightarrow> voice_wf v \<Longrightarrow> voice_wf v'"
proof (induction fuel arbitrary: captured v)
  case (Suc fuel)
  let ?ports = "voice_task_ports bus su face"
  let ?want = "if kCaptureSamples - length captured < kCaptureSlice then kCaptureSamples - length captured else kCaptureSlice"
  obtain t v1 where c: "clock (tk_player ?ports) v = (t, v1)" by fastforce
  obtain more v2 where r: "source_read ?ports ?want (earlier_of overall (after t 300) t) t v1 = (more, v2)" by fastforce
  have v1: "voice_wf v1"
    using c Suc.prems(2) by (auto simp: voice_task_ports_def voice_player_ports_def behind_def split: prod.splits)
  have "v2 = snd (voice_read bus True ?want (earlier_of overall (after t 300) t) t v1)"
    using r by (simp add: voice_task_ports_def)
  then have "voice_wf v2" using voice_read_wf(1) [OF v1] by simp
  then show ?case
    using Suc.prems Suc.IH [of "captured @ more" v2] c r v1
    by (simp add: Let_def split: if_splits del: capture_constants)
qed simp

lemma stop_playback_off:
  assumes "microphone_off v"
  shows "microphone_off (stop_playback bus v)"
proof -
  have "vb_direction (stop_playback bus v) \<in> {vb_direction v, AudioDirectionState_idle}"
    by (auto simp: stop_playback_def Let_def)
  then show ?thesis using assms stop_playback_stops(1) [of v bus] by (auto simp: microphone_off_def)
qed

lemma record_utterance_off:
  assumes "microphone_off v" and "record_utterance fuel (voice_task_ports bus su face) v = Some (got, v')"
  shows "microphone_off v'"
proof -
  let ?ports = "voice_task_ports bus su face"
  let ?v = "if sink_playing (tk_player ?ports) v then sink_stop ?ports v else v"
  have off: "microphone_off ?v" using assms(1) by (simp add: voice_task_ports_def stop_playback_off)
  then have wf: "voice_wf ?v" by (simp only: microphone_off_def)
  obtain ready v1 where r: "source_start ?ports ?v = (ready, v1)" by fastforce
  have o: "start_outcome AudioDirectionState_capturing ?v ready v1"
    using r by (intro start_capture_outcome [OF wf]) (simp add: voice_task_ports_def)
  obtain started v2 where c: "clock (tk_player ?ports) v1 = (started, v2)" by fastforce
  have v2: "voice_wf v2"
    using c o by (auto simp: start_outcome_def voice_task_ports_def voice_player_ports_def behind_def split: prod.splits)
  show ?thesis
  proof (cases ready)
    case True
    then obtain u where "record_loop fuel ?ports (after started (kListenMs + 1000)) [] v2 = Some (got, u)"
      "v' = source_stop ?ports u"
      using assms(2) r c by (auto simp: record_utterance_def Let_def split: option.splits)
    then show ?thesis
      using record_loop_wf [OF _ v2] stop_capture_stops [of u bus]
      by (simp add: microphone_off_def voice_task_ports_def)
  next
    case False
    then have "v' = v1" using assms(2) r by (simp add: record_utterance_def Let_def)
    then show ?thesis using False o off by (simp add: microphone_off_def start_outcome_def)
  qed
qed

section \<open>Winding down\<close>

lemma wind_down_idle:
  assumes "microphone_off (ct_world t)"
  shows "microphone_off (ct_world (wind_down (voice_task_ports bus su face) t)) \<and>
    vb_direction (ct_world (wind_down (voice_task_ports bus su face) t)) = AudioDirectionState_idle"
proof -
  let ?ports = "voice_task_ports bus su face"
  let ?idle = "\<lambda>v. microphone_off v \<and> vb_direction v = AudioDirectionState_idle"
  have stopped: "?idle (stop_playback bus v)" if "microphone_off v" for v
    using stop_playback_off [OF that, of bus] stop_playback_stops(2) [of v bus] that
    by (cases "vb_direction (stop_playback bus v)") (auto simp: microphone_off_def)
  have quiet: "?idle (ct_world t)" if "vb_direction (ct_world t) \<noteq> AudioDirectionState_playing"
    using assms that by (cases "vb_direction (ct_world t)") (auto simp: microphone_off_def)
  have stale: "?idle (ct_world (clear_stale ?ports q))" if "?idle (ct_world q)" for q
    using that by (simp add: clear_stale_def at_world_def ct_world_def voice_task_ports_def Let_def)
  obtain now v where c: "clock (tk_player ?ports) (ct_world t) = (now, v)" by fastforce
  have v: "microphone_off v"
    using c assms by (auto simp: voice_task_ports_def voice_player_ports_def behind_def split: prod.splits)
  define u where "u = (if sink_playing (tk_player ?ports) (ct_world t) then
      at_world (sink_stop ?ports (if 0 < remaining_ms now (pl_stager (ct_player t))
        then task_delay ?ports (remaining_ms now (pl_stager (ct_player t)) + 50) v else v)) t else t)"
  have u: "?idle (ct_world u)"
    using v quiet stopped [of v] stopped [of "v\<lparr>vb_world := w\<rparr>" for w]
    by (auto simp: u_def voice_task_ports_def voice_player_ports_def at_world_def ct_world_def)
  define q where "q = (if has_face (tk_player ?ports)
      then u\<lparr>ct_player := (ct_player u)\<lparr>pl_calls := pl_calls (ct_player u) @ [Face_talking False]\<rparr>\<rparr> else u)"
  have "?idle (ct_world q)" using u by (simp add: q_def ct_world_def)
  moreover have "ct_world (wind_down ?ports t) = ct_world (clear_stale ?ports q)"
    using c by (simp add: wind_down_def u_def q_def Let_def ct_world_def cong: if_cong)
  ultimately show ?thesis using stale [of q] by simp
qed

section \<open>Properties\<close>


text \<open>A turn of two letters on a device that is still playing a tone, stopped before it reaches the gateway.\<close>

definition working_bus :: "unit voice_bus" where
  "working_bus = quiet_bus\<lparr>i2s_new := (\<lambda>capture w. (True, w))\<rparr>"

definition playing_voice :: "unit voice" where
  "playing_voice = fold (voice_step working_bus) [Voice_begin, Start_playback 16000] (voice_new ())"

definition still_surroundings :: "unit surroundings" where
  "still_surroundings =
    \<lparr>su_clock = (\<lambda>w. (0, w)), su_delay = (\<lambda>ms w. w), su_reason = (\<lambda>w. CancelReason_emergency_stop), su_reset = (\<lambda>w. w)\<rparr>"

definition absent_gateway :: "unit http_ports" where
  "absent_gateway =
    \<lparr>http_init = (\<lambda>url w. (False, w)), http_headers = (\<lambda>headers w. w), http_open = (\<lambda>n w. (False, w)),
     http_write = (\<lambda>bytes w. (-1, w)), http_fetch = (\<lambda>w. (-1, w)), http_status = (\<lambda>w. 0),
     http_read = (\<lambda>n w. (-1, [], w)), http_close = (\<lambda>w. w), http_eagain = 28679\<rparr>"

definition asked_task :: "unit voice conversation_task" where
  "asked_task =
    (conversation_task \<lparr>pl_stager = stager_new (Some [0, 0]) 2 240, pl_received = 0, pl_played = 0, pl_peak = 0,
       pl_speaking_phase = False, pl_calls = [], pl_world = playing_voice\<rparr>)\<lparr>ct_running := True, ct_spoken := ''hi''\<rparr>"

definition asked_turn :: "unit voice conversation_task option" where
  "asked_turn = run_one_turn 1 (voice_task_ports working_bus still_surroundings True) (gateway_behind absent_gateway)
    \<lparr>dn_url = [], dn_token = [], dn_device = [], dn_boot = boot_unset\<rparr> asked_task"


end
