(* ===== verification/Probe.thy ===== *)
theory Probe
  imports Prelude
begin

text \<open>
  \<open>stackchan_probe/hardware.cpp\<close>: what is attached, found once by asking every address of the two I2C
  buses. The bus driver is a parameter over a world; what is only logged is left out.
\<close>

section \<open>State\<close>

datatype i2c_line = Line_internal | Line_external

record 'w probe_bus =
  bus_open :: "i2c_line \<Rightarrow> 'w \<Rightarrow> bool \<times> 'w"
  bus_close :: "'w \<Rightarrow> 'w"
  bus_probe :: "u8 \<Rightarrow> 'w \<Rightarrow> bool \<times> 'w"
  bus_add :: "u8 \<Rightarrow> 'w \<Rightarrow> bool \<times> 'w"
  bus_remove :: "u8 \<Rightarrow> 'w \<Rightarrow> 'w"
  bus_register :: "u8 \<Rightarrow> u8 \<Rightarrow> 'w \<Rightarrow> u8 option \<times> 'w"

record hardware =
  internal_i2c_responded :: bool
  motion_sensor :: bool
  motion_sensor_address :: u8
  motion_sensor_identified :: bool
  external_bus_checked :: bool
  voice_base :: bool
  voice_base_address :: u8
  codec_identified :: bool
  internal_device_count :: u8
  external_device_count :: u8

definition hardware_none :: hardware where
  "hardware_none =
    \<lparr>internal_i2c_responded = False, motion_sensor = False, motion_sensor_address = 0,
     motion_sensor_identified = False, external_bus_checked = False, voice_base = False, voice_base_address = 0,
     codec_identified = False, internal_device_count = 0, external_device_count = 0\<rparr>"

text \<open>\<open>sc_found\<close> is the used part of the array of sixteen.\<close>

record bus_scan =
  sc_count :: u8
  sc_found :: "u8 list"
  sc_opened :: bool

definition bus_scan_none :: bus_scan where
  "bus_scan_none = \<lparr>sc_count = 0, sc_found = [], sc_opened = False\<rparr>"

record 'w prober =
  pb_hardware :: hardware
  pb_detected :: bool
  pb_internal :: bus_scan
  pb_external :: bus_scan
  pb_world :: 'w

definition prober :: "'w \<Rightarrow> 'w prober" where
  "prober w = \<lparr>pb_hardware = hardware_none, pb_detected = False, pb_internal = bus_scan_none,
     pb_external = bus_scan_none, pb_world = w\<rparr>"

definition kMotionSensorAddresses :: "u8 list" where
  "kMotionSensorAddresses = [0x68, 0x69]"

definition kFirstAddress :: nat where
  "kFirstAddress = 0x08"

definition kLastAddress :: nat where
  "kLastAddress = 0x77"

definition kFoundCapacity :: nat where
  "kFoundCapacity = 16"

section \<open>Asking\<close>

definition read_register :: "'w probe_bus \<Rightarrow> u8 \<Rightarrow> u8 \<Rightarrow> 'w \<Rightarrow> u8 option \<times> 'w" where
  "read_register bus address reg w =
    (let (added, w) = bus_add bus address w
     in if \<not> added then (None, w)
        else let (value, w) = bus_register bus address reg w in (value, bus_remove bus address w))"

definition scan_address :: "'w probe_bus \<Rightarrow> u8 \<Rightarrow> bus_scan \<times> 'w \<Rightarrow> bus_scan \<times> 'w" where
  "scan_address bus address state =
    (let (result, w) = state;
         (answered, w) = bus_probe bus address w
     in if \<not> answered then (result, w)
        else
          (let result = (if unat (sc_count result) < kFoundCapacity
                         then result\<lparr>sc_found := sc_found result @ [address]\<rparr> else result)
           in (result\<lparr>sc_count := sc_count result + 1\<rparr>, w)))"

definition scan_bus :: "'w probe_bus \<Rightarrow> i2c_line \<Rightarrow> 'w \<Rightarrow> bus_scan \<times> 'w" where
  "scan_bus bus line w =
    (let (opened, w) = bus_open bus line w
     in if \<not> opened then (bus_scan_none, w)
        else
          (let (result, w) = fold (scan_address bus) (map word_of_nat [kFirstAddress..<Suc kLastAddress])
                 (bus_scan_none\<lparr>sc_opened := True\<rparr>, w)
           in (result, bus_close bus w)))"

definition identify_internal :: "'w probe_bus \<Rightarrow> hardware \<Rightarrow> 'w \<Rightarrow> hardware \<times> 'w" where
  "identify_internal bus h w =
    (if \<not> motion_sensor h then (h, w)
     else
       (let (opened, w) = bus_open bus Line_internal w
        in if \<not> opened then (h, w)
           else
             (let (chip_id, w) = read_register bus (motion_sensor_address h) 0x00 w
              in (if chip_id = Some 0x24 then h\<lparr>motion_sensor_identified := True\<rparr> else h, bus_close bus w))))"

definition identify_address :: "'w probe_bus \<Rightarrow> u8 \<Rightarrow> hardware \<times> 'w \<Rightarrow> hardware \<times> 'w" where
  "identify_address bus address state =
    (let (h, w) = state;
         (id1, w) = read_register bus address 0xFD w
     in case id1 of
          None \<Rightarrow> (h, w)
        | Some a \<Rightarrow>
            (let (id2, w) = read_register bus address 0xFE w
             in (if a = 0x83 \<and> id2 = Some 0x11 then h\<lparr>codec_identified := True\<rparr> else h, w)))"

definition identify_external :: "'w probe_bus \<Rightarrow> bus_scan \<Rightarrow> hardware \<Rightarrow> 'w \<Rightarrow> hardware \<times> 'w" where
  "identify_external bus scan h w =
    (if \<not> sc_opened scan \<or> sc_count scan = 0 then (h, w)
     else
       (let (opened, w) = bus_open bus Line_external w
        in if \<not> opened then (h, w)
           else
             (let shown = (if unat (sc_count scan) < kFoundCapacity then unat (sc_count scan) else kFoundCapacity);
                  (h, w) = fold (identify_address bus) (take shown (sc_found scan)) (h, w)
              in (h, bus_close bus w))))"

section \<open>Detection\<close>

definition match_motion :: "u8 \<Rightarrow> hardware \<Rightarrow> hardware" where
  "match_motion address h =
    fold (\<lambda>candidate h. if address = candidate then h\<lparr>motion_sensor := True, motion_sensor_address := candidate\<rparr> else h)
      kMotionSensorAddresses h"

definition detect :: "'w probe_bus \<Rightarrow> 'w prober \<Rightarrow> hardware \<times> 'w prober" where
  "detect bus p =
    (if pb_detected p then (pb_hardware p, p)
     else
       (let (internal, w) = scan_bus bus Line_internal (pb_world p);
            h = (pb_hardware p)\<lparr>internal_i2c_responded := (0 < sc_count internal), internal_device_count := sc_count internal\<rparr>;
            h = fold match_motion (take (unat (sc_count internal)) (sc_found internal)) h;
            (h, w) = identify_internal bus h w;
            (external, w) = scan_bus bus Line_external w;
            (h, w) = identify_external bus external h w;
            h = h\<lparr>external_device_count := sc_count external, external_bus_checked := sc_opened external\<rparr>;
            h = (if 0 < sc_count external
                 then h\<lparr>voice_base := True, voice_base_address := sc_found external ! 0\<rparr> else h)
        in (h, \<lparr>pb_hardware = h, pb_detected = True, pb_internal = internal, pb_external = external, pb_world = w\<rparr>)))"

section \<open>A scan reports what answered\<close>

text \<open>The addresses of a list that answer, in order.\<close>

fun answering :: "'w probe_bus \<Rightarrow> u8 list \<Rightarrow> 'w \<Rightarrow> u8 list \<times> 'w" where
  "answering bus [] w = ([], w)"
| "answering bus (a # as) w =
    (let (answered, w) = bus_probe bus a w;
         (rest, w) = answering bus as w
     in (if answered then a # rest else rest, w))"

lemma answering_subset: "set (fst (answering bus as w)) \<subseteq> set as \<and> length (fst (answering bus as w)) \<le> length as"
proof (induction "as" arbitrary: w)
  case (Cons a "as")
  obtain answered w1 where p: "bus_probe bus a w = (answered, w1)" by fastforce
  show ?case using Cons [of w1] p by (auto simp: Let_def split_beta)
qed simp

text \<open>The count is that of the answers, and the array has the first sixteen of them.\<close>

definition reports :: "bus_scan \<Rightarrow> u8 list \<Rightarrow> bool" where
  "reports scan answers \<longleftrightarrow> unat (sc_count scan) = length answers \<and> sc_found scan = take kFoundCapacity answers"

lemma scan_address_reports:
  assumes "reports scan answers" and "length answers < 255"
    and "scan_address bus a (scan, w) = (scan', w')" and "bus_probe bus a w = (answered, w'')"
  shows "reports scan' (answers @ (if answered then [a] else []))" "w' = w''" "sc_opened scan' = sc_opened scan"
proof -
  have "unat (sc_count scan + 1) = unat (sc_count scan) + 1"
    using assms(1,2) by (simp add: reports_def unat_word_ariths(1))
  then show "reports scan' (answers @ (if answered then [a] else []))" "w' = w''" "sc_opened scan' = sc_opened scan"
    using assms by (auto simp: scan_address_def reports_def Let_def split: if_splits)
qed

lemma scan_addresses_report:
  "reports scan answers \<Longrightarrow> length answers + length as < 256 \<Longrightarrow>
   fold (scan_address bus) as (scan, w) = (scan', w') \<Longrightarrow>
   reports scan' (answers @ fst (answering bus as w)) \<and> w' = snd (answering bus as w) \<and> sc_opened scan' = sc_opened scan"
proof (induction "as" arbitrary: scan answers w)
  case (Cons a "as")
  obtain scan1 w1 where s: "scan_address bus a (scan, w) = (scan1, w1)" by fastforce
  obtain answered w2 where p: "bus_probe bus a w = (answered, w2)" by fastforce
  have "reports scan1 (answers @ (if answered then [a] else []))" "w1 = w2" "sc_opened scan1 = sc_opened scan"
    using scan_address_reports [OF Cons.prems(1) _ s p] Cons.prems(2) by simp_all
  with Cons.IH [of scan1 "answers @ (if answered then [a] else [])" w2] Cons.prems(2,3) s p
  show ?case by (cases answered) (simp_all add: Let_def split_beta)
qed simp

text \<open>The addresses asked.\<close>

definition asked :: "u8 list" where
  "asked = map word_of_nat [kFirstAddress..<Suc kLastAddress]"

lemma asked_facts: "length asked = 112" "a \<in> set asked \<Longrightarrow> 0x08 \<le> a \<and> a \<le> 0x77"
  by (auto simp: asked_def kFirstAddress_def kLastAddress_def word_le_nat_alt unsigned_of_nat take_bit_nat_eq_self)

lemma scan_bus_reports:
  assumes "scan_bus bus line w = (scan, w')"
  shows "\<exists>answers. reports scan answers \<and> set answers \<subseteq> set asked \<and> (\<not> sc_opened scan \<longrightarrow> answers = [])"
proof -
  obtain opened w1 where o: "bus_open bus line w = (opened, w1)" by fastforce
  show ?thesis
  proof (cases opened)
    case False
    then have "scan = bus_scan_none" using assms o by (simp add: scan_bus_def)
    then show ?thesis by (intro exI [of _ "[]"]) (simp add: reports_def bus_scan_none_def)
  next
    case True
    let ?new = "bus_scan_none\<lparr>sc_opened := True\<rparr>"
    obtain scan' w2 where f: "fold (scan_address bus) asked (?new, w1) = (scan', w2)" by fastforce
    have "scan' = scan" using assms o f True by (simp add: scan_bus_def asked_def)
    moreover have "reports ?new []" by (simp add: reports_def bus_scan_none_def)
    moreover have "sc_opened ?new" by simp
    ultimately have "reports scan (fst (answering bus asked w1)) \<and> sc_opened scan"
      using scan_addresses_report [OF _ _ f, of "[]"] by (simp add: asked_facts)
    then show ?thesis using answering_subset [of bus asked w1] by blast
  qed
qed

section \<open>What identification adds\<close>

lemma identify_internal_adds:
  assumes "identify_internal bus h w = (h', w')"
  shows "h' = h \<or> (motion_sensor h \<and> h' = h\<lparr>motion_sensor_identified := True\<rparr>)"
  using assms by (auto simp: identify_internal_def Let_def split: if_splits prod.splits)

lemma identify_addresses_add:
  "h' = h \<or> h' = h\<lparr>codec_identified := True\<rparr>" if "fold (identify_address bus) as (h, w) = (h', w')"
  using that
proof (induction "as" arbitrary: h w)
  case (Cons a "as")
  obtain h1 w1 where i: "identify_address bus a (h, w) = (h1, w1)" by fastforce
  have "h1 = h \<or> h1 = h\<lparr>codec_identified := True\<rparr>"
    using i by (auto simp: identify_address_def Let_def split: prod.splits option.splits if_splits)
  moreover have "h' = h1 \<or> h' = h1\<lparr>codec_identified := True\<rparr>" using Cons.IH [of h1 w1] Cons.prems i by simp
  ultimately show ?case by auto
qed simp

lemma identify_external_adds:
  assumes "identify_external bus scan h w = (h', w')"
  shows "h' = h \<or> (sc_opened scan \<and> 0 < sc_count scan \<and> h' = h\<lparr>codec_identified := True\<rparr>)"
proof (cases "sc_opened scan \<and> sc_count scan \<noteq> 0")
  case True
  obtain opened w1 where o: "bus_open bus Line_external w = (opened, w1)" by fastforce
  let ?shown = "take (if unat (sc_count scan) < kFoundCapacity then unat (sc_count scan) else kFoundCapacity) (sc_found scan)"
  obtain h2 w2 where f: "fold (identify_address bus) ?shown (h, w1) = (h2, w2)" by fastforce
  show ?thesis
    using assms True o f identify_addresses_add [OF f]
    by (cases opened) (auto simp: identify_external_def Let_def word_greater_zero_iff split del: if_split)
qed (use assms in \<open>auto simp: identify_external_def\<close>)

text \<open>The sensor's address is the last of those found that is one of its two.\<close>

lemma match_motion_all:
  "fold match_motion as h = h' \<Longrightarrow>
    (motion_sensor h' \<longleftrightarrow> motion_sensor h \<or> set as \<inter> {0x68, 0x69} \<noteq> {}) \<and>
    (motion_sensor_address h' = motion_sensor_address h \<and> set as \<inter> {0x68, 0x69} = {} \<or>
     motion_sensor_address h' \<in> set as \<inter> {0x68, 0x69}) \<and>
    h' = h\<lparr>motion_sensor := motion_sensor h', motion_sensor_address := motion_sensor_address h'\<rparr>"
proof (induction "as" arbitrary: h)
  case (Cons a "as")
  have m: "match_motion a h =
      (if a \<in> {0x68, 0x69} then h\<lparr>motion_sensor := True, motion_sensor_address := a\<rparr> else h)"
    by (auto simp: match_motion_def kMotionSensorAddresses_def)
  from Cons.IH [of "match_motion a h"] Cons.prems show ?case by (auto simp: m split: if_splits)
qed simp

section \<open>Properties\<close>


text \<open>A device with a motion sensor that is another chip, and a codec behind an unreadable second address.\<close>

definition demo_probe_bus :: "i2c_line probe_bus" where
  "demo_probe_bus =
    \<lparr>bus_open = (\<lambda>line w. (True, line)), bus_close = (\<lambda>w. w),
     bus_probe = (\<lambda>a w. (a = 0x18 \<and> w = Line_external \<or> a = 0x69, w)), bus_add = (\<lambda>a w. (True, w)),
     bus_remove = (\<lambda>a w. w),
     bus_register = (\<lambda>a r w. (if a \<noteq> 0x18 then None else if r = 0xFD then Some 0x83 else Some 0x11, w))\<rparr>"


end
