(* ===== verification/Face.thy ===== *)
theory Face
  imports Prelude Protocol
begin

unbundle bit_operations_syntax

text \<open>
  \<open>stackchan_display/m5gfx_face.cpp\<close>: what is on the screen and how the face moves. The geometry, in
  floating point, and the drawing library are not modelled: a frame is recorded as the state it is
  drawn from. The gaze is kept as the thousandths the code divides, from 0 to 2000, and the mouth as
  the time within its cycle.
\<close>

section \<open>State\<close>

datatype screen_mode = Mode_face | Mode_message | Mode_pairing

record frame =
  fr_expression :: Expression
  fr_eye_open :: bool
  fr_gaze :: "u32 \<times> u32"
  fr_breath_step :: u8
  fr_mouth :: "u32 option"

datatype drawing =
    Drew_frame frame
  | Drew_message string nat
  | Drew_pairing string string string

record face =
  fc_available :: bool
  fc_canvas :: bool
  fc_width :: nat
  fc_expression :: Expression
  fc_talking :: bool
  fc_mode :: screen_mode
  fc_last_frame_ms :: u32
  fc_next_blink_ms :: u32
  fc_eye_open :: bool
  fc_next_saccade_ms :: u32
  fc_gaze :: "u32 \<times> u32"
  fc_breath_step :: u8
  fc_mouth :: "u32 option"
  fc_rand_state :: u32
  fc_drawn :: "drawing list"

definition face_new :: face where
  "face_new =
    \<lparr>fc_available = False, fc_canvas = False, fc_width = 0, fc_expression = Expression_neutral,
     fc_talking = False, fc_mode = Mode_face, fc_last_frame_ms = 0, fc_next_blink_ms = 0, fc_eye_open = True,
     fc_next_saccade_ms = 0, fc_gaze = (1000, 1000), fc_breath_step = 0, fc_mouth = None,
     fc_rand_state = 0x5EED1234, fc_drawn = []\<rparr>"

definition kFrameMs :: u32 where
  "kFrameMs = 33"

definition kBreathSteps :: nat where
  "kBreathSteps = 100"

text \<open>Whether the lock and the panel are there and the canvas could be allocated are arguments.\<close>

definition face_begin :: "bool \<Rightarrow> bool \<Rightarrow> nat \<Rightarrow> face \<Rightarrow> bool \<times> face" where
  "face_begin panel canvas pixels f =
    (let f = f\<lparr>fc_available := panel\<rparr>
     in if \<not> panel then (False, f) else (True, f\<lparr>fc_width := pixels, fc_canvas := canvas\<rparr>))"

section \<open>Frames\<close>

definition next_random :: "face \<Rightarrow> u32 \<times> face" where
  "next_random f =
    (let x = fc_rand_state f;
         x = x XOR push_bit 13 x;
         x = x XOR drop_bit 17 x;
         x = x XOR push_bit 5 x
     in (x, f\<lparr>fc_rand_state := x\<rparr>))"

definition blink :: "u32 \<Rightarrow> face \<Rightarrow> face" where
  "blink now f =
    (if now \<ge> fc_next_blink_ms f then
       (let f = f\<lparr>fc_eye_open := \<not> fc_eye_open f\<rparr>;
            (r, f) = next_random f
        in f\<lparr>fc_next_blink_ms := now + (if fc_eye_open f then 2500 + 100 * (r mod 20) else 300 + 10 * (r mod 20))\<rparr>)
     else f)"

definition saccade :: "u32 \<Rightarrow> face \<Rightarrow> face" where
  "saccade now f =
    (if now \<ge> fc_next_saccade_ms f then
       (let (h, f) = next_random f;
            (v, f) = next_random f;
            f = f\<lparr>fc_gaze := (h mod 2001, v mod 2001)\<rparr>;
            (r, f) = next_random f
        in f\<lparr>fc_next_saccade_ms := now + 500 + 100 * (r mod 20)\<rparr>)
     else f)"

definition draw_face :: "face \<Rightarrow> face" where
  "draw_face f =
    (if \<not> fc_canvas f then f
     else if fc_mode f \<noteq> Mode_face then f
     else f\<lparr>fc_drawn := fc_drawn f @ [Drew_frame \<lparr>fr_expression = fc_expression f, fr_eye_open = fc_eye_open f,
            fr_gaze = fc_gaze f, fr_breath_step = fc_breath_step f, fr_mouth = fc_mouth f\<rparr>]\<rparr>)"

definition face_tick :: "u32 \<Rightarrow> face \<Rightarrow> face" where
  "face_tick now f =
    (if \<not> fc_available f \<or> fc_mode f \<noteq> Mode_face then f
     else if now - fc_last_frame_ms f < kFrameMs then f
     else
       (let f = f\<lparr>fc_last_frame_ms := now\<rparr>;
            f = (if fc_next_blink_ms f = 0 then f\<lparr>fc_next_blink_ms := now + 2500\<rparr> else f);
            f = blink now f;
            f = saccade now f;
            f = f\<lparr>fc_breath_step := word_of_nat ((unat (fc_breath_step f) + 1) mod kBreathSteps)\<rparr>;
            f = f\<lparr>fc_mouth := (if fc_talking f then Some (now mod 400) else None)\<rparr>
        in draw_face f))"

section \<open>Screens\<close>

definition face_show :: "Expression \<Rightarrow> face \<Rightarrow> face" where
  "face_show e f = f\<lparr>fc_expression := e, fc_mode := Mode_face\<rparr>"

definition set_talking :: "bool \<Rightarrow> face \<Rightarrow> face" where
  "set_talking talking f = f\<lparr>fc_talking := talking\<rparr>"

text \<open>The loop of \<open>show_message\<close>: the largest size, from \<open>size\<close> down, at which the text fits.\<close>

fun text_size :: "nat \<Rightarrow> int \<Rightarrow> nat \<Rightarrow> nat" where
  "text_size chars usable sz =
    (if sz > 1 \<and> int chars * 6 * int sz > usable then text_size chars usable (sz - 1) else sz)"

declare text_size.simps [simp del]

definition show_message :: "string \<Rightarrow> face \<Rightarrow> face" where
  "show_message text_shown f =
    (if \<not> fc_available f then f
     else
       (let f = f\<lparr>fc_mode := Mode_message\<rparr>
        in f\<lparr>fc_drawn := fc_drawn f @ [Drew_message text_shown (text_size (length text_shown) (int (fc_width f) - 8) 4)]\<rparr>))"

definition show_pairing :: "string \<Rightarrow> string \<Rightarrow> string \<Rightarrow> face \<Rightarrow> face" where
  "show_pairing ssid password url f =
    (if \<not> fc_available f then f
     else
       (let f = f\<lparr>fc_mode := Mode_pairing\<rparr>
        in f\<lparr>fc_drawn := fc_drawn f @ [Drew_pairing ssid password url]\<rparr>))"

section \<open>The generator never gets stuck\<close>

lemma shift_left_fixed:
  fixes x :: "'a::len word"
  assumes "x = push_bit n x" and "0 < n"
  shows "x = 0"
proof (rule bit_word_eqI)
  fix k
  assume "k < LENGTH('a)"
  have "\<not> bit x k" for k
  proof (induction k rule: less_induct)
    case (less k)
    have "bit x k \<Longrightarrow> n \<le> k \<and> bit x (k - n)" using assms(1) by (metis bit_push_bit_iff)
    then show ?case using less [of "k - n"] assms(2) by auto
  qed
  then show "bit x k = bit 0 k" by simp
qed

lemma shift_right_fixed:
  fixes x :: "'a::len word"
  assumes "x = drop_bit n x" and "0 < n"
  shows "x = 0"
proof (rule bit_word_eqI)
  fix k
  assume "k < LENGTH('a)"
  have up: "bit x k \<Longrightarrow> bit x (k + n * m)" for m k
  proof (induction m)
    case (Suc m)
    then have "bit (drop_bit n x) (k + n * m)" using assms(1) by simp
    then show ?case by (simp add: bit_drop_bit_eq algebra_simps)
  qed simp
  have "\<not> bit x k" for k
  proof
    assume "bit x k"
    then have "bit x (k + n * LENGTH('a))" by (rule up)
    then have "k + n * LENGTH('a) < LENGTH('a)" by (rule bit_imp_le_length)
    then show False using assms(2) by (cases n) simp_all
  qed
  then show "bit x k = bit 0 k" by simp
qed

lemma next_random_nonzero:
  assumes "fc_rand_state f \<noteq> 0"
  shows "fst (next_random f) \<noteq> 0" "fc_rand_state (snd (next_random f)) \<noteq> 0"
proof -
  have left: "x XOR push_bit n x \<noteq> 0" if "x \<noteq> 0" "0 < n" for x :: u32 and n
    using shift_left_fixed [of x n] that by (auto simp: xor_zero_iff)
  have right: "x XOR drop_bit n x \<noteq> 0" if "x \<noteq> 0" "0 < n" for x :: u32 and n
    using shift_right_fixed [of x n] that by (auto simp: xor_zero_iff)
  let ?x1 = "fc_rand_state f XOR push_bit 13 (fc_rand_state f)"
  let ?x2 = "?x1 XOR drop_bit 17 ?x1"
  let ?x3 = "?x2 XOR push_bit 5 ?x2"
  have "?x3 \<noteq> 0" by (intro left right assms) simp_all
  moreover have "next_random f = (?x3, f\<lparr>fc_rand_state := ?x3\<rparr>)" unfolding next_random_def Let_def ..
  moreover have "fc_rand_state (f\<lparr>fc_rand_state := z\<rparr>) = z" for z by simp
  ultimately show "fst (next_random f) \<noteq> 0" "fc_rand_state (snd (next_random f)) \<noteq> 0" by (metis fst_conv snd_conv)+
qed

section \<open>Blinks and frames\<close>

lemma next_random_frame [simp]:
  "fc_next_blink_ms (snd (next_random f)) = fc_next_blink_ms f" "fc_eye_open (snd (next_random f)) = fc_eye_open f"
  "fc_mode (snd (next_random f)) = fc_mode f" "fc_available (snd (next_random f)) = fc_available f"
  "fc_canvas (snd (next_random f)) = fc_canvas f" "fc_drawn (snd (next_random f)) = fc_drawn f"
  "fc_expression (snd (next_random f)) = fc_expression f"
  by (simp_all add: next_random_def Let_def)

lemma saccade_cases:
  obtains "saccade now f = f"
  | g gaze at_ms where "saccade now f = g\<lparr>fc_next_saccade_ms := at_ms\<rparr>"
    and "g = snd (next_random ((snd (next_random (snd (next_random f))))\<lparr>fc_gaze := gaze\<rparr>))"
proof (cases "now \<ge> fc_next_saccade_ms f")
  case True
  obtain h f1 where 1: "next_random f = (h, f1)" by fastforce
  obtain v f2 where 2: "next_random f1 = (v, f2)" by fastforce
  obtain r f3 where 3: "next_random (f2\<lparr>fc_gaze := (h mod 2001, v mod 2001)\<rparr>) = (r, f3)" by fastforce
  show ?thesis
    by (rule that(2) [where g = f3 and at_ms = "now + 500 + 100 * (r mod 20)" and gaze = "(h mod 2001, v mod 2001)"])
      (use True 1 2 3 in \<open>simp_all add: saccade_def\<close>)
next
  case False
  then show ?thesis using that(1) by (simp add: saccade_def)
qed

lemma saccade_frame [simp]:
  "fc_next_blink_ms (saccade now f) = fc_next_blink_ms f" "fc_eye_open (saccade now f) = fc_eye_open f"
  "fc_mode (saccade now f) = fc_mode f" "fc_available (saccade now f) = fc_available f"
  "fc_canvas (saccade now f) = fc_canvas f" "fc_drawn (saccade now f) = fc_drawn f"
  "fc_expression (saccade now f) = fc_expression f"
  by (rule saccade_cases [of now f]; simp)+

lemma blink_cases:
  obtains "blink now f = f"
  | at_ms where "blink now f = (snd (next_random (f\<lparr>fc_eye_open := \<not> fc_eye_open f\<rparr>)))\<lparr>fc_next_blink_ms := at_ms\<rparr>"
proof (cases "now \<ge> fc_next_blink_ms f")
  case True
  obtain r g where "next_random (f\<lparr>fc_eye_open := \<not> fc_eye_open f\<rparr>) = (r, g)" by fastforce
  then show ?thesis
    by (intro that(2) [of "now + (if fc_eye_open g then 2500 + 100 * (r mod 20) else 300 + 10 * (r mod 20))"])
      (use True in \<open>simp add: blink_def\<close>)
next
  case False
  then show ?thesis using that(1) by (simp add: blink_def)
qed

lemma blink_frame [simp]:
  "fc_mode (blink now f) = fc_mode f" "fc_available (blink now f) = fc_available f" "fc_canvas (blink now f) = fc_canvas f"
  "fc_drawn (blink now f) = fc_drawn f" "fc_expression (blink now f) = fc_expression f"
  by (rule blink_cases [of now f]; simp)+

lemma draw_face_frame [simp]:
  "fc_next_blink_ms (draw_face f) = fc_next_blink_ms f" "fc_eye_open (draw_face f) = fc_eye_open f"
  "fc_mode (draw_face f) = fc_mode f" "fc_available (draw_face f) = fc_available f"
  "fc_expression (draw_face f) = fc_expression f"
  by (simp_all add: draw_face_def)

lemma face_tick_frame [simp]:
  "fc_mode (face_tick now f) = fc_mode f" "fc_available (face_tick now f) = fc_available f"
  "fc_expression (face_tick now f) = fc_expression f"
  by (simp_all add: face_tick_def Let_def)

text \<open>Nothing is drawn over a text screen, and a frame shows the expression that is current.\<close>

lemma frames_only_over_the_face:
  "fc_mode f \<noteq> Mode_face \<Longrightarrow> face_tick now f = f"
  by (simp add: face_tick_def)

lemma tick_draws:
  "fc_drawn (face_tick now f) = fc_drawn f \<or>
    (\<exists>fr. fc_drawn (face_tick now f) = fc_drawn f @ [Drew_frame fr] \<and> fr_expression fr = fc_expression f)"
  by (simp add: face_tick_def draw_face_def Let_def)

text \<open>When the eyes change, the next change is 2.5 to 4.4 s away if they opened, 0.3 to 0.49 s if they closed.\<close>

lemma blink_interval:
  assumes "fc_next_blink_ms f \<le> now"
  shows "\<exists>d. fc_next_blink_ms (blink now f) = now + d \<and>
    (if fc_eye_open (blink now f) then 2500 \<le> d \<and> d \<le> 4400 else 300 \<le> d \<and> d \<le> 490) \<and>
    fc_eye_open (blink now f) = (\<not> fc_eye_open f)"
proof -
  obtain r g where r: "next_random (f\<lparr>fc_eye_open := \<not> fc_eye_open f\<rparr>) = (r, g)" by fastforce
  have g: "fc_eye_open g = (\<not> fc_eye_open f)"
    using next_random_frame(2) [of "f\<lparr>fc_eye_open := \<not> fc_eye_open f\<rparr>"] r by simp
  have small: "unat (r mod 20) \<le> 19" by (simp add: unat_mod) 
  have "unat (2500 + 100 * (r mod 20)) = 2500 + 100 * unat (r mod 20)"
    "unat (300 + 10 * (r mod 20)) = 300 + 10 * unat (r mod 20)"
    using small by (simp_all add: unat_word_ariths)
  then have "2500 \<le> 2500 + 100 * (r mod 20)" "2500 + 100 * (r mod 20) \<le> 4400"
    "300 \<le> 300 + 10 * (r mod 20)" "300 + 10 * (r mod 20) \<le> 490"
    using small by (simp_all add: word_le_nat_alt)
  then show ?thesis
    using assms r g by (simp add: blink_def Let_def)
qed

section \<open>Text\<close>

lemma text_size_step:
  "sz > 1 \<and> int chars * 6 * int sz > usable \<Longrightarrow> text_size chars usable sz = text_size chars usable (sz - 1)"
  "\<not> (sz > 1 \<and> int chars * 6 * int sz > usable) \<Longrightarrow> text_size chars usable sz = sz"
  by (auto simp: text_size.simps [of chars usable sz])

lemma text_size_range: "1 \<le> sz \<Longrightarrow> 1 \<le> text_size chars usable sz \<and> text_size chars usable sz \<le> sz"
proof (induction chars usable sz rule: text_size.induct)
  case (1 chars usable sz)
  then show ?case
    using text_size_step [of sz usable chars]
    by (cases "sz > 1 \<and> int chars * 6 * int sz > usable") (simp_all, linarith?)
qed

lemma text_size_fits:
  "1 \<le> sz \<Longrightarrow> text_size chars usable sz = 1 \<or> int chars * 6 * int (text_size chars usable sz) \<le> usable"
proof (induction chars usable sz rule: text_size.induct)
  case (1 chars usable sz)
  then show ?case
    using text_size_step [of sz usable chars]
    by (cases "sz > 1 \<and> int chars * 6 * int sz > usable") auto
qed

lemma text_size_largest:
  "text_size chars usable sz < k \<Longrightarrow> k \<le> sz \<Longrightarrow> int chars * 6 * int k > usable"
proof (induction chars usable sz rule: text_size.induct)
  case (1 chars usable sz)
  show ?case
  proof (cases "sz > 1 \<and> int chars * 6 * int sz > usable")
    case True
    then have t: "text_size chars usable sz = text_size chars usable (sz - 1)" by (rule text_size_step)
    show ?thesis
    proof (cases "k = sz")
      case False
      then show ?thesis using "1.IH" [OF True] "1.prems" t by simp
    qed (use True in simp)
  next
    case False
    then show ?thesis using "1.prems" text_size_step(2) by simp
  qed
qed

text \<open>A message is shown at the largest of the four sizes at which it fits, and at the smallest if none.\<close>

lemma message_size:
  assumes "fc_available f" and "usable = int (fc_width f) - 8"
  shows "\<exists>sz. fc_drawn (show_message words f) = fc_drawn f @ [Drew_message words sz] \<and> 1 \<le> sz \<and> sz \<le> 4 \<and>
    (sz = 1 \<or> int (length words) * 6 * int sz \<le> usable) \<and>
    (\<forall>k. sz < k \<and> k \<le> 4 \<longrightarrow> usable < int (length words) * 6 * int k)"
  using assms text_size_range [of 4] text_size_fits [of 4] text_size_largest
  by (intro exI [of _ "text_size (length words) usable 4"]) (auto simp: show_message_def Let_def)

section \<open>Properties\<close>

lemma blink_early: "now < fc_next_blink_ms f \<Longrightarrow> blink now f = f"
  by (simp add: blink_def not_le)

lemma face_tick_early:
  assumes "now < fc_next_blink_ms f"
  shows "fc_next_blink_ms (face_tick now f) = fc_next_blink_ms f \<and> fc_eye_open (face_tick now f) = fc_eye_open f"
proof -
  have "fc_next_blink_ms f \<noteq> 0" using assms by auto
  then show ?thesis
    using blink_early [of now "f\<lparr>fc_last_frame_ms := now\<rparr>"] assms by (simp add: face_tick_def Let_def)
qed

text \<open>The eyes wait for the counter to reach the value of the next blink, not for the time to pass: a
  blink that falls due before the counter wraps and was not drawn by then is not drawn until the counter
  comes round to it, however many frames are drawn in between.\<close>
theorem blink_waits_for_counter:
  assumes "list_all (\<lambda>now. now < fc_next_blink_ms f) moments"
  shows "fc_eye_open (fold face_tick moments f) = fc_eye_open f \<and>
    fc_next_blink_ms (fold face_tick moments f) = fc_next_blink_ms f"
  using assms
proof (induction moments arbitrary: f)
  case (Cons now moments)
  then show ?case using face_tick_early [of now f] by simp
qed simp

lemma blink_waits_for_counter_witness:
  "\<not> fc_eye_open (fold face_tick [4294967280, 17, 4000000000]
     (face_new\<lparr>fc_available := True, fc_canvas := True, fc_eye_open := False, fc_next_blink_ms := 4294967290\<rparr>))"
  using blink_waits_for_counter
    [of "face_new\<lparr>fc_available := True, fc_canvas := True, fc_eye_open := False, fc_next_blink_ms := 4294967290\<rparr>"
      "[4294967280, 17, 4000000000]"] by simp

end
