(* ===== verification/Presenter.thy ===== *)
theory Presenter
  imports Commands Wifi Voice_Base Probe Face Button
begin

text \<open>
  \<open>stackchan_ui/presenter.cpp\<close>: what the screen shows and what the button does. The presenter reaches
  the device the commands see, the Wi-Fi state, the screen, the detected hardware and, as the world of
  the conversation task, the voice base. Its lines on the serial port are data, because two of them
  disclose secrets.
\<close>

section \<open>State\<close>

text \<open>\<open>PresenterDeps\<close>, which pointers are there, with the buses and the waveform of a tone.\<close>

record ('v, 'p) presenter_deps =
  pd_voice :: bool
  pd_registry :: bool
  pd_screen_available :: bool
  pd_token :: bool
  pd_bus :: "'v voice_bus"
  pd_tone :: "u32 \<Rightarrow> sample list"
  pd_fade :: "u32 \<Rightarrow> bool \<Rightarrow> sample list"
  pd_probe :: "'p probe_bus"

datatype serial_line =
    Said_setup_key string string
  | Said_clicks u8
  | Said_start
  | Said_cannot_start string
  | Said_hardware hardware
  | Said_gateway_url string
  | Said_description string
  | Said_overflow nat
  | Said_cancelled
  | Said_held
  | Said_token string
  | Said_new_token string

record ('v, 'r, 'p) presenter =
  pr_device :: "'v voice device"
  pr_wifi :: "'r wifi"
  pr_face :: face
  pr_prober :: "'p prober"
  pr_serial :: "serial_line list"
  pr_notice_shown :: bool
  pr_notice_until_ms :: u32
  pr_last_phase :: ConversationPhase
  pr_was_connected :: bool
  pr_was_ap_up :: bool
  pr_tick_started :: bool

definition presenter_new ::
  "'v voice device \<Rightarrow> 'r wifi \<Rightarrow> face \<Rightarrow> 'p prober \<Rightarrow> ('v, 'r, 'p) presenter" where
  "presenter_new d net f detected =
    \<lparr>pr_device = d, pr_wifi = net, pr_face = f, pr_prober = detected, pr_serial = [],
     pr_notice_shown = False, pr_notice_until_ms = 0, pr_last_phase = ConversationPhase_idle,
     pr_was_connected = False, pr_was_ap_up = False, pr_tick_started = False\<rparr>"

definition kNoticeMs :: u32 where
  "kNoticeMs = 7000"

definition kGuideMs :: u32 where
  "kGuideMs = 6000"

definition kSetupUrl :: string where
  "kSetupUrl = ''192.168.4.1''"

text \<open>\<open>conversation::phase()\<close>.\<close>

definition phase_of :: "('v, 'r, 'p) presenter \<Rightarrow> ConversationPhase" where
  "phase_of p = task_phase (dv_task (pr_device p))"

definition say :: "serial_line \<Rightarrow> ('v, 'r, 'p) presenter \<Rightarrow> ('v, 'r, 'p) presenter" where
  "say line p = p\<lparr>pr_serial := pr_serial p @ [line]\<rparr>"

section \<open>The screens\<close>

definition present_face :: "('v, 'r, 'p) presenter \<Rightarrow> ('v, 'r, 'p) presenter" where
  "present_face p =
    p\<lparr>pr_notice_shown := False, pr_face := face_show (expression (dv_state (pr_device p))) (pr_face p)\<rparr>"

definition present_notice :: "string \<Rightarrow> u32 \<Rightarrow> u32 \<Rightarrow> ('v, 'r, 'p) presenter \<Rightarrow> ('v, 'r, 'p) presenter" where
  "present_notice words now for_ms p =
    p\<lparr>pr_face := show_message words (pr_face p), pr_notice_shown := True, pr_notice_until_ms := now + for_ms\<rparr>"

definition present_pairing :: "('v, 'p) presenter_deps \<Rightarrow> ('v, 'r, 'p) presenter \<Rightarrow> ('v, 'r, 'p) presenter" where
  "present_pairing deps p =
    (let net = pr_wifi p;
         p = p\<lparr>pr_face := show_pairing (wf_ap_ssid net) (wf_ap_password net) kSetupUrl (pr_face p)\<rparr>
     in if \<not> pd_screen_available deps then say (Said_setup_key (wf_ap_ssid net) (wf_ap_password net)) p else p)"

definition boot_screen :: "('v, 'p) presenter_deps \<Rightarrow> ('v, 'r, 'p) presenter \<Rightarrow> ('v, 'r, 'p) presenter" where
  "boot_screen deps p =
    (if \<not> has_credentials (pr_wifi p) \<and> wf_access_point_up (pr_wifi p) then present_pairing deps p
     else present_face p)"

definition presenter_tick ::
  "('v, 'p) presenter_deps \<Rightarrow> u32 \<Rightarrow> ('v, 'r, 'p) presenter \<Rightarrow> ('v, 'r, 'p) presenter" where
  "presenter_tick deps now p =
    (let p = (if pr_notice_shown p \<and> 0 \<le> sint (now - pr_notice_until_ms p) then present_face p else p);
         phase_now = phase_of p;
         p = (if phase_now = ConversationPhase_idle \<and> pr_last_phase p \<noteq> ConversationPhase_idle
              then present_face p else p);
         p = p\<lparr>pr_last_phase := phase_now\<rparr>;
         connected = (wf_phase (pr_wifi p) = NetworkPhase_connected);
         p = (if connected \<and> \<not> pr_was_connected p \<and> pr_tick_started p then present_face p else p);
         p = p\<lparr>pr_was_connected := connected\<rparr>;
         ap_up = wf_access_point_up (pr_wifi p);
         p = (if ap_up \<and> \<not> pr_was_ap_up p \<and> pr_tick_started p then present_pairing deps p else p)
     in p\<lparr>pr_was_ap_up := ap_up, pr_tick_started := True\<rparr>)"

section \<open>The button\<close>

text \<open>The tone acts on the voice base, the world of the conversation task.\<close>

definition beep ::
  "('v, 'p) presenter_deps \<Rightarrow> u32 \<Rightarrow> u32 \<Rightarrow> ('v, 'r, 'p) presenter \<Rightarrow> ('v, 'r, 'p) presenter" where
  "beep deps hz duration_ms p =
    (let d = pr_device p;
         voice = ct_world (dv_task d)
     in if \<not> pd_voice deps \<or> \<not> vb_available voice then p
        else if phase_of p \<noteq> ConversationPhase_idle then p
        else
          (let voice = snd (play_tone (pd_bus deps) (pd_tone deps hz) (pd_fade deps hz) duration_ms voice)
           in p\<lparr>pr_device := d\<lparr>dv_task := at_world voice (dv_task d)\<rparr>\<rparr>))"

definition kDescriptionBytes :: nat where
  "kDescriptionBytes = 1024"

definition log_description :: "('v, 'p) presenter_deps \<Rightarrow> ('v, 'r, 'p) presenter \<Rightarrow> ('v, 'r, 'p) presenter" where
  "log_description deps p =
    (if \<not> pd_registry deps then p
     else
       (let d = pr_device p;
            payload = write_device_description (dv_identity d) (dv_specs d) (dv_uptime_ms d)
                        (json_writer kDescriptionBytes)
        in if \<not> jw_valid payload then say (Said_overflow (jw_required payload)) p
           else say (Said_description (jw_text payload)) p))"

definition presenter_refresh :: "('v, 'r, 'p) presenter \<Rightarrow> ('v, 'r, 'p) presenter" where
  "presenter_refresh p =
    (let d = pr_device p;
         st = dv_state d;
         st = st\<lparr>estop := emergency (dv_cancel d)\<rparr>;
         st = st\<lparr>network_connected := wf_phase (pr_wifi p) = NetworkPhase_connected\<rparr>;
         st = st\<lparr>conversation := phase_of p\<rparr>;
         st = st\<lparr>audio_busy := conversation st \<noteq> ConversationPhase_idle\<rparr>;
         st = st\<lparr>gateway_configured := dv_gateway_url d \<noteq> []\<rparr>
     in p\<lparr>pr_device := d\<lparr>dv_state := st\<rparr>\<rparr>)"

text \<open>\<open>can_start_conversation() && request_start()\<close>.\<close>

definition try_start :: "('v, 'r, 'p) presenter \<Rightarrow> bool \<times> ('v, 'r, 'p) presenter" where
  "try_start p =
    (let d = pr_device p
     in if \<not> can_start_conversation (dv_state d) then (False, p)
        else let (started, task) = request_start [] (dv_task d) in (started, p\<lparr>pr_device := d\<lparr>dv_task := task\<rparr>\<rparr>))"

definition on_single_click ::
  "('v, 'p) presenter_deps \<Rightarrow> u32 \<Rightarrow> ('v, 'r, 'p) presenter \<Rightarrow> ('v, 'r, 'p) presenter" where
  "on_single_click deps now p =
    (let (started, p) = try_start (presenter_refresh p)
     in if started then say Said_start p
        else
          (let p = say (Said_cannot_start (why_cannot_start (dv_state (pr_device p)))) p;
               p = beep deps 500 100 p;
               st = dv_state (pr_device p)
           in if \<not> network_connected st \<and> wf_access_point_up (pr_wifi p) then
                (present_pairing deps p)\<lparr>pr_notice_shown := True, pr_notice_until_ms := now + kGuideMs\<rparr>
              else if \<not> network_connected st then present_notice ''NO WIFI'' now kNoticeMs p
              else if \<not> gateway_configured st then present_notice ''NO GATEWAY'' now kNoticeMs p
              else p))"

definition on_double_click ::
  "('v, 'p) presenter_deps \<Rightarrow> u32 \<Rightarrow> ('v, 'r, 'p) presenter \<Rightarrow> ('v, 'r, 'p) presenter" where
  "on_double_click deps now p =
    (let (h, prober) = detect (pd_probe deps) (pr_prober p);
         p = say (Said_hardware h) (p\<lparr>pr_prober := prober\<rparr>)
     in if codec_identified h \<and> motion_sensor_identified h then present_notice ''VOICE+IMU'' now kNoticeMs p
        else if codec_identified h then present_notice ''VOICE'' now kNoticeMs p
        else if motion_sensor_identified h then present_notice ''IMU'' now kNoticeMs p
        else beep deps 800 120 (present_notice ''NO SENSOR'' now kNoticeMs p))"

text \<open>The line is printed with the length of the address as its precision.\<close>

definition on_triple_click ::
  "('v, 'p) presenter_deps \<Rightarrow> u32 \<Rightarrow> ('v, 'r, 'p) presenter \<Rightarrow> ('v, 'r, 'p) presenter" where
  "on_triple_click deps now p =
    (let ip = wf_ip (pr_wifi p);
         p = present_notice (if ip \<noteq> [] then ip else ''NO IP'') now kNoticeMs p;
         p = beep deps 500 100 p;
         url = dv_gateway_url (pr_device p);
         p = say (Said_gateway_url (take (length url) (if url = [] then ''(not set)'' else url))) p
     in log_description deps p)"

definition on_hold :: "('v, 'p) presenter_deps \<Rightarrow> ('v, 'r, 'p) presenter \<Rightarrow> ('v, 'r, 'p) presenter" where
  "on_hold deps p =
    (let d = pr_device p
     in if phase_of p \<noteq> ConversationPhase_idle then
          say Said_cancelled (p\<lparr>pr_device := d\<lparr>dv_cancel := cancel CancelReason_requested (dv_cancel d)\<rparr>\<rparr>)
        else
          (let p = say Said_held p;
               p = log_description deps p;
               token = is_token (dv_secrets (pr_device p))
           in if pd_token deps \<and> token_set token then say (Said_token (token_text token)) p else p))"

definition presenter_handle ::
  "('v, 'p) presenter_deps \<Rightarrow> gesture \<Rightarrow> u32 \<Rightarrow> ('v, 'r, 'p) presenter \<Rightarrow> ('v, 'r, 'p) presenter" where
  "presenter_handle deps g now p =
    (case g_kind g of
       GestureKind_hold \<Rightarrow> on_hold deps p
     | GestureKind_clicks \<Rightarrow>
         (let p = say (Said_clicks (g_clicks g)) p
          in if g_clicks g = 1 then on_single_click deps now p
             else if g_clicks g = 2 then on_double_click deps now p
             else if g_clicks g = 3 then on_triple_click deps now p
             else p)
     | GestureKind_none \<Rightarrow> p)"

section \<open>What each part leaves alone\<close>

lemma say_frame [simp]:
  "pr_device (say x p) = pr_device p" "pr_wifi (say x p) = pr_wifi p" "pr_face (say x p) = pr_face p"
  "pr_serial (say x p) = pr_serial p @ [x]" "pr_notice_shown (say x p) = pr_notice_shown p"
  "pr_notice_until_ms (say x p) = pr_notice_until_ms p" "pr_last_phase (say x p) = pr_last_phase p"
  "pr_was_connected (say x p) = pr_was_connected p" "pr_was_ap_up (say x p) = pr_was_ap_up p"
  "pr_tick_started (say x p) = pr_tick_started p" "phase_of (say x p) = phase_of p"
  by (simp_all add: say_def phase_of_def)

lemma present_face_frame [simp]:
  "pr_device (present_face p) = pr_device p" "pr_wifi (present_face p) = pr_wifi p"
  "pr_serial (present_face p) = pr_serial p" "pr_last_phase (present_face p) = pr_last_phase p"
  "pr_was_connected (present_face p) = pr_was_connected p" "pr_was_ap_up (present_face p) = pr_was_ap_up p"
  "pr_tick_started (present_face p) = pr_tick_started p" "phase_of (present_face p) = phase_of p"
  "\<not> pr_notice_shown (present_face p)" "pr_notice_until_ms (present_face p) = pr_notice_until_ms p"
  by (simp_all add: present_face_def phase_of_def)

lemma present_notice_frame [simp]:
  "pr_device (present_notice x now ms p) = pr_device p" "pr_wifi (present_notice x now ms p) = pr_wifi p"
  "pr_serial (present_notice x now ms p) = pr_serial p" "pr_last_phase (present_notice x now ms p) = pr_last_phase p"
  "pr_was_connected (present_notice x now ms p) = pr_was_connected p"
  "pr_was_ap_up (present_notice x now ms p) = pr_was_ap_up p"
  "pr_tick_started (present_notice x now ms p) = pr_tick_started p" "phase_of (present_notice x now ms p) = phase_of p"
  "pr_notice_shown (present_notice x now ms p)" "pr_notice_until_ms (present_notice x now ms p) = now + ms"
  by (simp_all add: present_notice_def phase_of_def)

lemma present_pairing_frame [simp]:
  "pr_device (present_pairing deps p) = pr_device p" "pr_wifi (present_pairing deps p) = pr_wifi p"
  "pr_last_phase (present_pairing deps p) = pr_last_phase p"
  "pr_was_connected (present_pairing deps p) = pr_was_connected p"
  "pr_was_ap_up (present_pairing deps p) = pr_was_ap_up p"
  "pr_tick_started (present_pairing deps p) = pr_tick_started p" "phase_of (present_pairing deps p) = phase_of p"
  "pr_notice_shown (present_pairing deps p) = pr_notice_shown p"
  "pr_notice_until_ms (present_pairing deps p) = pr_notice_until_ms p"
  "pr_serial (present_pairing deps p) = pr_serial p @
     (if pd_screen_available deps then [] else [Said_setup_key (wf_ap_ssid (pr_wifi p)) (wf_ap_password (pr_wifi p))])"
  by (simp_all add: present_pairing_def phase_of_def Let_def)

lemma at_world_frame [simp]:
  "ct_phase (at_world w t) = ct_phase t" "ct_running (at_world w t) = ct_running t" "ct_world (at_world w t) = w"
  by (simp_all add: at_world_def ct_world_def)

lemma beep_frame [simp]:
  "pr_wifi (beep deps hz ms p) = pr_wifi p" "pr_serial (beep deps hz ms p) = pr_serial p"
  "phase_of (beep deps hz ms p) = phase_of p" "pr_face (beep deps hz ms p) = pr_face p"
  "dv_cancel (pr_device (beep deps hz ms p)) = dv_cancel (pr_device p)"
  "dv_state (pr_device (beep deps hz ms p)) = dv_state (pr_device p)"
  "dv_secrets (pr_device (beep deps hz ms p)) = dv_secrets (pr_device p)"
  "dv_gateway_url (pr_device (beep deps hz ms p)) = dv_gateway_url (pr_device p)"
  "ct_phase (dv_task (pr_device (beep deps hz ms p))) = ct_phase (dv_task (pr_device p))"
  by (simp_all add: beep_def Let_def phase_of_def task_phase_def)

lemma beep_silent [simp]: "phase_of p \<noteq> ConversationPhase_idle \<Longrightarrow> beep deps hz ms p = p"
  by (simp add: beep_def Let_def)

lemma log_description_frame [simp]:
  "pr_device (log_description deps p) = pr_device p" "pr_wifi (log_description deps p) = pr_wifi p"
  "phase_of (log_description deps p) = phase_of p" "pr_face (log_description deps p) = pr_face p"
  "pr_notice_shown (log_description deps p) = pr_notice_shown p"
  by (simp_all add: log_description_def Let_def)

lemma log_description_says:
  "x \<in> set (pr_serial (log_description deps p)) \<Longrightarrow>
   x \<in> set (pr_serial p) \<or> (\<exists>n. x = Said_overflow n) \<or> (\<exists>words. x = Said_description words)"
  by (auto simp: log_description_def Let_def split: if_splits)

lemma presenter_refresh_frame [simp]:
  "pr_wifi (presenter_refresh p) = pr_wifi p" "pr_serial (presenter_refresh p) = pr_serial p"
  "phase_of (presenter_refresh p) = phase_of p" "pr_face (presenter_refresh p) = pr_face p"
  "dv_cancel (pr_device (presenter_refresh p)) = dv_cancel (pr_device p)"
  "dv_task (pr_device (presenter_refresh p)) = dv_task (pr_device p)"
  "dv_secrets (pr_device (presenter_refresh p)) = dv_secrets (pr_device p)"
  "dv_gateway_url (pr_device (presenter_refresh p)) = dv_gateway_url (pr_device p)"
  by (simp_all add: presenter_refresh_def Let_def phase_of_def)

lemma presenter_refresh_can_start:
  "can_start_conversation (dv_state (pr_device (presenter_refresh p))) \<longleftrightarrow>
    \<not> emergency (dv_cancel (pr_device p)) \<and> phase_of p = ConversationPhase_idle \<and>
    wf_phase (pr_wifi p) = NetworkPhase_connected \<and> dv_gateway_url (pr_device p) \<noteq> []"
  by (auto simp: presenter_refresh_def can_start_conversation_def Let_def phase_of_def)

section \<open>Secrets\<close>

text \<open>What a line of the presenter may disclose when it is printed: a token only when the button is held
  while nothing is said, the passphrase only without a screen. A new token is announced by boot alone.\<close>

fun may_say :: "('v, 'p) presenter_deps \<Rightarrow> bool \<Rightarrow> ('v, 'r, 'p) presenter \<Rightarrow> serial_line \<Rightarrow> bool" where
  "may_say deps held p (Said_token s) \<longleftrightarrow>
     held \<and> phase_of p = ConversationPhase_idle \<and> s = token_text (is_token (dv_secrets (pr_device p)))"
| "may_say deps held p (Said_setup_key ssid key) \<longleftrightarrow>
     \<not> pd_screen_available deps \<and> ssid = wf_ap_ssid (pr_wifi p) \<and> key = wf_ap_password (pr_wifi p)"
| "may_say deps held p (Said_new_token s) \<longleftrightarrow> False"
| "may_say deps held p _ \<longleftrightarrow> True"

definition says :: "('v, 'p) presenter_deps \<Rightarrow> bool \<Rightarrow> ('v, 'r, 'p) presenter \<Rightarrow> ('v, 'r, 'p) presenter \<Rightarrow> bool" where
  "says deps held p p' \<longleftrightarrow> (\<forall>x\<in>set (pr_serial p'). x \<in> set (pr_serial p) \<or> may_say deps held p x)"

lemma says_refl: "says deps held p p"
  by (simp add: says_def)

lemma single_click_says: "says deps held p (on_single_click deps now p)"
proof -
  obtain started p1 where t: "try_start (presenter_refresh p) = (started, p1)" by fastforce
  have "pr_serial p1 = pr_serial p" "pr_wifi p1 = pr_wifi p"
    using t by (auto simp: try_start_def Let_def split: if_splits prod.splits)
  then show ?thesis by (auto simp: says_def on_single_click_def t Let_def split: if_splits)
qed

lemma double_click_says: "says deps held p (on_double_click deps now p)"
proof -
  obtain h prober where "detect (pd_probe deps) (pr_prober p) = (h, prober)" by fastforce
  then show ?thesis by (auto simp: says_def on_double_click_def Let_def split: if_splits)
qed

lemma triple_click_says: "says deps held p (on_triple_click deps now p)"
  by (auto simp: says_def on_triple_click_def Let_def dest!: log_description_says)

lemma hold_says: "says deps True p (on_hold deps p)"
  by (auto simp: says_def on_hold_def Let_def dest!: log_description_says split: if_splits)

lemma handle_says: "says deps (g_kind g = GestureKind_hold) p (presenter_handle deps g now p)"
proof (cases "g_kind g")
  case GestureKind_clicks
  have "says deps held p p'" if "says deps held (say (Said_clicks (g_clicks g)) p) p'" for held p'
  proof -
    have "may_say deps held (say (Said_clicks (g_clicks g)) p) x = may_say deps held p x" for x
      by (cases x) simp_all
    with that show ?thesis by (auto simp: says_def)
  qed
  note clicked = this [OF says_refl] this [OF single_click_says] this [OF double_click_says]
    this [OF triple_click_says]
  have if_says: "says deps False p (if b then x else y)" if "says deps False p x" "says deps False p y" for b x y
    using that by simp
  have "g_kind g = GestureKind_hold \<longleftrightarrow> False" by (simp add: GestureKind_clicks)
  then show ?thesis
    unfolding presenter_handle_def GestureKind_clicks GestureKind.case Let_def
    by (simp only:) (intro if_says clicked)
next
  case GestureKind_hold
  then show ?thesis using hold_says by (simp add: presenter_handle_def)
qed (simp add: presenter_handle_def says_def)

lemma boot_says: "says deps held p (boot_screen deps p)"
  by (auto simp: says_def boot_screen_def split: if_splits)

lemma tick_says: "says deps held p (presenter_tick deps now p)"
  by (auto simp: says_def presenter_tick_def Let_def split: if_splits)

text \<open>A run of the presenter, with anything the other tasks do to what it reaches in between.\<close>

datatype ('v, 'r) presenter_op =
    Op_boot
  | Op_press gesture u32
  | Op_round u32
  | Op_others "'v voice device" "'r wifi" face

fun presenter_step ::
  "('v, 'p) presenter_deps \<Rightarrow> ('v, 'r) presenter_op \<Rightarrow> ('v, 'r, 'p) presenter \<Rightarrow> ('v, 'r, 'p) presenter" where
  "presenter_step deps Op_boot p = boot_screen deps p"
| "presenter_step deps (Op_press g now) p = presenter_handle deps g now p"
| "presenter_step deps (Op_round now) p = presenter_tick deps now p"
| "presenter_step deps (Op_others d net f) p = p\<lparr>pr_device := d, pr_wifi := net, pr_face := f\<rparr>"

fun is_hold :: "('v, 'r) presenter_op \<Rightarrow> bool" where
  "is_hold (Op_press g now) \<longleftrightarrow> g_kind g = GestureKind_hold"
| "is_hold _ \<longleftrightarrow> False"

lemma step_says: "says deps (is_hold op) p (presenter_step deps op p)"
  using boot_says [of deps False p] tick_says [of deps False p] handle_says [of deps _ p]
  by (cases op) (auto simp: says_def)

lemma run_says:
  assumes "x \<in> set (pr_serial (fold (presenter_step deps) ops p))" and "x \<notin> set (pr_serial p)"
  shows "\<exists>before op after. ops = before @ op # after \<and>
    may_say deps (is_hold op) (fold (presenter_step deps) before p) x"
  using assms
proof (induction ops rule: rev_induct)
  case (snoc op ops)
  let ?p = "fold (presenter_step deps) ops p"
  show ?case
  proof (cases "x \<in> set (pr_serial ?p)")
    case True
    with snoc obtain before o' after where "ops = before @ o' # after"
      "may_say deps (is_hold o') (fold (presenter_step deps) before p) x" by blast
    then show ?thesis by (intro exI [of _ before] exI [of _ o'] exI [of _ "after @ [op]"]) simp
  next
    case False
    then have "may_say deps (is_hold op) ?p x" using step_says [of deps op ?p] snoc.prems by (auto simp: says_def)
    then show ?thesis by (intro exI [of _ ops] exI [of _ op] exI [of _ "[]"]) simp
  qed
qed simp


text \<open>What a press does to the device: only a hold during a conversation touches the cancellation, only
  a single press that may start one touches the task, and during a conversation no press plays.\<close>

lemma hold_device:
  "pr_device (on_hold deps p) =
    (if phase_of p \<noteq> ConversationPhase_idle
     then (pr_device p)\<lparr>dv_cancel := cancel CancelReason_requested (dv_cancel (pr_device p))\<rparr> else pr_device p)"
  by (simp add: on_hold_def Let_def)

lemma beep_device:
  "pr_device p' = pr_device p \<Longrightarrow> pr_device (beep deps hz ms p') = pr_device (beep deps hz ms p)"
  by (simp add: beep_def Let_def phase_of_def)

lemma double_click_device:
  "pr_device (on_double_click deps now p) = pr_device p \<or>
   pr_device (on_double_click deps now p) = pr_device (beep deps 800 120 p)"
proof -
  obtain h prober where d: "detect (pd_probe deps) (pr_prober p) = (h, prober)" by fastforce
  have b: "pr_device (beep deps 800 120 (present_notice words now ms (say x (p\<lparr>pr_prober := prober\<rparr>)))) =
      pr_device (beep deps 800 120 p)" for words ms x
    by (rule beep_device) simp
  show ?thesis by (simp add: on_double_click_def d Let_def b)
qed

lemma triple_click_device: "pr_device (on_triple_click deps now p) = pr_device (beep deps 500 100 p)"
proof -
  have b: "pr_device (beep deps 500 100 (present_notice words now ms p)) = pr_device (beep deps 500 100 p)" for words ms
    by (rule beep_device) simp
  show ?thesis by (simp add: on_triple_click_def Let_def b)
qed

text \<open>What a single press needs to start a conversation.\<close>

definition may_start :: "('v, 'r, 'p) presenter \<Rightarrow> bool" where
  "may_start p \<longleftrightarrow>
    \<not> emergency (dv_cancel (pr_device p)) \<and> phase_of p = ConversationPhase_idle \<and>
    wf_phase (pr_wifi p) = NetworkPhase_connected \<and> dv_gateway_url (pr_device p) \<noteq> [] \<and>
    ct_running (dv_task (pr_device p))"

lemma try_start_cases:
  assumes "try_start (presenter_refresh p) = (started, p')"
  shows "started = may_start p" "phase_of p \<noteq> ConversationPhase_idle \<Longrightarrow> p' = presenter_refresh p"
    "dv_cancel (pr_device p') = dv_cancel (pr_device p)"
    "dv_task (pr_device p') = (if may_start p
       then (dv_task (pr_device p))\<lparr>ct_phase := ConversationPhase_listening, ct_spoken := [], ct_notified := True\<rparr>
       else dv_task (pr_device p))"
  using assms presenter_refresh_can_start [of p]
  by (auto simp: try_start_def may_start_def request_start_def phase_of_def task_phase_def Let_def split: if_splits)

lemma single_click_device:
  "dv_cancel (pr_device (on_single_click deps now p)) = dv_cancel (pr_device p)"
  "ct_phase (dv_task (pr_device (on_single_click deps now p))) =
    (if may_start p then ConversationPhase_listening else ct_phase (dv_task (pr_device p)))"
  "phase_of p \<noteq> ConversationPhase_idle \<Longrightarrow> dv_task (pr_device (on_single_click deps now p)) = dv_task (pr_device p)"
proof -
  obtain started p1 where t: "try_start (presenter_refresh p) = (started, p1)" by fastforce
  note t' = try_start_cases [OF t]
  have device: "pr_device (on_single_click deps now p) = (if started then pr_device p1
      else pr_device (beep deps 500 100 (say (Said_cannot_start (why_cannot_start (dv_state (pr_device p1)))) p1)))"
    by (simp add: on_single_click_def t Let_def)
  show "dv_cancel (pr_device (on_single_click deps now p)) = dv_cancel (pr_device p)"
    by (simp add: device t'(3))
  show "ct_phase (dv_task (pr_device (on_single_click deps now p))) =
    (if may_start p then ConversationPhase_listening else ct_phase (dv_task (pr_device p)))"
    by (simp add: device t'(1,4))
  show "dv_task (pr_device (on_single_click deps now p)) = dv_task (pr_device p)"
    if busy: "phase_of p \<noteq> ConversationPhase_idle"
  proof -
    have "\<not> may_start p" using busy by (simp add: may_start_def)
    moreover have "phase_of (say x p1) \<noteq> ConversationPhase_idle" for x using busy t'(2) by simp
    ultimately show ?thesis by (simp add: device t'(1,4))
  qed
qed

lemma handle_effect:
  shows "dv_cancel (pr_device (presenter_handle deps g now p)) =
      (if g_kind g = GestureKind_hold \<and> phase_of p \<noteq> ConversationPhase_idle
       then max CancelReason_requested (dv_cancel (pr_device p)) else dv_cancel (pr_device p)) \<and>
    phase_of (presenter_handle deps g now p) =
      (if g_kind g = GestureKind_clicks \<and> g_clicks g = 1 \<and> may_start p then ConversationPhase_listening
       else phase_of p) \<and>
    (phase_of p \<noteq> ConversationPhase_idle \<longrightarrow>
      dv_task (pr_device (presenter_handle deps g now p)) = dv_task (pr_device p))"
proof (cases "g_kind g")
  case GestureKind_hold
  have "cancel CancelReason_requested r = max CancelReason_requested r" for r
    by (cases r) (simp_all add: cancel_def max_def reason_order)
  then show ?thesis using GestureKind_hold
    by (simp add: presenter_handle_def phase_of_def hold_device)
next
  case GestureKind_clicks
  let ?p = "say (Said_clicks (g_clicks g)) p"
  have same: "pr_device ?p = pr_device p" "phase_of ?p = phase_of p" "may_start ?p = may_start p"
    by (simp_all add: may_start_def)
  have one: "dv_cancel (pr_device (on_single_click deps now ?p)) = dv_cancel (pr_device p)"
    "phase_of (on_single_click deps now ?p) = (if may_start p then ConversationPhase_listening else phase_of p)"
    "phase_of p \<noteq> ConversationPhase_idle \<Longrightarrow> dv_task (pr_device (on_single_click deps now ?p)) = dv_task (pr_device p)"
    using single_click_device [where deps = deps and now = now and p = ?p] same by (simp_all add: phase_of_def task_phase_def)
  have keeps: "dv_cancel d = dv_cancel (pr_device p) \<and> task_phase (dv_task d) = phase_of p \<and>
      (phase_of p \<noteq> ConversationPhase_idle \<longrightarrow> dv_task d = dv_task (pr_device p))"
    if "d = pr_device p \<or> d = pr_device (beep deps hz ms ?p)" for d hz ms
    using that beep_frame [of deps hz ms ?p] beep_silent [of ?p deps hz ms] same by (auto simp: phase_of_def)
  have two: "?thesis" if "g_clicks g = 2"
    using that GestureKind_clicks keeps [of "pr_device (on_double_click deps now ?p)" 800 120]
      double_click_device [of deps now ?p]
    by (simp add: presenter_handle_def Let_def phase_of_def)
  have three: "?thesis" if "g_clicks g = 3"
    using that GestureKind_clicks keeps [of "pr_device (on_triple_click deps now ?p)" 500 100]
      triple_click_device [of deps now ?p]
    by (simp add: presenter_handle_def Let_def phase_of_def)
  show ?thesis
  proof (cases "g_clicks g = 1")
    case True
    then show ?thesis using GestureKind_clicks one by (simp add: presenter_handle_def Let_def)
  next
    case False
    with two three GestureKind_clicks show ?thesis by (simp add: presenter_handle_def Let_def)
  qed
qed (simp add: presenter_handle_def)

text \<open>C13: a press does to the device what the button is for and nothing else. The cancellation changes
  only when the button is held during a conversation, which then is requested to stop, never below a
  graver reason; a conversation is started only by a single press, with no emergency stop, a network, a
  gateway and no other conversation; and during a conversation no press touches the audio.\<close>
theorem press_does_its_part:
  shows "dv_cancel (pr_device (presenter_handle deps g now p)) =
      (if g_kind g = GestureKind_hold \<and> phase_of p \<noteq> ConversationPhase_idle
       then max CancelReason_requested (dv_cancel (pr_device p)) else dv_cancel (pr_device p)) \<and>
    phase_of (presenter_handle deps g now p) =
      (if g_kind g = GestureKind_clicks \<and> g_clicks g = 1 \<and> may_start p then ConversationPhase_listening
       else phase_of p) \<and>
    (phase_of p \<noteq> ConversationPhase_idle \<longrightarrow>
      dv_task (pr_device (presenter_handle deps g now p)) = dv_task (pr_device p))"
  by (rule handle_effect)

section \<open>Notices\<close>

lemma sint_difference:
  fixes a b :: nat
  assumes "\<bar>int a - int b\<bar> < 2 ^ 31"
  shows "sint (word_of_nat a - word_of_nat b :: u32) = int a - int b"
proof -
  have "sint (word_of_int k :: u32) = signed_take_bit 31 k" for k by (simp add: signed_of_int)
  then have "sint (word_of_int (int a - int b) :: u32) = signed_take_bit 31 (int a - int b)" .
  also have "\<dots> = int a - int b" using assms by (intro signed_take_bit_int_eq_self) simp_all
  finally show ?thesis by simp
qed

text \<open>Nothing has changed since the last round but, perhaps, the time.\<close>

definition settled :: "('v, 'r, 'p) presenter \<Rightarrow> bool" where
  "settled p \<longleftrightarrow>
    pr_tick_started p \<and> pr_last_phase p = phase_of p \<and>
    pr_was_connected p = (wf_phase (pr_wifi p) = NetworkPhase_connected) \<and>
    pr_was_ap_up p = wf_access_point_up (pr_wifi p)"

lemma tick_settles: "settled (presenter_tick deps now p)"
proof -
  have "phase_of (p\<lparr>pr_last_phase := a, pr_was_connected := b, pr_was_ap_up := c, pr_tick_started := e\<rparr>) = phase_of p"
    for p :: "('a, 'b, 'c) presenter" and a b c e by (simp add: phase_of_def)
  then show ?thesis by (simp add: presenter_tick_def settled_def Let_def phase_of_def)
qed

lemma tick_device [simp]: "pr_device (presenter_tick deps now p) = pr_device p"
  by (simp add: presenter_tick_def Let_def)

lemma tick_settled:
  assumes "settled p"
  shows "presenter_tick deps now p =
    (if pr_notice_shown p \<and> 0 \<le> sint (now - pr_notice_until_ms p) then present_face p else p)"
  using assms by (simp add: presenter_tick_def settled_def Let_def)

lemma settled_notice [simp]: "settled (present_notice words now ms p) = settled p"
  by (simp add: settled_def)

lemma pairing_mode: "fc_available (pr_face p) \<Longrightarrow> fc_mode (pr_face (present_pairing deps p)) = Mode_pairing"
  by (simp add: present_pairing_def show_pairing_def Let_def)

lemma notice_available: "fc_available (pr_face (present_notice words now ms p)) = fc_available (pr_face p)"
  by (simp add: present_notice_def show_message_def Let_def)

text \<open>C39: a notice stays for its time and not longer, also across the wrap of the counter: every round
  before its time is up leaves the screen as it is, and the first one after, less than 24 days later,
  shows the face.\<close>
theorem notice_stays_its_time:
  assumes "settled p" and "ms < 2 ^ 31"
    and "\<forall>d\<in>set ds. d < ms" and "ms \<le> e" and "e < ms + 2 ^ 31"
  shows "fold (\<lambda>d. presenter_tick deps (now + word_of_nat d)) ds (present_notice words now (word_of_nat ms) p) =
      present_notice words now (word_of_nat ms) p \<and>
    presenter_tick deps (now + word_of_nat e) (present_notice words now (word_of_nat ms) p) =
      present_face (present_notice words now (word_of_nat ms) p)"
proof
  let ?p = "present_notice words now (word_of_nat ms) p"
  have tick: "presenter_tick deps (now + word_of_nat d) ?p =
      (if 0 \<le> sint (word_of_nat d - word_of_nat ms :: u32) then present_face ?p else ?p)" for d
    using tick_settled [of ?p deps "now + word_of_nat d"] assms(1) by simp
  have early: "presenter_tick deps (now + word_of_nat d) ?p = ?p" if "d < ms" for d
    using that assms(2) sint_difference [of d ms] by (simp add: tick)
  show "fold (\<lambda>d. presenter_tick deps (now + word_of_nat d)) ds ?p = ?p"
    using assms(3) by (induction ds) (simp_all add: early)
  show "presenter_tick deps (now + word_of_nat e) ?p = present_face ?p"
    using assms(4,5) sint_difference [of e ms] by (simp add: tick)
qed

text \<open>The end of a notice replaces whatever is on the screen by the face, also a setup screen that
  was put up over the notice because the access point had come up meanwhile, so the passphrase is lost
  from view.\<close>
theorem notice_end_hides_pairing:
  assumes "settled p" and "fc_available (pr_face p)" and "\<not> wf_access_point_up (pr_wifi p)"
    and "wf_access_point_up net" and "wf_phase net = wf_phase (pr_wifi p)"
    and "0 < d" and "d < ms" and "ms < 2 ^ 31"
  shows "let shown = (present_notice words now (word_of_nat ms) p)\<lparr>pr_wifi := net\<rparr>;
      paired = presenter_tick deps (now + word_of_nat d) shown;
      after = presenter_tick deps (now + word_of_nat ms) paired
    in fc_mode (pr_face paired) = Mode_pairing \<and> fc_mode (pr_face after) = Mode_face \<and>
      wf_access_point_up (pr_wifi after)"
proof -
  let ?shown = "(present_notice words now (word_of_nat ms) p)\<lparr>pr_wifi := net\<rparr>"
  let ?paired = "presenter_tick deps (now + word_of_nat d) ?shown"
  have phase: "phase_of ?shown = phase_of p" by (simp add: phase_of_def present_notice_def)
  have late: "\<not> 0 \<le> sint (word_of_nat d - word_of_nat ms :: u32)"
    using sint_difference [of d ms] assms(7,8) by simp
  have still: "?shown\<lparr>pr_last_phase := phase_of p, pr_was_connected := (wf_phase (pr_wifi p) = NetworkPhase_connected)\<rparr> = ?shown"
    using assms(1,5) by (simp add: settled_def present_notice_def)
  have paired: "?paired = (present_pairing deps ?shown)\<lparr>pr_was_ap_up := True, pr_tick_started := True\<rparr>"
    using assms(1,3,4,5) late phase arg_cong [OF still, of "present_pairing deps"] by (simp add: presenter_tick_def settled_def Let_def)
  have mode: "fc_mode (pr_face ?paired) = Mode_pairing"
    using assms(2) pairing_mode [of ?shown deps] notice_available [of words now "word_of_nat ms" p] by (simp add: paired)
  have notice: "pr_notice_shown ?paired" "pr_notice_until_ms ?paired = now + word_of_nat ms" "pr_wifi ?paired = net"
    by (simp_all add: paired)
  have "presenter_tick deps (now + word_of_nat ms) ?paired = present_face ?paired"
    using tick_settled [OF tick_settles, of deps "now + word_of_nat ms" deps "now + word_of_nat d" ?shown] notice by simp
  then show ?thesis using mode notice assms(4) by (simp add: Let_def present_face_def face_show_def)
qed

section \<open>At work\<close>

text \<open>A unit without network whose screen works, with a conversation in the given phase.\<close>

definition demo_deps :: "(unit, i2c_line) presenter_deps" where
  "demo_deps =
    \<lparr>pd_voice = True, pd_registry = False, pd_screen_available = True, pd_token = True, pd_bus = quiet_bus,
     pd_tone = (\<lambda>hz. []), pd_fade = (\<lambda>hz first. []), pd_probe = demo_probe_bus\<rparr>"

lemma demo_deps_fields: "pd_token demo_deps" "\<not> pd_registry demo_deps"
  by (simp_all add: demo_deps_def)

definition demo_presenter :: "ConversationPhase \<Rightarrow> (unit, unit, i2c_line) presenter" where
  "demo_presenter phase =
    presenter_new
      \<lparr>dv_specs = [], dv_state = initial_device_state, dv_cancel = CancelReason_none, dv_shown = [],
       dv_task = (conversation_task \<lparr>pl_stager = stager_new (Some [0]) 1 240, pl_received = 0, pl_played = 0,
         pl_peak = 0, pl_speaking_phase = False, pl_calls = [], pl_world = voice_new ()\<rparr>)\<lparr>ct_phase := phase\<rparr>,
       dv_network_phase = NetworkPhase_unprovisioned, dv_access_point_up = False, dv_ip = [], dv_gateway_url = [],
       dv_url_write_works = True,
       dv_identity = \<lparr>di_device_id = ''d'', di_boot_id = boot_unset, di_firmware_version = ''1'',
         di_firmware_idf = ''5'', di_firmware_build = ''b''\<rparr>,
       dv_uptime_ms = 1, dv_memory = \<lparr>internal_free = 0, largest_internal_block = 0\<rparr>, dv_psram_free = 0,
       dv_secrets = \<lparr>is_token = token_from_text (replicate 32 CHR ''A''), is_loaded = True, is_new = False,
         is_drawn = 0, is_writes = 0, is_stored = [], is_random = (\<lambda>i. 0), is_write_works = (\<lambda>i. True)\<rparr>,
       dv_nvs_up = True, dv_stored_token = None\<rparr>
      (wifi_new ()) (face_new\<lparr>fc_available := True\<rparr>) (prober Line_internal)"

lemma demo_presenter_facts:
  "pr_serial (demo_presenter phase) = []" "phase_of (demo_presenter phase) = phase"
  "dv_cancel (pr_device (demo_presenter phase)) = CancelReason_none"
  "is_token (dv_secrets (pr_device (demo_presenter phase))) = token_from_text (replicate 32 CHR ''A'')"
  "fc_available (pr_face (demo_presenter phase))" "\<not> wf_access_point_up (pr_wifi (demo_presenter phase))"
  "pr_wifi (demo_presenter phase) = wifi_new ()" "pr_notice_shown (demo_presenter phase) = False"
  by (simp_all add: demo_presenter_def presenter_new_def phase_of_def task_phase_def wifi_new_def conversation_task_def)

definition held :: gesture where
  "held = \<lparr>g_kind = GestureKind_hold, g_clicks = 0\<rparr>"


lemma press_does_its_part_witness:
  "dv_cancel (pr_device (presenter_handle demo_deps held 9 (demo_presenter ConversationPhase_speaking))) =
    CancelReason_requested"
  using press_does_its_part [of demo_deps held 9 "demo_presenter ConversationPhase_speaking"]
  by (simp add: demo_presenter_facts held_def max_def reason_order)

lemma notice_stays_its_time_witness:
  "\<not> pr_notice_shown (presenter_tick demo_deps (4294967000 + word_of_nat 7000)
     (present_notice ''NO IP'' 4294967000 (word_of_nat 7000) (presenter_tick demo_deps 5 (demo_presenter ConversationPhase_idle))))"
  using notice_stays_its_time [OF tick_settles, of 7000 "[10, 6999]" 7000 demo_deps 4294967000 "''NO IP''" demo_deps 5
      "demo_presenter ConversationPhase_idle"]
  by simp

lemma notice_end_hides_pairing_witness:
  "fc_mode (pr_face (presenter_tick demo_deps (0 + word_of_nat 7000) (presenter_tick demo_deps (0 + word_of_nat 50)
     ((present_notice ''NO IP'' 0 (word_of_nat 7000) (presenter_tick demo_deps 5 (demo_presenter ConversationPhase_idle)))
       \<lparr>pr_wifi := (wifi_new ())\<lparr>wf_access_point_up := True\<rparr>\<rparr>)))) = Mode_face"
proof -
  let ?p = "presenter_tick demo_deps 5 (demo_presenter ConversationPhase_idle)"
  have "fc_available (pr_face ?p)" "pr_wifi ?p = wifi_new ()"
    using demo_presenter_facts [of ConversationPhase_idle]
    by (simp_all add: presenter_tick_def Let_def present_face_def face_show_def)
  then show ?thesis
    using notice_end_hides_pairing [OF tick_settles, of demo_deps 5 "demo_presenter ConversationPhase_idle"
      "(wifi_new ())\<lparr>wf_access_point_up := True\<rparr>" 50 7000 "''NO IP''" 0 demo_deps]
    by (simp add: wifi_new_def Let_def)
qed

end
