(* ===== verification/Main_Loop.thy ===== *)
theory Main_Loop
  imports Presenter
begin

text \<open>
  \<open>main.cpp\<close> and \<open>stackchan_input/button.cpp\<close>: the boot, which starts the parts in their order and hands
  them to each other, and the loop that serves the button, the screens, the face and the network. What
  boot finds (memory, the panel, non-volatile storage, whether a task could be made) is given. The boot
  report and the HTTP server, which boot starts after the commands, are modelled elsewhere.
\<close>

section \<open>State\<close>

record ('v, 'r, 'p) firmware =
  fw_presenter :: "('v, 'r, 'p) presenter"
  fw_debouncer :: debouncer
  fw_gestures :: button_gesture
  fw_ready :: bool

definition firmware_new :: "('v, 'r, 'p) presenter \<Rightarrow> ('v, 'r, 'p) firmware" where
  "firmware_new p =
    \<lparr>fw_presenter = p, fw_debouncer = button_debouncer 20, fw_gestures = button_gesture 1000 500, fw_ready = False\<rparr>"

definition on_device :: "('v voice device \<Rightarrow> 'v voice device) \<Rightarrow> ('v, 'r, 'p) firmware \<Rightarrow> ('v, 'r, 'p) firmware" where
  "on_device f fw = fw\<lparr>fw_presenter := (fw_presenter fw)\<lparr>pr_device := f (pr_device (fw_presenter fw))\<rparr>\<rparr>"

definition voice_of :: "('v, 'r, 'p) firmware \<Rightarrow> 'v voice" where
  "voice_of fw = ct_world (dv_task (pr_device (fw_presenter fw)))"

definition task_of :: "('v, 'r, 'p) firmware \<Rightarrow> 'v voice conversation_task" where
  "task_of fw = dv_task (pr_device (fw_presenter fw))"

section \<open>The button\<close>

definition input_begin :: "bool \<Rightarrow> ('v, 'r, 'p) firmware \<Rightarrow> bool \<times> ('v, 'r, 'p) firmware" where
  "input_begin configured fw = (if \<not> configured then (False, fw) else (True, fw\<lparr>fw_ready := True\<rparr>))"

text \<open>\<open>level\<close> is the level of the pin: low is pressed.\<close>

definition poll :: "bool \<Rightarrow> u32 \<Rightarrow> ('v, 'r, 'p) firmware \<Rightarrow> gesture \<times> ('v, 'r, 'p) firmware" where
  "poll level now fw =
    (if \<not> fw_ready fw then (\<lparr>g_kind = GestureKind_none, g_clicks = 0\<rparr>, fw)
     else
       (let pressed = (\<not> level);
            (edge, debouncer) = debounce_update pressed now (fw_debouncer fw);
            (g, gestures) = gesture_update edge now (fw_gestures fw)
        in (g, fw\<lparr>fw_debouncer := debouncer, fw_gestures := gestures\<rparr>)))"

section \<open>Boot\<close>

record boot_facts =
  bt_panel :: bool
  bt_canvas :: bool
  bt_pixels :: nat
  bt_gpio :: bool
  bt_nvs :: bool
  bt_token :: "string option"
  bt_root :: "u64 \<Rightarrow> u16"
  bt_url :: stored_url
  bt_capture :: bool
  bt_stage :: "sample list option"
  bt_created :: bool

definition boot_token :: "boot_facts \<Rightarrow> 'w device \<Rightarrow> 'w device" where
  "boot_token b d = d\<lparr>dv_secrets := Identity.access_token (bt_nvs b) (bt_token b) (dv_secrets d)\<rparr>"

text \<open>A token that was drawn at this boot is announced on the serial port.\<close>

definition announce_token :: "('v, 'r, 'p) presenter \<Rightarrow> ('v, 'r, 'p) presenter" where
  "announce_token p =
    (let secrets = dv_secrets (pr_device p)
     in if token_set (is_token secrets) \<and> is_new secrets then say (Said_new_token (token_text (is_token secrets))) p
        else p)"

definition boot_audio ::
  "('v, 'p) presenter_deps \<Rightarrow> boot_facts \<Rightarrow> 'v voice \<Rightarrow> 'v voice" where
  "boot_audio deps b v =
    (let (here, v) = voice_begin (pd_bus deps) v
     in if \<not> here then v
        else
          (let v = snd (play_tone (pd_bus deps) (pd_tone deps 1000) (pd_fade deps 1000) 200 v)
           in snd (check_microphone (pd_bus deps) (bt_root b) v)))"

definition boot_conversation :: "boot_facts \<Rightarrow> 'v voice device \<Rightarrow> 'v voice device" where
  "boot_conversation b d =
    (let d = d\<lparr>dv_gateway_url := load_gateway_url (bt_url b) (dv_gateway_url d)\<rparr>
     in if vb_available (ct_world (dv_task d))
        then d\<lparr>dv_task := snd (task_begin True (bt_capture b) (bt_stage b) (bt_created b) (dv_task d))\<rparr>
        else d)"

definition boot_commands :: "bool \<Rightarrow> 'v voice device \<Rightarrow> 'v voice device" where
  "boot_commands display d =
    d\<lparr>dv_specs := map en_spec (snd (register_commands display (vb_available (ct_world (dv_task d)))
        ([] :: 'v voice device command_registry)))\<rparr>"

definition boot ::
  "('v, 'p) presenter_deps \<Rightarrow> boot_facts \<Rightarrow> 'r radio \<Rightarrow> ('v, 'r, 'p) firmware \<Rightarrow>
   ('v, 'p) presenter_deps \<times> ('v, 'r, 'p) firmware" where
  "boot deps b radio fw =
    (let p = fw_presenter fw;
         p = p\<lparr>pr_prober := snd (detect (pd_probe deps) (pr_prober p))\<rparr>;
         p = p\<lparr>pr_face := snd (face_begin (bt_panel b) (bt_canvas b) (bt_pixels b) (pr_face p))\<rparr>;
         fw = snd (input_begin (bt_gpio b) (fw\<lparr>fw_presenter := p\<rparr>));
         fw = on_device (boot_token b) fw;
         fw = fw\<lparr>fw_presenter := announce_token (fw_presenter fw)\<rparr>;
         fw = on_device (\<lambda>d. d\<lparr>dv_task := at_world (boot_audio deps b (ct_world (dv_task d))) (dv_task d)\<rparr>) fw;
         p = fw_presenter fw;
         fw = fw\<lparr>fw_presenter := p\<lparr>pr_wifi := snd (wifi_begin radio (pr_wifi p))\<rparr>\<rparr>;
         fw = on_device (boot_conversation b) fw;
         display = fc_available (pr_face (fw_presenter fw));
         fw = on_device (boot_commands display) fw;
         deps = deps\<lparr>pd_screen_available := display\<rparr>
     in (deps, fw\<lparr>fw_presenter := boot_screen deps (fw_presenter fw)\<rparr>))"

section \<open>The loop\<close>

definition main_round ::
  "('v, 'p) presenter_deps \<Rightarrow> 'r radio \<Rightarrow> bool \<Rightarrow> u32 \<Rightarrow> ('v, 'r, 'p) firmware \<Rightarrow> ('v, 'r, 'p) firmware" where
  "main_round deps radio level now fw =
    (let (g, fw) = poll level now fw;
         p = presenter_handle deps g now (fw_presenter fw);
         p = presenter_tick deps now p;
         p = p\<lparr>pr_face := face_tick now (pr_face p)\<rparr>;
         p = p\<lparr>pr_wifi := wifi_tick radio now (pr_wifi p)\<rparr>
     in fw\<lparr>fw_presenter := p\<rparr>)"

section \<open>What boot leaves\<close>

lemma on_device_frame [simp]:
  "pr_device (fw_presenter (on_device f fw)) = f (pr_device (fw_presenter fw))"
  "pr_wifi (fw_presenter (on_device f fw)) = pr_wifi (fw_presenter fw)"
  "pr_face (fw_presenter (on_device f fw)) = pr_face (fw_presenter fw)"
  "pr_serial (fw_presenter (on_device f fw)) = pr_serial (fw_presenter fw)"
  by (simp_all add: on_device_def)

lemma stop_capture_idle:
  assumes "vb_direction v \<noteq> AudioDirectionState_playing"
  shows "vb_direction (stop_capture bus v) = AudioDirectionState_idle"
  using assms by (cases "vb_direction v") (simp_all add: stop_capture_def)

lemma check_microphone_idle:
  assumes "voice_wf v" and "vb_direction v \<noteq> AudioDirectionState_capturing"
  shows "vb_direction (snd (check_microphone bus root v)) = AudioDirectionState_idle"
proof (cases "vb_available v")
  case True
  let ?v = "stop_playback bus v"
  have idle: "vb_direction ?v = AudioDirectionState_idle"
    using assms(2) by (cases "vb_direction v") (simp_all add: stop_playback_def Let_def)
  obtain ok v1 where s: "start_capture bus (vb_sample_rate ?v) ?v = (ok, v1)" by fastforce
  have o: "start_outcome AudioDirectionState_capturing ?v ok v1"
    using start_capture_outcome [OF stop_playback_stops(1) [OF assms(1)] s] .
  obtain t1 w1 where t1: "bus_ticks bus (vb_world v1) = (t1, w1)" by fastforce
  obtain g1 v2 where r1: "voice_read bus True kFrames (after t1 300) t1 (v1\<lparr>vb_world := w1\<rparr>) = (g1, v2)" by fastforce
  obtain t2 w2 where t2: "bus_ticks bus (vb_world v2) = (t2, w2)" by fastforce
  obtain g2 v3 where r2: "voice_read bus True kFrames (after t2 300) t2 (v2\<lparr>vb_world := w2\<rparr>) = (g2, v3)" by fastforce
  have "vb_direction v2 = vb_direction v1"
    using voice_read_wf(2) [of bus True kFrames "after t1 300" t1 "v1\<lparr>vb_world := w1\<rparr>"] r1 by simp
  moreover have "vb_direction v3 = vb_direction v2"
    using voice_read_wf(2) [of bus True kFrames "after t2 300" t2 "v2\<lparr>vb_world := w2\<rparr>"] r2 by simp
  ultimately have "ok \<Longrightarrow> vb_direction v3 \<noteq> AudioDirectionState_playing" using o by (simp add: start_outcome_def)
  then show ?thesis
    using True o idle
    by (cases ok) (simp_all add: check_microphone_def s t1 r1 t2 r2 Let_def stop_capture_idle start_outcome_def)
next
  case False
  then show ?thesis using assms by (simp add: check_microphone_def voice_wf_def)
qed

lemma boot_audio_idle:
  assumes "voice_wf v" and "vb_direction v = AudioDirectionState_idle"
  shows "vb_direction (boot_audio deps b v) = AudioDirectionState_idle \<and> voice_wf (boot_audio deps b v)"
proof -
  obtain here v1 where b: "voice_begin (pd_bus deps) v = (here, v1)" by fastforce
  have v1: "voice_wf v1" "vb_direction v1 = AudioDirectionState_idle"
    using voice_begin_wf [OF assms(1), of "pd_bus deps"] voice_begin_untouched [of v "pd_bus deps"] assms(2) b
    by (simp_all add: untouched_def)
  let ?v2 = "snd (play_tone (pd_bus deps) (pd_tone deps 1000) (pd_fade deps 1000) 200 v1)"
  have v2: "voice_wf ?v2" "vb_direction ?v2 \<noteq> AudioDirectionState_capturing"
    using play_tone_wf [OF v1(1), of "pd_bus deps" "pd_tone deps 1000" "pd_fade deps 1000" 200] v1(2) by auto
  show ?thesis
    using v1 check_microphone_idle [OF v2, of "pd_bus deps" "bt_root b"] check_microphone_wf [OF v2(1)]
    by (simp add: boot_audio_def b Let_def)
qed

lemma boot_conversation_facts:
  assumes "\<not> ct_running (dv_task d)"
  shows "ct_world (dv_task (boot_conversation b d)) = ct_world (dv_task d)"
    "ct_phase (dv_task (boot_conversation b d)) = ct_phase (dv_task d)"
    "ct_running (dv_task (boot_conversation b d)) \<longleftrightarrow>
      vb_available (ct_world (dv_task d)) \<and> bt_capture b \<and> bt_stage b \<noteq> None \<and> bt_created b"
  using assms by (simp_all add: boot_conversation_def task_begin_def ct_world_def Let_def split: option.split)

lemma boot_screen_frame [simp]:
  "pr_device (boot_screen deps p) = pr_device p"
  "fc_available (pr_face (boot_screen deps p)) = fc_available (pr_face p)"
  by (simp_all add: boot_screen_def present_face_def present_pairing_def face_show_def show_pairing_def Let_def say_def)

lemma boot_screen_quiet: "pd_screen_available deps \<Longrightarrow> pr_serial (boot_screen deps p) = pr_serial p"
  by (simp add: boot_screen_def)

lemma input_begin_frame [simp]: "fw_presenter (snd (input_begin ok fw)) = fw_presenter fw"
  by (simp add: input_begin_def)

definition with_audio :: "('v, 'p) presenter_deps \<Rightarrow> boot_facts \<Rightarrow> 'v voice device \<Rightarrow> 'v voice device" where
  "with_audio deps b d = d\<lparr>dv_task := at_world (boot_audio deps b (ct_world (dv_task d))) (dv_task d)\<rparr>"

lemma announce_token_frame [simp]:
  "pr_device (announce_token p) = pr_device p" "pr_wifi (announce_token p) = pr_wifi p"
  "pr_face (announce_token p) = pr_face p"
  by (simp_all add: announce_token_def Let_def)

lemma boot_result:
  assumes "boot deps b radio fw = (deps', fw')"
  shows "pr_device (fw_presenter fw') = boot_commands (fc_available (pr_face (fw_presenter fw')))
      (boot_conversation b (with_audio deps b (boot_token b (pr_device (fw_presenter fw)))))"
    "fc_available (pr_face (fw_presenter fw')) \<Longrightarrow> pr_serial (fw_presenter fw') =
      pr_serial (announce_token (fw_presenter (on_device (boot_token b) fw)))"
  using assms by (auto simp: boot_def Let_def with_audio_def boot_screen_quiet announce_token_def)

lemma boot_secrets:
  "dv_secrets (boot_commands display (boot_conversation b (with_audio deps b d))) = dv_secrets d"
  by (simp add: boot_commands_def boot_conversation_def with_audio_def Let_def)

lemma boot_commands_available:
  assumes "spec \<in> set (dv_specs (boot_commands display d))"
  shows "cs_name spec = ''conversation.start'' \<Longrightarrow> cs_available spec = vb_available (ct_world (dv_task d))"
    "cs_name spec = ''face.set_expression'' \<Longrightarrow> cs_available spec = display"
  using assms
  by (auto simp: boot_commands_def register_commands_all device_commands_def start_spec_def set_expression_spec_def
      cancel_spec_def configure_spec_def command_spec_def)

text \<open>C12: boot leaves the device as it says it is. From a start with the audio idle, both directions of
  the audio are closed again after the tone and the check of the microphone; the conversation task runs
  only on a device with a voice base; starting a conversation is offered exactly with a voice base and
  the expression exactly with a display; and with a display nothing secret has been printed but a token
  that was drawn at this boot.\<close>
theorem boot_offers_what_is_there:
  assumes "voice_wf (voice_of fw)" and "vb_direction (voice_of fw) = AudioDirectionState_idle"
    and "\<not> ct_running (task_of fw)" and "pr_serial (fw_presenter fw) = []"
    and "boot deps b radio fw = (deps', fw')"
  shows "vb_direction (voice_of fw') = AudioDirectionState_idle \<and> vb_tx (voice_of fw') = None \<and>
    vb_rx (voice_of fw') = None \<and>
    (ct_running (task_of fw') \<longrightarrow> vb_available (voice_of fw')) \<and>
    (\<forall>spec\<in>set (dv_specs (pr_device (fw_presenter fw'))).
      (cs_name spec = ''conversation.start'' \<longrightarrow> cs_available spec = vb_available (voice_of fw')) \<and>
      (cs_name spec = ''face.set_expression'' \<longrightarrow> cs_available spec = fc_available (pr_face (fw_presenter fw')))) \<and>
    (fc_available (pr_face (fw_presenter fw')) \<longrightarrow>
      (\<forall>line\<in>set (pr_serial (fw_presenter fw')).
        is_new (dv_secrets (pr_device (fw_presenter fw'))) \<and>
        line = Said_new_token (token_text (is_token (dv_secrets (pr_device (fw_presenter fw')))))))"
proof -
  let ?d0 = "boot_token b (pr_device (fw_presenter fw))"
  let ?d1 = "with_audio deps b ?d0"
  let ?d2 = "boot_conversation b ?d1"
  have task0: "dv_task ?d0 = task_of fw" by (simp add: boot_token_def task_of_def)
  have world1: "ct_world (dv_task ?d1) = boot_audio deps b (voice_of fw)"
    by (simp add: with_audio_def task0) (simp add: voice_of_def task_of_def)
  have off1: "\<not> ct_running (dv_task ?d1)" using assms(3) by (simp add: with_audio_def task0)
  note d2 = boot_conversation_facts [OF off1, of b]
  note device = boot_result(1) [OF assms(5)]
  have task: "dv_task (pr_device (fw_presenter fw')) = dv_task ?d2" by (simp add: device boot_commands_def)
  have voice: "voice_of fw' = boot_audio deps b (voice_of fw)" by (simp add: voice_of_def task d2(1) world1)
  have idle: "vb_direction (voice_of fw') = AudioDirectionState_idle" "voice_wf (voice_of fw')"
    using boot_audio_idle [OF assms(1,2), of deps b] by (simp_all add: voice)
  then have "vb_tx (voice_of fw') = None" "vb_rx (voice_of fw') = None"
    by (simp_all add: voice_wf_def channels_match_def)
  moreover have "ct_running (task_of fw') \<longrightarrow> vb_available (voice_of fw')"
    using d2(3) by (simp add: task_of_def task voice world1)
  moreover have "\<forall>spec\<in>set (dv_specs (pr_device (fw_presenter fw'))).
      (cs_name spec = ''conversation.start'' \<longrightarrow> cs_available spec = vb_available (voice_of fw')) \<and>
      (cs_name spec = ''face.set_expression'' \<longrightarrow> cs_available spec = fc_available (pr_face (fw_presenter fw')))"
    using boot_commands_available [where d = ?d2] d2(1) world1 voice by (metis device)
  moreover have "\<forall>line\<in>set (pr_serial (fw_presenter fw')).
        is_new (dv_secrets (pr_device (fw_presenter fw'))) \<and>
        line = Said_new_token (token_text (is_token (dv_secrets (pr_device (fw_presenter fw')))))"
    if "fc_available (pr_face (fw_presenter fw'))"
    using boot_result(2) [OF assms(5) that] assms(4)
    by (simp add: device boot_secrets announce_token_def on_device_def say_def Let_def)
  ultimately show ?thesis using idle by simp
qed

section \<open>A held button stops the conversation\<close>

definition cancel_of :: "('v, 'r, 'p) firmware \<Rightarrow> CancelReason" where
  "cancel_of fw = dv_cancel (pr_device (fw_presenter fw))"

lemma main_round_effect:
  assumes "poll level now fw = (g, fw1)"
  shows "fw_debouncer (main_round deps radio level now fw) = fw_debouncer fw1"
    "fw_gestures (main_round deps radio level now fw) = fw_gestures fw1"
    "fw_ready (main_round deps radio level now fw) = fw_ready fw1"
    "pr_device (fw_presenter (main_round deps radio level now fw)) =
      pr_device (presenter_handle deps g now (fw_presenter fw))"
proof -
  have "fw_presenter fw1 = fw_presenter fw" using assms by (auto simp: poll_def Let_def split: if_splits prod.splits)
  then show "fw_debouncer (main_round deps radio level now fw) = fw_debouncer fw1"
    "fw_gestures (main_round deps radio level now fw) = fw_gestures fw1"
    "fw_ready (main_round deps radio level now fw) = fw_ready fw1"
    "pr_device (fw_presenter (main_round deps radio level now fw)) =
      pr_device (presenter_handle deps g now (fw_presenter fw))"
    by (simp_all add: main_round_def assms Let_def)
qed

lemma main_round_busy:
  assumes "poll level now fw = (g, fw1)" and "phase_of (fw_presenter fw) \<noteq> ConversationPhase_idle"
  shows "phase_of (fw_presenter (main_round deps radio level now fw)) = phase_of (fw_presenter fw)"
    "cancel_of (main_round deps radio level now fw) =
      (if g_kind g = GestureKind_hold then max CancelReason_requested (cancel_of fw) else cancel_of fw)"
  using handle_effect [of deps g now "fw_presenter fw"] main_round_effect(4) [OF assms(1), of deps radio] assms(2)
  by (simp_all add: phase_of_def cancel_of_def may_start_def)

lemma elapsed_offsets:
  assumes "a \<le> b" and "b < 2 ^ 32"
  shows "elapsed (now + word_of_nat a) (now + word_of_nat b) = word_of_nat (b - a)"
  using assms by (simp add: elapsed_def of_nat_diff)

lemma elapsed_less:
  assumes "a \<le> b" and "b < 2 ^ 32" and "k < 2 ^ 32"
  shows "elapsed (now + word_of_nat a) (now + word_of_nat b) < word_of_nat k \<longleftrightarrow> b - a < k"
  using assms by (simp add: elapsed_offsets word_less_nat_alt unat_of_nat del: of_nat_diff)

text \<open>How far a press has come: the contact has just closed; it has settled; or the hold was seen.\<close>

definition pressing :: "u32 \<Rightarrow> nat \<Rightarrow> nat list \<Rightarrow> ('v, 'r, 'p) firmware \<Rightarrow> bool" where
  "pressing now d0 xs fw \<longleftrightarrow>
    fw_ready fw \<and> db_started (fw_debouncer fw) \<and> db_stable_ms (fw_debouncer fw) = 20 \<and>
    bg_hold_ms (fw_gestures fw) = 500 \<and> db_candidate (fw_debouncer fw) \<and>
    db_candidate_since (fw_debouncer fw) = now + word_of_nat d0 \<and>
    \<not> db_stable (fw_debouncer fw) \<and> \<not> bg_pressed (fw_gestures fw) \<and> (\<forall>d\<in>set xs. d < d0 + 20)"

definition holding :: "u32 \<Rightarrow> nat \<Rightarrow> nat list \<Rightarrow> ('v, 'r, 'p) firmware \<Rightarrow> bool" where
  "holding now d0 xs fw \<longleftrightarrow>
    (\<exists>s. fw_ready fw \<and> db_started (fw_debouncer fw) \<and> db_candidate (fw_debouncer fw) \<and>
      db_stable (fw_debouncer fw) \<and> bg_hold_ms (fw_gestures fw) = 500 \<and> bg_pressed (fw_gestures fw) \<and>
      \<not> bg_hold_reported (fw_gestures fw) \<and> bg_pressed_since (fw_gestures fw) = now + word_of_nat s \<and>
      (\<forall>d\<in>set xs. d < s + 500) \<and> (\<forall>d\<in>set xs. d0 + 20 \<le> d \<longrightarrow> s \<le> d) \<and>
      s \<in> set xs)"

lemma report_waits:
  assumes "\<not> (bg_pressed g \<and> \<not> bg_hold_reported g \<and> bg_hold_ms g \<le> elapsed (bg_pressed_since g) now)"
  obtains r c where "report_gesture now g = (r, g\<lparr>bg_clicks := c\<rparr>)"
proof (cases "bg_clicks g > 0 \<and> elapsed (bg_window_since g) now \<ge> bg_window_ms g")
  case True
  show ?thesis by (rule that, unfold report_gesture_def if_not_P [OF assms] if_P [OF True], rule refl)
next
  case False
  show ?thesis
    by (rule that [of _ "bg_clicks g"], unfold report_gesture_def if_not_P [OF assms] if_not_P [OF False]) simp
qed

lemma take_pressed:
  "bg_pressed (take_edge ButtonEdge_pressed now g)" "\<not> bg_hold_reported (take_edge ButtonEdge_pressed now g)"
  "bg_pressed_since (take_edge ButtonEdge_pressed now g) = now"
  "bg_hold_ms (take_edge ButtonEdge_pressed now g) = bg_hold_ms g"
  by (simp_all add: take_edge_def Let_def)

lemma pressing_poll:
  assumes "pressing now d0 xs fw" and "d0 \<le> d" and "d < 2 ^ 32"
    and "poll False (now + word_of_nat d) fw = (g, fw')"
  shows "if d < d0 + 20 then pressing now d0 (xs @ [d]) fw' else holding now d0 (xs @ [d]) fw'"
proof -
  let ?t = "now + word_of_nat d"
  let ?db = "fw_debouncer fw" and ?g = "fw_gestures fw"
  note p = assms(1) [unfolded pressing_def]
  have less: "elapsed (now + word_of_nat d0) ?t < 20 \<longleftrightarrow> d < d0 + 20"
    using elapsed_less [OF assms(2,3), of 20 now] assms(2) by auto
  show ?thesis
  proof (cases "d < d0 + 20")
    case True
    then have "debounce_update True ?t ?db = (ButtonEdge_none, ?db)" using p less by (simp add: debounce_update_def)
    moreover obtain r c where "report_gesture ?t ?g = (r, ?g\<lparr>bg_clicks := c\<rparr>)"
      by (rule report_waits [of ?g ?t]) (use p in simp)
    ultimately have "fw' = fw\<lparr>fw_gestures := ?g\<lparr>bg_clicks := c\<rparr>\<rparr>"
      using assms(4) p by (simp add: poll_def gesture_update_def take_edge_def)
    then show ?thesis using True p by (auto simp: pressing_def)
  next
    case False
    let ?db' = "?db\<lparr>db_stable := True, db_stable_since := ?t\<rparr>"
    have "debounce_update True ?t ?db = (ButtonEdge_pressed, ?db')"
      using p less False by (simp add: debounce_update_def Let_def)
    moreover obtain r c where "report_gesture ?t (take_edge ButtonEdge_pressed ?t ?g) =
        (r, (take_edge ButtonEdge_pressed ?t ?g)\<lparr>bg_clicks := c\<rparr>)"
      by (rule report_waits [of "take_edge ButtonEdge_pressed ?t ?g" ?t])
        (use p in \<open>simp add: take_pressed elapsed_def\<close>)
    ultimately have "fw' = fw\<lparr>fw_debouncer := ?db', fw_gestures := (take_edge ButtonEdge_pressed ?t ?g)\<lparr>bg_clicks := c\<rparr>\<rparr>"
      using assms(4) p by (simp add: poll_def gesture_update_def)
    then have "fw_ready fw'" "fw_debouncer fw' = ?db'" "bg_hold_ms (fw_gestures fw') = 500" "bg_pressed (fw_gestures fw')"
      "\<not> bg_hold_reported (fw_gestures fw')" "bg_pressed_since (fw_gestures fw') = ?t"
      using p by (simp_all add: take_pressed)
    then have "holding now d0 (xs @ [d]) fw'"
      unfolding holding_def using False p by (intro exI [of _ d]) auto
    then show ?thesis using False by simp
  qed
qed

lemma holding_poll:
  assumes "holding now d0 xs fw" and "\<forall>x\<in>set xs. x \<le> d" and "d < 2 ^ 32"
    and "poll False (now + word_of_nat d) fw = (g, fw')"
  shows "g_kind g = GestureKind_hold \<or> holding now d0 (xs @ [d]) fw'"
proof -
  let ?t = "now + word_of_nat d"
  let ?db = "fw_debouncer fw" and ?g = "fw_gestures fw"
  obtain s where s: "fw_ready fw" "db_started ?db" "db_candidate ?db" "db_stable ?db" "bg_hold_ms ?g = 500" "bg_pressed ?g"
    "\<not> bg_hold_reported ?g" "bg_pressed_since ?g = now + word_of_nat s" "\<forall>d\<in>set xs. d < s + 500"
    "\<forall>d\<in>set xs. d0 + 20 \<le> d \<longrightarrow> s \<le> d" "s \<in> set xs"
    using assms(1) by (auto simp: holding_def)
  then have "s \<le> d" using assms(2) by blast
  then have less: "elapsed (now + word_of_nat s) ?t < 500 \<longleftrightarrow> d < s + 500"
    using elapsed_less [of s d 500 now] assms(3) by auto
  have edge: "debounce_update True ?t ?db = (ButtonEdge_none, ?db)" using s by (simp add: debounce_update_def)
  show ?thesis
  proof (cases "d < s + 500")
    case True
    obtain r c where "report_gesture ?t ?g = (r, ?g\<lparr>bg_clicks := c\<rparr>)"
      by (rule report_waits [of ?g ?t]) (use s less True in \<open>simp add: not_le\<close>)
    then have "fw' = fw\<lparr>fw_gestures := ?g\<lparr>bg_clicks := c\<rparr>\<rparr>"
      using assms(4) s(1) edge by (simp add: poll_def gesture_update_def take_edge_def)
    then have "holding now d0 (xs @ [d]) fw'"
      unfolding holding_def using True s \<open>s \<le> d\<close> by (intro exI [of _ s]) auto
    then show ?thesis ..
  next
    case False
    then have "gesture_update ButtonEdge_none ?t ?g =
        (\<lparr>g_kind = GestureKind_hold, g_clicks = 0\<rparr>, ?g\<lparr>bg_hold_reported := True, bg_clicks := 0\<rparr>)"
      using s less by (simp add: gesture_update_def take_edge_def report_gesture_def not_less)
    then show ?thesis using assms(4) s(1) edge by (auto simp: poll_def)
  qed
qed

text \<open>The rounds of a press: either it is under way, or the hold was seen and the conversation cancelled.\<close>

definition stopping :: "u32 \<Rightarrow> nat \<Rightarrow> nat list \<Rightarrow> ('v, 'r, 'p) firmware \<Rightarrow> bool" where
  "stopping now d0 xs fw \<longleftrightarrow> phase_of (fw_presenter fw) \<noteq> ConversationPhase_idle \<and>
    (CancelReason_requested \<le> cancel_of fw \<or> pressing now d0 xs fw \<or> holding now d0 xs fw)"

lemma pressing_bound: "pressing now d0 xs fw \<Longrightarrow> d \<in> set xs \<Longrightarrow> d < d0 + 20"
  by (simp add: pressing_def)

lemma pressing_round:
  assumes "fw_debouncer fw' = fw_debouncer fw" and "fw_gestures fw' = fw_gestures fw" and "fw_ready fw' = fw_ready fw"
  shows "pressing now d0 xs fw' = pressing now d0 xs fw" "holding now d0 xs fw' = holding now d0 xs fw"
  by (simp_all only: pressing_def holding_def assms)

lemma stopping_round:
  assumes "stopping now d0 xs fw" and "d0 \<le> d" and "\<forall>x\<in>set xs. x \<le> d" and "d < 2 ^ 32"
  shows "stopping now d0 (xs @ [d]) (main_round deps radio False (now + word_of_nat d) fw)"
proof -
  let ?fw = "main_round deps radio False (now + word_of_nat d) fw"
  obtain g fw1 where p: "poll False (now + word_of_nat d) fw = (g, fw1)" by fastforce
  have busy: "phase_of (fw_presenter fw) \<noteq> ConversationPhase_idle" using assms(1) by (simp add: stopping_def)
  note round = main_round_busy [OF p busy, of deps radio]
  note same = pressing_round [OF main_round_effect(1-3) [OF p], of now d0 "xs @ [d]" deps radio]
  have more: "cancel_of fw \<le> cancel_of ?fw" using round(2) by simp
  have "CancelReason_requested \<le> cancel_of ?fw \<or> pressing now d0 (xs @ [d]) ?fw \<or> holding now d0 (xs @ [d]) ?fw"
  proof -
    consider "CancelReason_requested \<le> cancel_of fw" | "pressing now d0 xs fw" | "holding now d0 xs fw"
      using assms(1) by (auto simp: stopping_def)
    then show ?thesis
    proof cases
      case 1
      then show ?thesis using more by (meson order_trans)
    next
      case 2
      then show ?thesis using pressing_poll [OF 2 assms(2,4) p] same by (simp split: if_splits)
    next
      case 3
      then show ?thesis using holding_poll [OF 3 assms(3,4) p] same round(2) by auto
    qed
  qed
  then show ?thesis using round(1) busy by (simp add: stopping_def)
qed

lemma stopping_rounds:
  assumes "stopping now d0 xs fw" and "sorted (d0 # ds)" and "\<forall>x\<in>set xs. \<forall>d\<in>set ds. x \<le> d" and "\<forall>d\<in>set ds. d < 2 ^ 32"
  shows "stopping now d0 (xs @ ds) (fold (\<lambda>d. main_round deps radio False (now + word_of_nat d)) ds fw)"
  using assms
proof (induction ds arbitrary: xs fw)
  case (Cons d ds)
  have "stopping now d0 (xs @ [d]) (main_round deps radio False (now + word_of_nat d) fw)"
    using Cons.prems by (intro stopping_round) auto
  from Cons.IH [OF this] Cons.prems show ?case by (auto simp: ball_Un)
qed simp

text \<open>The button at rest: it has been read, it is up, and no hold is pending.\<close>

definition at_rest :: "('v, 'r, 'p) firmware \<Rightarrow> bool" where
  "at_rest fw \<longleftrightarrow>
    fw_ready fw \<and> db_started (fw_debouncer fw) \<and> db_stable_ms (fw_debouncer fw) = 20 \<and>
    \<not> db_candidate (fw_debouncer fw) \<and> \<not> db_stable (fw_debouncer fw) \<and>
    bg_hold_ms (fw_gestures fw) = 500 \<and> \<not> bg_pressed (fw_gestures fw)"

lemma first_reading:
  assumes "at_rest fw" and "phase_of (fw_presenter fw) \<noteq> ConversationPhase_idle" and "d0 < 2 ^ 32"
  shows "stopping now d0 [d0] (main_round deps radio False (now + word_of_nat d0) fw)"
proof -
  let ?t = "now + word_of_nat d0"
  let ?db = "(fw_debouncer fw)\<lparr>db_candidate := True, db_candidate_since := ?t\<rparr>"
  obtain r c where "report_gesture ?t (fw_gestures fw) = (r, (fw_gestures fw)\<lparr>bg_clicks := c\<rparr>)"
    by (rule report_waits [of "fw_gestures fw" ?t]) (use assms(1) in \<open>simp add: at_rest_def\<close>)
  then have p: "poll False ?t fw = (r, fw\<lparr>fw_debouncer := ?db, fw_gestures := (fw_gestures fw)\<lparr>bg_clicks := c\<rparr>\<rparr>)"
    using assms(1) by (simp add: at_rest_def poll_def debounce_update_def gesture_update_def take_edge_def)
  have "pressing now d0 [d0] (fw\<lparr>fw_debouncer := ?db, fw_gestures := (fw_gestures fw)\<lparr>bg_clicks := c\<rparr>\<rparr>)"
    using assms(1) by (simp add: pressing_def at_rest_def)
  then show ?thesis
    using pressing_round [OF main_round_effect(1-3) [OF p], of now d0 "[d0]" deps radio]
      main_round_busy(1) [OF p assms(2), of deps radio] assms(2)
    by (simp add: stopping_def)
qed

text \<open>C10: holding the button stops the speech. If the contact reads closed in every round from the first
  one on, some round comes 20 ms or more after it and another one half a second or more after that, then
  by the end the running conversation has been requested to stop, or something graver has, whatever the
  network does meanwhile, wherever the clock wraps and however unevenly the rounds come.\<close>
theorem held_button_stops_conversation:
  assumes "at_rest fw" and "phase_of (fw_presenter fw) \<noteq> ConversationPhase_idle"
    and "sorted (d0 # ds)" and "\<forall>d\<in>set (d0 # ds). d < 2 ^ 32"
    and "e \<in> set ds" and "d0 + 20 \<le> e" and "h \<in> set ds" and "e + 500 \<le> h"
  shows "CancelReason_requested \<le>
    cancel_of (fold (\<lambda>d. main_round deps radio False (now + word_of_nat d)) (d0 # ds) fw)"
proof -
  let ?fw = "fold (\<lambda>d. main_round deps radio False (now + word_of_nat d)) (d0 # ds) fw"
  have "stopping now d0 ([d0] @ ds) ?fw"
    unfolding fold_simps(2) using first_reading [OF assms(1,2)] assms(3,4) by (intro stopping_rounds) simp_all
  moreover have "\<not> pressing now d0 ([d0] @ ds) ?fw"
    using assms(5,6) pressing_bound [of now d0 "[d0] @ ds" ?fw e] by auto
  moreover have "\<not> holding now d0 ([d0] @ ds) ?fw"
  proof
    assume "holding now d0 ([d0] @ ds) ?fw"
    then obtain s where "\<forall>d\<in>set ([d0] @ ds). d < s + 500" "\<forall>d\<in>set ([d0] @ ds). d0 + 20 \<le> d \<longrightarrow> s \<le> d"
      by (auto simp: holding_def)
    with assms(5-8) have "s \<le> e" "h < s + 500" by auto
    with assms(8) show False by simp
  qed
  ultimately show ?thesis by (simp add: stopping_def)
qed

section \<open>At work\<close>

definition demo_boot :: boot_facts where
  "demo_boot =
    \<lparr>bt_panel = True, bt_canvas = True, bt_pixels = 128, bt_gpio = True, bt_nvs = True, bt_token = None,
     bt_root = (\<lambda>total. 0), bt_url = Url_no_namespace, bt_capture = True, bt_stage = Some [0], bt_created = True\<rparr>"

definition demo_firmware :: "ConversationPhase \<Rightarrow> (unit, unit, i2c_line) firmware" where
  "demo_firmware phase =
    (firmware_new (demo_presenter phase))\<lparr>fw_ready := True, fw_debouncer := (button_debouncer 20)\<lparr>db_started := True\<rparr>\<rparr>"

lemma demo_firmware_facts:
  "voice_of (demo_firmware phase) = voice_new ()" "\<not> ct_running (task_of (demo_firmware phase))"
  "pr_serial (fw_presenter (demo_firmware phase)) = []" "at_rest (demo_firmware phase)"
  "phase_of (fw_presenter (demo_firmware phase)) = phase"
  by (simp_all add: demo_firmware_def firmware_new_def voice_of_def task_of_def demo_presenter_def presenter_new_def
      conversation_task_def ct_world_def at_rest_def button_debouncer_def button_gesture_def phase_of_def task_phase_def)

lemma boot_offers_what_is_there_witness:
  "vb_direction (voice_of (snd (boot demo_deps demo_boot quiet_radio (demo_firmware ConversationPhase_idle)))) =
    AudioDirectionState_idle"
proof -
  have "voice_wf (voice_of (demo_firmware ConversationPhase_idle))"
    "vb_direction (voice_of (demo_firmware ConversationPhase_idle)) = AudioDirectionState_idle"
    by (simp_all add: demo_firmware_facts voice_wf_new) (simp add: voice_new_def)
  from boot_offers_what_is_there [OF this demo_firmware_facts(2,3) surjective_pairing, of demo_deps demo_boot quiet_radio]
  show ?thesis by blast
qed

lemma held_button_stops_conversation_witness:
  "CancelReason_requested \<le>
    cancel_of (fold (\<lambda>d. main_round demo_deps quiet_radio False (4294967000 + word_of_nat d)) [0, 25, 300, 540]
      (demo_firmware ConversationPhase_speaking))"
  using held_button_stops_conversation [OF demo_firmware_facts(4), of ConversationPhase_speaking 0 "[25, 300, 540]" 25 540
      demo_deps quiet_radio 4294967000]
  by (simp add: demo_firmware_facts)

end
