(* ===== verification/Selftest.thy ===== *)
theory Selftest
  imports Commands Audio_Direction
begin

text \<open>
  \<open>stackchan_selftest/selftest.hpp\<close>: the checks the device runs on itself at boot, through the router
  and three of the units below it. What is modelled is the answer; its lines on the log are left out.
\<close>

section \<open>The checks\<close>

definition contains :: "string \<Rightarrow> string \<Rightarrow> bool" where
  "contains words needle \<longleftrightarrow>
    list_ex (\<lambda>i. take (length needle) (drop i words) = needle) [0..<Suc (length words)]"

definition describe_request :: string where
  "describe_request =
    ''{'' @ [q] @ ''id'' @ [q] @ '':'' @ [q] @ ''st-1'' @ [q] @ '','' @ [q] @ ''name'' @ [q] @ '':''
    @ [q] @ ''device.describe'' @ [q] @ ''}''"

definition unknown_request :: string where
  "unknown_request =
    ''{'' @ [q] @ ''id'' @ [q] @ '':'' @ [q] @ ''st-2'' @ [q] @ '','' @ [q] @ ''name'' @ [q] @ '':''
    @ [q] @ ''no.such'' @ [q] @ ''}''"

definition router_ok :: "'w command_registry \<Rightarrow> access_token \<Rightarrow> string \<Rightarrow> 'w \<Rightarrow> bool \<times> 'w" where
  "router_ok registry stored token w =
    (let (ok, w) = route registry stored token describe_request w
     in if \<not> contains ok (quoted ''ok'' @ '':true'') \<or> \<not> contains ok (quoted ''device_id'') \<or>
           \<not> contains ok (quoted ''capabilities'') then (False, w)
        else
          (let (denied, w) = route registry stored ''WRONGTOKEN'' describe_request w
           in if \<not> contains denied (quoted ''code'' @ '':'' @ quoted ''bad_request'') then (False, w)
              else
                (let (unknown, w) = route registry stored token unknown_request w
                 in (contains unknown (quoted ''code'' @ '':'' @ quoted ''unknown_command''), w))))"

definition direction_ok :: bool where
  "direction_ok =
    (let (t, d) = begin_capture AudioDirectionState_idle
     in if t \<noteq> AudioTransition_proceed then False
        else
          (let (t, d) = begin_playback d
           in if t \<noteq> AudioTransition_denied then False
              else fst (begin_playback (end_capture d)) = AudioTransition_proceed))"

definition scope_ok :: bool where
  "scope_ok =
    (let ap = (192, 168, 4, 1);
         allow = provisioning_allowed True ap (Some ap);
         deny_sta = provisioning_allowed True ap (Some (192, 168, 1, 7));
         deny_unknown = provisioning_allowed True ap None;
         deny_down = provisioning_allowed False ap (Some ap)
     in allow \<and> \<not> deny_sta \<and> \<not> deny_unknown \<and> \<not> deny_down)"

definition stager_ok :: "u32 \<Rightarrow> bool" where
  "stager_ok now =
    (let s = stager_new (Some (replicate 32 0)) 32 240;
         chunk = replicate 10 0;
         (n, s) = begin_sentence Expression_happy s
     in if n \<noteq> 0 then False
        else
          (let (n, s) = accept (Some chunk) s
           in if n \<noteq> 10 then False
              else
                (let (n, s) = begin_sentence Expression_sad s
                 in if n \<noteq> 10 then False
                    else if ps_speaking s \<noteq> Expression_happy then False
                    else
                      (let s = flushed now s
                       in if ps_speaking s \<noteq> Expression_sad then False
                          else
                            (let (n, s) = accept (Some (take 5 chunk)) s
                             in if n \<noteq> 5 then False else fst (finish True s) = 5)))))"

definition selftest_run :: "'w command_registry \<Rightarrow> access_token \<Rightarrow> u32 \<Rightarrow> 'w \<Rightarrow> bool \<times> 'w" where
  "selftest_run registry token now w =
    (let (router, w) = (if token_set token then router_ok registry token (token_text token) w else (False, w))
     in (router \<and> direction_ok \<and> scope_ok \<and> stager_ok now, w))"

section \<open>Finding text\<close>

lemma contains_iff: "contains words needle \<longleftrightarrow> (\<exists>a b. words = a @ needle @ b)"
proof
  assume "contains words needle"
  then obtain i where "take (length needle) (drop i words) = needle" by (auto simp: contains_def list_ex_iff)
  then have "words = take i words @ needle @ drop (length needle) (drop i words)" by (metis append_take_drop_id)
  then show "\<exists>a b. words = a @ needle @ b" by blast
next
  assume "\<exists>a b. words = a @ needle @ b"
  then obtain a b where "words = a @ needle @ b" by blast
  then show "contains words needle"
    by (auto simp: contains_def list_ex_iff intro!: bexI [of _ "length a"])
qed

lemma contains_here: "contains (needle @ b) needle"
  unfolding contains_iff by (metis append_Nil)

lemma contains_after: "contains words needle \<Longrightarrow> contains (a @ words) needle"
  unfolding contains_iff by (metis append.assoc)

lemma contains_before: "contains words needle \<Longrightarrow> contains (words @ b) needle"
  unfolding contains_iff by (metis append.assoc)

lemma contains_later: "contains words needle \<Longrightarrow> contains (c # words) needle"
  using contains_after [of words needle "[c]"] by simp

text \<open>A member of an object is in its text.\<close>

lemma contains_with_commas: "x \<in> set xs \<Longrightarrow> contains x needle \<Longrightarrow> contains (with_commas xs) needle"
  by (induction xs rule: with_commas.induct) (auto intro: contains_after contains_before contains_later)

lemma contains_member:
  "(n, j) \<in> set ms \<Longrightarrow> contains (quoted n @ '':'' @ render j) needle \<Longrightarrow> contains (render (JObject ms)) needle"
proof -
  have "(n, j) \<in> set ms \<Longrightarrow> quoted n @ '':'' @ render j \<in> set (member_texts ms)"
    by (induction ms) auto
  then show "(n, j) \<in> set ms \<Longrightarrow> contains (quoted n @ '':'' @ render j) needle \<Longrightarrow> contains (render (JObject ms)) needle"
    by (auto intro!: contains_later contains_before contains_with_commas)
qed

section \<open>The router answers as the check expects\<close>

lemma requests_read:
  "read_request_name describe_request = Some ''device.describe''" "read_request_id describe_request = ''st-1''"
  "json_find_object_checked describe_request ''payload'' = JsonMemberResult_missing"
  "read_request_name unknown_request = Some ''no.such''" "read_request_id unknown_request = ''st-2''"
  "json_find_object_checked unknown_request ''payload'' = JsonMemberResult_missing"
  by code_simp+

lemma requests_accepted:
  assumes "token_set token"
  shows "refusal token (token_text token) describe_request = None" "refusal token (token_text token) unknown_request = None"
  using assms requests_read
  by (simp_all add: refusal_def describe_request_def unknown_request_def kMaxBodyBytes_def)

lemma find_commands:
  "registry_find ''device.describe'' (device_commands display voice) =
    Some \<lparr>en_spec = command_spec ''device.describe'', en_handler = handle_describe\<rparr>"
  "registry_find ''no.such'' (device_commands display voice) = None"
  by (simp_all add: device_commands_def)

lemma error_text_code:
  "contains (render (error_tree ident code message)) (quoted ''code'' @ '':'' @ quoted (error_to_string code))"
  (is "contains _ ?needle")
proof -
  let ?ms = "[(''code'', JText (error_to_string code))] @ (if message \<noteq> [] then [(''message'', JText message)] else []) @
    [(''retryable'', JBool (is_retryable code))]"
  have "contains (render (JObject ?ms)) ?needle"
    by (rule contains_member [of "''code''" "JText (error_to_string code)"])
      (simp_all add: contains_here [of _ "[]", simplified] del: append_Cons append_assoc)
  then have "contains (quoted ''error'' @ '':'' @ render (JObject ?ms)) ?needle" by (intro contains_after)
  then show ?thesis unfolding error_tree_def by (rule contains_member [rotated]) simp
qed

lemma result_text_contains:
  "contains (render (result_tree ident payload)) (quoted ''ok'' @ '':true'')"
  "payload \<noteq> [] \<Longrightarrow> contains payload needle \<Longrightarrow> contains (render (result_tree ident payload)) needle"
proof -
  show "contains (render (result_tree ident payload)) (quoted ''ok'' @ '':true'')"
    unfolding result_tree_def
    by (rule contains_member [of "''ok''" "JBool True"]) (simp_all add: contains_here [of _ "[]", simplified])
  show "contains (render (result_tree ident payload)) needle" if "payload \<noteq> []" "contains payload needle"
    unfolding result_tree_def
    by (rule contains_member [of "''payload''" "payload_tree payload"])
      (use that in \<open>simp_all add: payload_tree_def contains_after contains_later\<close>)
qed

lemma description_text_contains:
  "contains (render (description_tree identity specs uptime)) (quoted ''device_id'')"
  "contains (render (description_tree identity specs uptime)) (quoted ''capabilities'')"
  unfolding description_tree_def
  by (rule contains_member [of "''device_id''" "JText (di_device_id identity)"]; simp add: contains_here)
    (rule contains_member [of "''capabilities''" "JArray (map spec_tree specs)"]; simp add: contains_here)

lemma quoted_bound: "length (quoted words) \<le> 6 * length words + 2"
  using escape_length [of words] by (simp add: quoted_def)

text \<open>The description goes through as the payload of a result that fits its envelope.\<close>

lemma describe_answer:
  assumes "token_wf token" and "token_set token"
    and "length (render (description_tree (dv_identity d) (dv_specs d) (dv_uptime_ms d))) \<le> kPayloadBytes"
  shows "route (device_commands display voice) token (token_text token) describe_request d =
    (render (result_tree ''st-1'' (render (description_tree (dv_identity d) (dv_specs d) (dv_uptime_ms d)))), d)"
proof -
  let ?tree = "description_tree (dv_identity d) (dv_specs d) (dv_uptime_ms d)"
  let ?payload = "write_json ?tree (json_writer kPayloadBytes)"
  have valid: "jw_valid ?payload" "jw_text ?payload = render ?tree"
    using write_json_exact [of ?tree kPayloadBytes] description_height [of "dv_identity d" "dv_specs d" "dv_uptime_ms d"] assms(3)
    by (simp_all add: kMaxDepth_def)
  have some: "render ?tree \<noteq> []" by (simp add: description_tree_def)
  have kind: "kind_to_string MessageKind_result = ''result''" by code_simp
  have "length (render (result_tree ''st-1'' (render ?tree))) \<le> kEnvelopeBytes"
    using assms(3) some quoted_bound [of "''v''"] quoted_bound [of "''kind''"] quoted_bound [of "''result''"]
      quoted_bound [of "''id''"] quoted_bound [of "''st-1''"] quoted_bound [of "''ok''"] quoted_bound [of "''payload''"]
    by (simp add: result_tree_def header_members_def payload_tree_def kEnvelopeBytes_def kProtocolVersion_def kind)
  then have "handled_tree ''st-1'' ErrorCode_none ?payload = result_tree ''st-1'' (render ?tree)"
    using valid by (simp add: handled_tree_def)
  moreover have "dispatch (device_commands display voice) ''device.describe'' (scan_params []) (json_writer kPayloadBytes) d =
      (ErrorCode_none, ?payload, d)"
    by (simp add: dispatch_def find_commands handle_describe_def write_description_tree command_spec_def)
  ultimately show ?thesis
    using route_accepted [OF assms(1) requests_accepted(1) [OF assms(2)], of "device_commands display voice" d]
    by (simp add: requests_read request_payload_def)
qed

text \<open>C34: the boot report of a sound device is good: with a token, with the commands registered and a
  description that fits the router's buffer, every check passes at any time, and the device is left as
  it was.\<close>
theorem selftest_passes:
  assumes "token_wf token" and "token_set token" and "register_commands display voice [] = (True, registry)"
    and "length (render (description_tree (dv_identity d) (dv_specs d) (dv_uptime_ms d))) \<le> kPayloadBytes"
  shows "selftest_run registry token now d = (True, d)"
proof -
  have registry: "registry = device_commands display voice" using assms(3) by (simp add: register_commands_all)
  let ?text = "render (description_tree (dv_identity d) (dv_specs d) (dv_uptime_ms d))"
  have some: "?text \<noteq> []" by (simp add: description_tree_def)
  have "''WRONGTOKEN'' \<noteq> token_text token" using assms(1) by (auto simp: token_wf_def kTokenLength_def dest: arg_cong [of _ _ length])
  then have "refusal token ''WRONGTOKEN'' describe_request = Some ([], ''X-StackChan-Token header is missing or wrong'')"
    by (simp add: refusal_def)
  note denied = route_refused [OF assms(1) this, of registry d]
  have unknown: "route registry token (token_text token) unknown_request d =
      (render (error_tree ''st-2'' ErrorCode_unknown_command []), d)"
    using route_accepted [OF assms(1) requests_accepted(2) [OF assms(2)], of registry d]
    by (simp add: registry requests_read request_payload_def dispatch_def find_commands handled_tree_def)
  have codes: "error_to_string ErrorCode_bad_request = ''bad_request''"
    "error_to_string ErrorCode_unknown_command = ''unknown_command''" by code_simp+
  have "router_ok registry token (token_text token) d = (True, d)"
    using describe_answer [OF assms(1,2,4), of display voice] denied unknown
      result_text_contains(1) [of "''st-1''" ?text] result_text_contains(2) [OF some description_text_contains(1), of "''st-1''"]
      result_text_contains(2) [OF some description_text_contains(2), of "''st-1''"]
      error_text_code [of "[]" ErrorCode_bad_request "''X-StackChan-Token header is missing or wrong''"]
      error_text_code [of "''st-2''" ErrorCode_unknown_command "[]"]
    by (simp add: router_ok_def registry Let_def codes)
  moreover have "direction_ok" by (simp add: direction_ok_def begin_capture_def begin_playback_def end_capture_def)
  moreover have "scope_ok" by (simp add: scope_ok_def provisioning_allowed_def)
  moreover have "stager_ok now"
    by (simp add: stager_ok_def stager_new_def begin_sentence_def accept_def flushed_def finish_def Let_def)
  ultimately show ?thesis using assms(2) by (simp add: selftest_run_def)
qed

lemma demo_description_fits:
  "length (render (description_tree (dv_identity demo_device) (dv_specs demo_device) (dv_uptime_ms demo_device))) \<le> kPayloadBytes"
proof -
  have specs: "dv_specs demo_device =
      [command_spec ''device.describe'', command_spec ''device.state'', command_spec ''device.health'',
       command_spec ''estop.engage'', command_spec ''estop.clear'', set_expression_spec True, configure_spec,
       start_spec True, cancel_spec True, command_spec ''token.rotate'']"
    "dv_uptime_ms demo_device = 1"
    "dv_identity demo_device = \<lparr>di_device_id = ''d'', di_boot_id = boot_unset, di_firmware_version = ''1'',
       di_firmware_idf = ''5'', di_firmware_build = ''b''\<rparr>"
    by (simp_all add: demo_device_def device_commands_def)
  show ?thesis unfolding specs by code_simp
qed

lemma selftest_passes_witness: "selftest_run (device_commands True True) open_token 7 demo_device = (True, demo_device)"
proof -
  have "token_set open_token" by (simp add: open_token_def token_from_text_eq)
  from selftest_passes [OF open_token_wf this register_commands_all demo_description_fits] show ?thesis .
qed

end
