(* ===== verification/Spec2Isabelle.thy ===== *)
theory Spec2Isabelle
  imports
    Prelude Protocol Deadline Cancel_Source Mailbox Buffer_Pool Event_Bus Receive_Exact
    Device_State Access_Token Audio_Direction Ids Wav Base64 Button Network_Policy Board_Profile
    Json_Scan Json_Grammar Json_Writer Json_Documents Sse Speech Speech_Session
    Scan_Params Command_Registry Envelope Request_Router Conversation Playback_Stager Player Identity
    Gateway_Client Conversation_Task Commands Wifi Device_Api Device_Identity
    Voice_Base Voice_Turn Probe Face Presenter Main_Loop Selftest
begin

text \<open>
  A model of the firmware of a small talking robot, translated from its C++ sources, with the
  theorems that make it correct.

  \<^bold>\<open>The program.\<close> The device serves commands over HTTP (\<open>stackchan_deviceapi\<close>), each checked and
  dispatched by a router (\<open>stackchan_app/request_router\<close>) through a registry of handlers
  (\<open>command_registry\<close>, the handlers in \<open>stackchan_commands\<close>), with arguments read from JSON
  (\<open>scan_params\<close> over \<open>stackchan_domain/json_scan\<close>) and answers written as JSON (\<open>json_writer\<close>,
  \<open>envelope\<close>). A conversation is one turn of a task (\<open>stackchan_conversation/task.cpp\<close>): it records,
  sends sound or words to a gateway (\<open>gateway_client.cpp\<close>) and streams the reply as server-sent events
  (\<open>sse\<close>), which the turn (\<open>app/conversation\<close>) makes into recognised text, sentences with expressions
  (\<open>speech\<close>) and sound (\<open>base64\<close>); the player stages it (\<open>playback_stager\<close>) and plays it with the right
  face. Underneath, \<open>stackchan_audio\<close> switches codec and I2S between recording and playing, \<open>stackchan_net\<close>
  keeps the Wi-Fi and its setup access point up, \<open>stackchan_display\<close> draws, and \<open>main.cpp\<close> boots all of it
  and runs the loop that serves the button and the screens (\<open>stackchan_input\<close>, \<open>stackchan_ui\<close>). Around
  them are small state machines: deadlines, cancellation, mailboxes, buffer pools and an event bus
  (\<open>stackchan_runtime\<close>), button and gestures, reconnection policy, audio direction, identifiers, the
  access token and its rotation (\<open>stackchan_identity\<close>).

  \<^bold>\<open>Theories.\<close> Each models one part, with the names of its code:
  \<^item> \<open>Prelude\<close>: word widths, substrings, decimal digits, the locale of chunked byte streams, rule
    collections.
  \<^item> \<open>Protocol\<close>, \<open>Device_State\<close>, \<open>Access_Token\<close>, \<open>Audio_Direction\<close>, \<open>Ids\<close>, \<open>Wav\<close>, \<open>Base64\<close>, \<open>Button\<close>,
    \<open>Network_Policy\<close>: the units of \<open>stackchan_domain\<close>; \<open>Board_Profile\<close>: \<open>stackchan_board\<close>.
  \<^item> \<open>Deadline\<close>, \<open>Cancel_Source\<close>, \<open>Mailbox\<close>, \<open>Buffer_Pool\<close>, \<open>Event_Bus\<close>, \<open>Receive_Exact\<close>: \<open>stackchan_runtime\<close>.
  \<^item> \<open>Json_Scan\<close> (the code), \<open>Json_Grammar\<close> (the grammar and soundness of the checked reader),
    \<open>Json_Writer\<close> (the code and the documents as trees), \<open>Json_Documents\<close> (what is written parses).
  \<^item> \<open>Sse\<close> (the reader, and the reference parser it is compared with), \<open>Speech\<close> and \<open>Speech_Session\<close>.
  \<^item> \<open>Scan_Params\<close>, \<open>Command_Registry\<close>, \<open>Envelope\<close>, \<open>Request_Router\<close>, \<open>Conversation\<close>, \<open>Playback_Stager\<close>:
    \<open>stackchan_app\<close>.
  \<^item> \<open>Player\<close> (the listener), \<open>Gateway_Client\<close> (one exchange with the gateway), \<open>Conversation_Task\<close> (the
    turn around it): \<open>stackchan_conversation\<close>.
  \<^item> \<open>Commands\<close>: the ten handlers over the device they share; \<open>Device_Api\<close>: the HTTP routes over the
    router and the Wi-Fi glue; \<open>Identity\<close> and \<open>Device_Identity\<close>: \<open>stackchan_identity\<close>; \<open>Wifi\<close>:
    \<open>stackchan_net/wifi.cpp\<close>.
  \<^item> \<open>Voice_Base\<close>: \<open>stackchan_audio/voice_base.cpp\<close>; \<open>Voice_Turn\<close>: the conversation task on it, as
    \<open>main.cpp\<close> wires them; \<open>Probe\<close>: \<open>stackchan_probe/hardware.cpp\<close>; \<open>Face\<close>: \<open>stackchan_display\<close>.
  \<^item> \<open>Presenter\<close>: \<open>stackchan_ui/presenter.cpp\<close>; \<open>Selftest\<close>: the boot report; \<open>Main_Loop\<close>: the boot order,
    the loop of \<open>main.cpp\<close> and the polling of the button.

  \<^bold>\<open>How code becomes definitions.\<close> A class or a file's globals are a record, a method a function that
  returns the changed record, an enum a datatype; machine integers keep their width as words, sizes
  that cannot wrap are naturals. A fixed array with a length member is a list bounded by the
  invariant. Errors, early returns and failed calls are branches of the result. Loops are recursive
  functions; where the recursion is not structural they either carry a termination proof or fuel. In
  \<open>Json_Scan\<close> the fuel is at least the length of the text plus one, and more changes nothing
  (\<open>Json_Grammar\<close>); in \<open>Sse\<close> and \<open>Speech_Session\<close> it suffices. The loops of a turn that wait for the
  world have fuel as an argument and end when the world does: \<open>keeps_time\<close> (the microphone takes time)
  bounds recording, with fuel 52000, and \<open>stream_ends\<close> (the client ends its stream) the reading; then a
  turn ends for every larger fuel. Atomic operations are steps of a relation over all interleavings
  (\<open>Cancel_Source\<close>). Undefined behaviour of the integer reader is a value of its own
  (\<open>Int_undefined\<close>, \<open>tc_undefined\<close>).

  \<^bold>\<open>What is given.\<close> What is outside the sources is a parameter over an abstract world, a record of
  functions: clock, sink and face (\<open>player_ports\<close>), the task's microphone, delay and cancellation
  (\<open>task_ports\<close>), the HTTP client (\<open>http_ports\<close>), the Wi-Fi driver (\<open>radio\<close>), the I2C and I2S drivers
  (\<open>voice_bus\<close>, \<open>probe_bus\<close>), entropy and storage (\<open>identity_state\<close>), the transport of a request body
  (\<open>transport\<close>). The theorems hold for all of them, or name the contract they need.

  \<^bold>\<open>Interfaces.\<close> Locales state what a client relies on, each interpreted on the code's definitions:
  \<open>chunked_feed\<close> (by \<open>sse_stream\<close>, \<open>speech_stream\<close>), \<open>name_table\<close> (error, kind and expression names),
  \<open>bounded_queue\<close> (the mailbox), \<open>audio_side\<close> (capture and playback), \<open>checked_scanner\<close> (the value
  scanner at every depth), \<open>param_reader\<close> (the scanned parameters).

  \<^bold>\<open>What the theorems show.\<close> Of the HTTP side: which request is answered how, that only authorised
  requests act, that every JSON answer is of the grammar, that the emergency stop outlives any
  requests, and that credentials come only through the access point. Of a conversation: that a turn
  ends, that what is heard is the reply's sound in order under the right face, however the reply is
  cut, that the emergency stop silences it, and that the device's own audio is off afterwards. Of the
  device: half duplex on the codec and its channels, setup always reachable, what boot leaves, that a
  held button stops the speech, that secrets are printed only by hand, and that the boot report passes.
  Of the units: the reader against its reference, the writer against its documents and the grammar,
  the queue, the pool, cancellation under every interleaving, round trips and bounds.

  \<^bold>\<open>Not modelled.\<close> Arithmetic in floating point (the geometry of the face, the waveform and the fading of
  a tone, the square root of a loudness) and calls on the drawing library; pin and clock settings of the
  drivers; logging, apart from the lines of the presenter and of boot that carry data; the creation,
  stacks and priorities of tasks; two tasks inside one operation of the screen, the network or the
  device state at once; timing of the token comparison; memory orders weaker than sequential
  consistency; the replacement drivers of the emulator build.
\<close>

end
